(* ===== verification/Prelude.thy ===== *)
theory Prelude
  imports Main "HOL-Library.List_Lexorder" "HOL-Library.Char_ord"
begin

text \<open>
  What the components share: the named collections of simplification and
  introduction rules, Go's \<^verbatim>\<open>time.Time\<close> and signed 64-bit integers, and the
  functions of Go's \<^verbatim>\<open>strings\<close>, \<^verbatim>\<open>strconv\<close>, \<^verbatim>\<open>sort\<close> and
  \<^verbatim>\<open>encoding/hex\<close> packages that the control plane calls.

  A Go string is a sequence of bytes and so is an Isabelle \<^typ>\<open>string\<close>
  (\<^typ>\<open>char\<close> is an 8-bit value), so \<^verbatim>\<open>len\<close> is \<^const>\<open>length\<close> and Go's
  comparison of strings is the lexicographic order on lists of characters, which
  is what \<^const>\<open>sort\<close> uses here for \<^verbatim>\<open>sort.Strings\<close>.

  A \<^verbatim>\<open>time.Time\<close> is its distance in nanoseconds from the Unix epoch, an
  unbounded \<^typ>\<open>int\<close>; Go's zero time is January 1 of year 1.  \<^verbatim>\<open>UnixNano\<close>
  keeps the low 64 bits, as the Go implementation does.
\<close>

named_theorems str_simps \<open>rewriting of the string functions\<close>
named_theorems tx_simps \<open>one run of a transaction, case by case\<close>
named_theorems table_simps \<open>the effect of an SQL statement on a table\<close>
named_theorems table_intros \<open>what an SQL statement keeps of the keys of a table\<close>

type_synonym gotime = int
type_synonym bytes = string

section \<open>Times and 64-bit integers\<close>

definition wrap64 :: "int \<Rightarrow> int" where
  "wrap64 n = (n + 2 ^ 63) mod 2 ^ 64 - 2 ^ 63"

definition int64 :: "int \<Rightarrow> bool" where
  "int64 n \<longleftrightarrow> - (2 ^ 63) \<le> n \<and> n < 2 ^ 63"

definition zero_time :: gotime where
  "zero_time = - 62135596800000000000"

definition is_zero_time :: "gotime \<Rightarrow> bool" where
  "is_zero_time t \<longleftrightarrow> t = zero_time"

definition unix_nano :: "gotime \<Rightarrow> int" where
  "unix_nano t = wrap64 t"

definition second :: int where
  "second = 1000000000"

definition hour :: int where
  "hour = 3600 * second"

definition day :: int where
  "day = 24 * hour"

lemma wrap64_id [simp]: "int64 n \<Longrightarrow> wrap64 n = n"
  by (auto simp: wrap64_def int64_def)

lemma int64_wrap64 [simp]: "int64 (wrap64 n)"
proof -
  have "0 \<le> (n + 2 ^ 63) mod 2 ^ 64" "(n + 2 ^ 63) mod 2 ^ 64 < (2 ^ 64 :: int)"
    by simp_all
  then show ?thesis by (simp add: wrap64_def int64_def)
qed

lemma wrap64_wrap64 [simp]: "wrap64 (wrap64 n) = wrap64 n"
  by simp

lemma unix_nano_int64 [simp]: "int64 (unix_nano t)"
  by (simp add: unix_nano_def)

lemma unix_nano_id [simp]: "int64 t \<Longrightarrow> unix_nano t = t"
  by (simp add: unix_nano_def)

section \<open>Splitting, joining and searching strings\<close>

fun split_on :: "'a \<Rightarrow> 'a list \<Rightarrow> 'a list list" where
  "split_on c [] = [[]]"
| "split_on c (x # xs) =
     (if x = c then [] # split_on c xs
      else (case split_on c xs of [] \<Rightarrow> [[x]] | y # ys \<Rightarrow> (x # y) # ys))"

fun join_with :: "'a \<Rightarrow> 'a list list \<Rightarrow> 'a list" where
  "join_with c [] = []"
| "join_with c [xs] = xs"
| "join_with c (xs # ys # zs) = xs @ c # join_with c (ys # zs)"

text \<open>\<^verbatim>\<open>strings.LastIndex\<close> for a one-byte separator: \<open>-1\<close> when it is absent.\<close>

fun last_index :: "'a \<Rightarrow> 'a list \<Rightarrow> int" where
  "last_index c [] = - 1"
| "last_index c (x # xs) =
     (let i = last_index c xs in
      if 0 \<le> i then i + 1 else if x = c then 0 else - 1)"

fun has_prefix :: "'a list \<Rightarrow> 'a list \<Rightarrow> bool" where
  "has_prefix xs [] = True"
| "has_prefix [] (y # ys) = False"
| "has_prefix (x # xs) (y # ys) = (x = y \<and> has_prefix xs ys)"

definition has_suffix :: "'a list \<Rightarrow> 'a list \<Rightarrow> bool" where
  "has_suffix xs ys = has_prefix (rev xs) (rev ys)"

definition contains_char :: "'a \<Rightarrow> 'a list \<Rightarrow> bool" where
  "contains_char c xs = (c \<in> set xs)"

lemma split_on_ne [simp]: "split_on c xs \<noteq> []"
  by (induction xs) (auto split: list.splits)

lemma split_on_no_sep: "ys \<in> set (split_on c xs) \<Longrightarrow> c \<notin> set ys"
  by (induction xs arbitrary: ys) (auto split: list.splits if_splits)

lemma split_on_fresh: "c \<notin> set xs \<Longrightarrow> split_on c xs = [xs]"
  by (induction xs) auto

lemma join_with_Cons: "ys \<noteq> [] \<Longrightarrow> join_with c (x # ys) = x @ c # join_with c ys"
  by (cases ys) auto

lemma join_split [simp]: "join_with c (split_on c xs) = xs"
proof (induction xs)
  case Nil
  then show ?case by simp
next
  case (Cons x xs)
  then show ?case
    by (cases "split_on c xs"; cases "tl (split_on c xs)") (auto simp: join_with_Cons)
qed

lemma split_on_append_sep:
  "c \<notin> set xs \<Longrightarrow> split_on c (xs @ c # ys) = xs # split_on c ys"
  by (induction xs) auto

lemma split_join:
  "xss \<noteq> [] \<Longrightarrow> \<forall>xs \<in> set xss. c \<notin> set xs \<Longrightarrow> split_on c (join_with c xss) = xss"
proof (induction c xss rule: join_with.induct)
  case (1 c)
  then show ?case by simp
next
  case (2 c xs)
  then show ?case by (simp add: split_on_fresh)
next
  case (3 c xs ys zs)
  then show ?case by (simp add: split_on_append_sep)
qed

lemma last_index_ge [simp]: "- 1 \<le> last_index c xs"
  by (induction xs) (auto simp: Let_def)

lemma last_index_less: "last_index c xs < int (length xs)"
  by (induction xs) (auto simp: Let_def)

lemma last_index_absent: "last_index c xs = - 1 \<longleftrightarrow> c \<notin> set xs"
proof (induction xs)
  case Nil
  then show ?case by simp
next
  case (Cons x xs)
  have "- 1 \<le> last_index c xs" by (rule last_index_ge)
  then have "last_index c xs = - 1 \<or> 0 \<le> last_index c xs" by linarith
  with Cons show ?case by (auto simp: Let_def)
qed

lemma last_index_append_sep:
  "c \<notin> set ys \<Longrightarrow> last_index c (xs @ c # ys) = int (length xs)"
proof (induction xs)
  case Nil
  then have "last_index c ys = - 1" by (simp add: last_index_absent)
  then show ?case by simp
next
  case (Cons x xs)
  then show ?case by (simp add: Let_def)
qed

lemma has_prefix_iff: "has_prefix xs ys \<longleftrightarrow> (\<exists>zs. xs = ys @ zs)"
  by (induction xs ys rule: has_prefix.induct) auto

lemma has_prefix_append [simp]: "has_prefix (xs @ ys) xs"
  by (simp add: has_prefix_iff)

lemma has_suffix_iff: "has_suffix xs ys \<longleftrightarrow> (\<exists>zs. xs = zs @ ys)"
proof
  assume "has_suffix xs ys"
  then obtain zs where "rev xs = rev ys @ zs"
    by (auto simp: has_suffix_def has_prefix_iff)
  then have "xs = rev zs @ ys" by (metis rev_append rev_rev_ident)
  then show "\<exists>zs. xs = zs @ ys" ..
next
  assume "\<exists>zs. xs = zs @ ys"
  then show "has_suffix xs ys" by (auto simp: has_suffix_def has_prefix_iff)
qed

text \<open>Two ways to take a string apart at a separator: at the first and at the last one.\<close>

lemma first_sep_unique:
  "xs @ c # us = ys @ c # vs \<Longrightarrow> c \<notin> set xs \<Longrightarrow> c \<notin> set ys \<Longrightarrow> xs = ys \<and> us = vs"
proof (induction xs arbitrary: ys)
  case Nil
  then show ?case by (cases ys) auto
next
  case (Cons x xs)
  then show ?case by (cases ys) auto
qed

lemma last_sep_unique:
  assumes "us @ c # xs = vs @ c # ys" "c \<notin> set xs" "c \<notin> set ys"
  shows "us = vs \<and> xs = ys"
proof -
  have "rev xs @ c # rev us = rev ys @ c # rev vs"
    using arg_cong [OF assms(1), of rev] by simp
  then have "rev xs = rev ys \<and> rev us = rev vs"
    by (rule first_sep_unique) (simp_all add: assms)
  then show ?thesis by simp
qed

section \<open>White space\<close>

text \<open>
  The UTF-8 encodings of the code points that \<^verbatim>\<open>unicode.IsSpace\<close> accepts;
  \<^verbatim>\<open>strings.TrimSpace\<close> removes them from both ends.
\<close>

definition space_seqs :: "string list" where
  "space_seqs =
     [[CHR 0x09], [CHR 0x0A], [CHR 0x0B], [CHR 0x0C], [CHR 0x0D], [CHR 0x20],
      [CHR 0xC2, CHR 0x85], [CHR 0xC2, CHR 0xA0], [CHR 0xE1, CHR 0x9A, CHR 0x80],
      [CHR 0xE2, CHR 0x80, CHR 0x80], [CHR 0xE2, CHR 0x80, CHR 0x81],
      [CHR 0xE2, CHR 0x80, CHR 0x82], [CHR 0xE2, CHR 0x80, CHR 0x83],
      [CHR 0xE2, CHR 0x80, CHR 0x84], [CHR 0xE2, CHR 0x80, CHR 0x85],
      [CHR 0xE2, CHR 0x80, CHR 0x86], [CHR 0xE2, CHR 0x80, CHR 0x87],
      [CHR 0xE2, CHR 0x80, CHR 0x88], [CHR 0xE2, CHR 0x80, CHR 0x89],
      [CHR 0xE2, CHR 0x80, CHR 0x8A], [CHR 0xE2, CHR 0x80, CHR 0xA8],
      [CHR 0xE2, CHR 0x80, CHR 0xA9], [CHR 0xE2, CHR 0x80, CHR 0xAF],
      [CHR 0xE2, CHR 0x81, CHR 0x9F], [CHR 0xE3, CHR 0x80, CHR 0x80]]"

function trim_left :: "string list \<Rightarrow> string \<Rightarrow> string" where
  "trim_left sps xs =
     (case filter (\<lambda>sp. sp \<noteq> [] \<and> has_prefix xs sp) sps of
        [] \<Rightarrow> xs
      | sp # _ \<Rightarrow> trim_left sps (drop (length sp) xs))"
  by pat_completeness auto
termination
proof (relation "measure (\<lambda>(sps, xs). length xs)")
  show "wf (measure (\<lambda>(sps :: string list, xs). length xs))" by simp
next
  fix sps :: "string list" and xs sp and rest :: "string list"
  assume "filter (\<lambda>sp. sp \<noteq> [] \<and> has_prefix xs sp) sps = sp # rest"
  then have "sp \<in> set (filter (\<lambda>sp. sp \<noteq> [] \<and> has_prefix xs sp) sps)" by simp
  then have "sp \<noteq> []" "has_prefix xs sp" by auto
  then show "((sps, drop (length sp) xs), sps, xs) \<in> measure (\<lambda>(sps, xs). length xs)"
    by (cases sp; cases xs) auto
qed

declare trim_left.simps [simp del]

lemma trim_left_Nil [simp]: "trim_left sps [] = []"
proof -
  have "filter (\<lambda>sp. sp \<noteq> [] \<and> has_prefix [] sp) sps = []"
    by (auto simp: filter_empty_conv has_prefix_iff)
  then show ?thesis by (subst trim_left.simps) simp
qed

definition trim_space :: "string \<Rightarrow> string" where
  "trim_space xs =
     rev (trim_left (map rev space_seqs) (rev (trim_left space_seqs xs)))"

lemma trim_space_Nil [simp]: "trim_space [] = []"
  by (simp add: trim_space_def)

section \<open>Decimal and hexadecimal\<close>

definition digit :: "nat \<Rightarrow> char" where
  "digit n = char_of (48 + n)"

fun dec_nat :: "nat \<Rightarrow> string" where
  "dec_nat n = (if n < 10 then [digit n] else dec_nat (n div 10) @ [digit (n mod 10)])"

declare dec_nat.simps [simp del]

text \<open>\<^verbatim>\<open>%d\<close> and \<^verbatim>\<open>strconv.FormatInt\<close> in base ten.\<close>

definition itoa :: "int \<Rightarrow> string" where
  "itoa i = (if i < 0 then CHR ''-'' # dec_nat (nat (- i)) else dec_nat (nat i))"

definition undec :: "string \<Rightarrow> nat" where
  "undec s = foldl (\<lambda>a c. 10 * a + (of_char c - 48)) 0 s"

lemma of_char_digit [simp]: "n < 10 \<Longrightarrow> of_char (digit n) = 48 + n"
  by (simp add: digit_def)

lemma undec_dec_nat [simp]: "undec (dec_nat n) = n"
proof (induction n rule: dec_nat.induct)
  case (1 n)
  show ?case
  proof (cases "n < 10")
    case True
    then show ?thesis by (subst dec_nat.simps) (simp add: undec_def)
  next
    case False
    with 1 have "undec (dec_nat (n div 10)) = n div 10" by simp
    with False show ?thesis by (subst dec_nat.simps) (simp add: undec_def)
  qed
qed

lemma dec_nat_digits: "c \<in> set (dec_nat n) \<Longrightarrow> 48 \<le> (of_char c :: nat) \<and> of_char c < (58 :: nat)"
proof (induction n rule: dec_nat.induct)
  case (1 n)
  show ?case
  proof (cases "n < 10")
    case True
    with 1 show ?thesis by (subst (asm) (2) dec_nat.simps) auto
  next
    case False
    with 1 have "c \<in> set (dec_nat (n div 10)) \<or> c = digit (n mod 10)"
      by (subst (asm) (2) dec_nat.simps) auto
    with 1 False show ?thesis by auto
  qed
qed

lemma dec_nat_inject [simp]: "dec_nat m = dec_nat n \<longleftrightarrow> m = n"
  by (metis undec_dec_nat)

lemma dec_nat_ne [simp]: "dec_nat n \<noteq> []"
  by (subst dec_nat.simps) simp

lemma minus_notin_dec_nat: "CHR ''-'' \<notin> set (dec_nat n)"
  by (auto dest: dec_nat_digits)

lemma bar_notin_itoa: "CHR ''|'' \<notin> set (itoa i)"
  by (auto simp: itoa_def dest: dec_nat_digits)

lemma colon_notin_itoa: "CHR '':'' \<notin> set (itoa i)"
  by (auto simp: itoa_def dest: dec_nat_digits)

lemma itoa_inject [simp]: "itoa i = itoa j \<longleftrightarrow> i = j"
proof
  assume eq: "itoa i = itoa j"
  have "dec_nat m \<noteq> CHR ''-'' # s" for m s
    using minus_notin_dec_nat [of m] by auto
  then have "(i < 0) = (j < 0)"
    using eq by (metis itoa_def)
  with eq show "i = j" by (auto simp: itoa_def split: if_splits)
qed simp

definition hex_digit :: "nat \<Rightarrow> char" where
  "hex_digit n = (if n < 10 then char_of (48 + n) else char_of (87 + n))"

definition hex_val :: "char \<Rightarrow> nat option" where
  "hex_val c =
     (let n = of_char c in
      if 48 \<le> n \<and> n \<le> 57 then Some (n - 48)
      else if 97 \<le> n \<and> n \<le> 102 then Some (n - 87)
      else if 65 \<le> n \<and> n \<le> 70 then Some (n - 55)
      else None)"

definition hex_byte :: "char \<Rightarrow> string" where
  "hex_byte c = [hex_digit (of_char c div 16), hex_digit (of_char c mod 16)]"

text \<open>\<^verbatim>\<open>hex.EncodeToString\<close> and \<^verbatim>\<open>hex.DecodeString\<close>.\<close>

definition hex_encode :: "bytes \<Rightarrow> string" where
  "hex_encode bs = concat (map hex_byte bs)"

fun hex_decode :: "string \<Rightarrow> bytes option" where
  "hex_decode [] = Some []"
| "hex_decode [c] = None"
| "hex_decode (a # b # r) =
     (case (hex_val a, hex_val b, hex_decode r) of
        (Some x, Some y, Some bs) \<Rightarrow> Some (char_of (16 * x + y) # bs)
      | _ \<Rightarrow> None)"

lemma hex_val_digit [simp]: "n < 16 \<Longrightarrow> hex_val (hex_digit n) = Some n"
  by (auto simp: hex_val_def hex_digit_def Let_def)

lemma of_char_lt256: "of_char (c :: char) < (256 :: nat)"
  by (cases c) (simp add: of_char_def)

lemma hex_decode_encode [simp]: "hex_decode (hex_encode bs) = Some bs"
proof (induction bs)
  case Nil
  then show ?case by (simp add: hex_encode_def)
next
  case (Cons b bs)
  have "of_char b div 16 < (16 :: nat)"
    using of_char_lt256 [of b] by (intro less_mult_imp_div_less) simp
  moreover have "16 * (of_char b div 16) + of_char b mod 16 = (of_char b :: nat)"
    by simp
  ultimately show ?case
    using Cons by (simp add: hex_encode_def hex_byte_def)
qed

lemma hex_encode_inject [simp]: "hex_encode a = hex_encode b \<longleftrightarrow> a = b"
  by (metis hex_decode_encode option.inject)

lemma hex_decode_digits: "hex_decode s = Some bs \<Longrightarrow> c \<in> set s \<Longrightarrow> hex_val c \<noteq> None"
  by (induction s arbitrary: bs rule: hex_decode.induct) (auto split: option.splits)

lemma bar_not_hex: "hex_decode s = Some bs \<Longrightarrow> CHR ''|'' \<notin> set s"
  using hex_decode_digits [of s bs "CHR ''|''"] by (auto simp: hex_val_def)

section \<open>Sorting\<close>

lemma sort_key_Nil_iff [simp]: "sort_key f xs = [] \<longleftrightarrow> xs = []"
  by (metis set_empty set_sort)

section \<open>Base64\<close>

text \<open>
  \<^verbatim>\<open>base64.StdEncoding.DecodeString\<close>: line breaks are skipped, the padding is
  required, and the unused bits of the last group are ignored.
\<close>

definition b64_val :: "char \<Rightarrow> nat option" where
  "b64_val c =
     (let n = of_char c :: nat in
      if 65 \<le> n \<and> n \<le> 90 then Some (n - 65)
      else if 97 \<le> n \<and> n \<le> 122 then Some (n - 71)
      else if 48 \<le> n \<and> n \<le> 57 then Some (n + 4)
      else if c = CHR ''+'' then Some 62
      else if c = CHR ''/'' then Some 63 else None)"

definition b64_byte :: "nat \<Rightarrow> char" where
  "b64_byte n = char_of (n mod 256)"

fun b64_groups :: "string \<Rightarrow> bytes option" where
  "b64_groups [] = Some []"
| "b64_groups (a # b # c # d # rest) =
     (case (b64_val a, b64_val b, b64_val c, b64_val d) of
        (Some w, Some x, Some y, Some z) \<Rightarrow>
          (case b64_groups rest of
             None \<Rightarrow> None
           | Some bs \<Rightarrow>
               Some (b64_byte (w * 4 + x div 16) # b64_byte (x * 16 + y div 4) # b64_byte (y * 64 + z) # bs))
      | (Some w, Some x, Some y, None) \<Rightarrow>
          if d = CHR ''='' \<and> rest = [] then
            Some [b64_byte (w * 4 + x div 16), b64_byte (x * 16 + y div 4)]
          else None
      | (Some w, Some x, None, _) \<Rightarrow>
          if c = CHR ''='' \<and> d = CHR ''='' \<and> rest = [] then Some [b64_byte (w * 4 + x div 16)] else None
      | _ \<Rightarrow> None)"
| "b64_groups _ = None"

definition b64_decode :: "string \<Rightarrow> bytes option" where
  "b64_decode s = b64_groups (filter (\<lambda>c. c \<noteq> CHR 0x0A \<and> c \<noteq> CHR 0x0D) s)"

end
