(* ===== verification/Tables.thy ===== *)
theory Tables
  imports Prelude
begin

text \<open>
  The SQL statements of the storage package, on a table kept as the list of its
  rows.  A key is what a PRIMARY KEY or UNIQUE constraint of the schema names;
  a statement that would break one fails and leaves the table alone, as SQLite
  and Postgres do.  A SELECT with no ORDER BY returns the rows in some order,
  here the order of insertion.
\<close>

section \<open>Statements\<close>

definition keyed :: "('r \<Rightarrow> 'k) \<Rightarrow> 'r list \<Rightarrow> bool" where
  "keyed key t = distinct (map key t)"

text \<open>\<^verbatim>\<open>INSERT\<close>: \<^const>\<open>None\<close> is a violation of the constraint.\<close>

definition sql_insert :: "('r \<Rightarrow> 'k) \<Rightarrow> 'r \<Rightarrow> 'r list \<Rightarrow> 'r list option" where
  "sql_insert key r t = (if key r \<in> key ` set t then None else Some (t @ [r]))"

text \<open>\<^verbatim>\<open>INSERT ... ON CONFLICT DO NOTHING\<close>, with whether a row was inserted.\<close>

definition sql_insert_ignore :: "('r \<Rightarrow> 'k) \<Rightarrow> 'r \<Rightarrow> 'r list \<Rightarrow> bool \<times> 'r list" where
  "sql_insert_ignore key r t = (if key r \<in> key ` set t then (False, t) else (True, t @ [r]))"

text \<open>\<^verbatim>\<open>INSERT ... ON CONFLICT DO UPDATE\<close>: the row in the way is changed by \<open>f\<close>.\<close>

definition sql_upsert :: "('r \<Rightarrow> 'k) \<Rightarrow> 'r \<Rightarrow> ('r \<Rightarrow> 'r) \<Rightarrow> 'r list \<Rightarrow> 'r list" where
  "sql_upsert key r f t =
     (if key r \<in> key ` set t then map (\<lambda>x. if key x = key r then f x else x) t else t @ [r])"

definition sql_delete :: "('r \<Rightarrow> bool) \<Rightarrow> 'r list \<Rightarrow> 'r list" where
  "sql_delete P t = filter (\<lambda>r. \<not> P r) t"

definition sql_update :: "('r \<Rightarrow> bool) \<Rightarrow> ('r \<Rightarrow> 'r) \<Rightarrow> 'r list \<Rightarrow> 'r list" where
  "sql_update P f t = map (\<lambda>r. if P r then f r else r) t"

definition sql_count :: "('r \<Rightarrow> bool) \<Rightarrow> 'r list \<Rightarrow> nat" where
  "sql_count P t = length (filter P t)"

text \<open>\<^verbatim>\<open>QueryRow\<close>: the first row that matches, \<^const>\<open>None\<close> for \<^verbatim>\<open>sql.ErrNoRows\<close>.\<close>

definition sql_row :: "('r \<Rightarrow> bool) \<Rightarrow> 'r list \<Rightarrow> 'r option" where
  "sql_row P t = (case filter P t of [] \<Rightarrow> None | r # _ \<Rightarrow> Some r)"

section \<open>What the statements do to the rows and to the keys\<close>

lemma sql_row_None [table_simps]: "sql_row P t = None \<longleftrightarrow> (\<forall>r \<in> set t. \<not> P r)"
  by (auto simp: sql_row_def filter_empty_conv filter_eq_Cons_iff split: list.splits)

lemma sql_row_SomeD: "sql_row P t = Some r \<Longrightarrow> r \<in> set t \<and> P r"
  by (auto simp: sql_row_def filter_eq_Cons_iff split: list.splits)

lemma sql_row_Some [table_simps]:
  assumes "keyed key t" "\<And>x y. P x \<Longrightarrow> P y \<Longrightarrow> key x = key y"
  shows "sql_row P t = Some r \<longleftrightarrow> r \<in> set t \<and> P r"
proof
  assume "r \<in> set t \<and> P r"
  then have "sql_row P t \<noteq> None" by (auto simp: sql_row_None)
  then obtain r' where r': "sql_row P t = Some r'" by auto
  then have "r' \<in> set t" "P r'" by (auto dest: sql_row_SomeD)
  with \<open>r \<in> set t \<and> P r\<close> assms have "r' = r"
    by (metis (mono_tags, lifting) distinct_map inj_onD keyed_def)
  with r' show "sql_row P t = Some r" by simp
qed (auto dest: sql_row_SomeD)

lemma sql_count_zero [table_simps]: "sql_count P t = 0 \<longleftrightarrow> (\<forall>r \<in> set t. \<not> P r)"
  by (auto simp: sql_count_def filter_empty_conv)

lemma sql_count_pos [table_simps]: "0 < sql_count P t \<longleftrightarrow> (\<exists>r \<in> set t. P r)"
  using sql_count_zero [of P t] by auto

lemma sql_insert_None [table_simps]: "sql_insert key r t = None \<longleftrightarrow> key r \<in> key ` set t"
  by (simp add: sql_insert_def)

lemma sql_insert_Some [table_simps]:
  "sql_insert key r t = Some t' \<longleftrightarrow> key r \<notin> key ` set t \<and> t' = t @ [r]"
  by (auto simp: sql_insert_def)

lemma set_sql_delete [table_simps]: "set (sql_delete P t) = {r \<in> set t. \<not> P r}"
  by (auto simp: sql_delete_def)

lemma sql_delete_id: "\<forall>r \<in> set t. \<not> P r \<Longrightarrow> sql_delete P t = t"
  by (simp add: sql_delete_def)

lemma sql_delete_append [table_simps]:
  "sql_delete P (t @ u) = sql_delete P t @ sql_delete P u"
  by (simp add: sql_delete_def)

lemma set_sql_update [table_simps]: "set (sql_update P f t) = (\<lambda>r. if P r then f r else r) ` set t"
  by (auto simp: sql_update_def)

lemma set_sql_upsert [table_simps]:
  "set (sql_upsert key r f t) =
     (if key r \<in> key ` set t then (\<lambda>x. if key x = key r then f x else x) ` set t
      else insert r (set t))"
  by (auto simp: sql_upsert_def)

lemma snd_sql_insert_ignore [table_simps]:
  "set (snd (sql_insert_ignore key r t)) =
     (if key r \<in> key ` set t then set t else insert r (set t))"
  by (auto simp: sql_insert_ignore_def)

lemma fst_sql_insert_ignore [table_simps]:
  "fst (sql_insert_ignore key r t) \<longleftrightarrow> key r \<notin> key ` set t"
  by (auto simp: sql_insert_ignore_def)

lemma keyed_Nil [table_intros, simp]: "keyed key []"
  by (simp add: keyed_def)

lemma keyed_insert [table_intros]: "keyed key t \<Longrightarrow> sql_insert key r t = Some t' \<Longrightarrow> keyed key t'"
  by (auto simp: keyed_def sql_insert_Some)

lemma keyed_snoc [table_intros]: "keyed key t \<Longrightarrow> key r \<notin> key ` set t \<Longrightarrow> keyed key (t @ [r])"
  by (auto simp: keyed_def)

lemma keyed_insert_ignore [table_intros]:
  "keyed key t \<Longrightarrow> keyed key (snd (sql_insert_ignore key r t))"
  by (auto simp: keyed_def sql_insert_ignore_def)

lemma keyed_delete [table_intros]: "keyed key t \<Longrightarrow> keyed key (sql_delete P t)"
  by (simp add: keyed_def sql_delete_def distinct_map_filter)

lemma keyed_upsert [table_intros]:
  assumes "keyed key t" "\<And>x. key (f x) = key x"
  shows "keyed key (sql_upsert key r f t)"
proof -
  have "map key (map (\<lambda>x. if key x = key r then f x else x) t) = map key t"
    using assms(2) by simp
  with assms(1) show ?thesis by (auto simp: keyed_def sql_upsert_def simp del: map_map)
qed

lemma keyed_update [table_intros]:
  assumes "keyed key t" "\<And>x. key (f x) = key x"
  shows "keyed key (sql_update P f t)"
proof -
  have "map key (map (\<lambda>r. if P r then f r else r) t) = map key t"
    using assms(2) by simp
  with assms(1) show ?thesis by (simp add: keyed_def sql_update_def del: map_map)
qed

lemma keyed_inj: "keyed key t \<Longrightarrow> x \<in> set t \<Longrightarrow> y \<in> set t \<Longrightarrow> key x = key y \<Longrightarrow> x = y"
  by (auto simp: keyed_def distinct_map dest: inj_onD)

lemma keyed_cong_fun: "keyed f t \<Longrightarrow> (\<And>x y. f' x = f' y \<Longrightarrow> f x = f y) \<Longrightarrow> keyed f' t"
  unfolding keyed_def distinct_map inj_on_def by blast

section \<open>Lookups after an upsert, and undoing one\<close>

lemma sql_row_upsert:
  assumes "\<And>x. key (f x) = key x"
  shows "sql_row (\<lambda>x. key x = key r) (sql_upsert key r f t) =
           Some (case sql_row (\<lambda>x. key x = key r) t of None \<Rightarrow> r | Some x \<Rightarrow> f x)"
proof (cases "key r \<in> key ` set t")
  case True
  then have "sql_row (\<lambda>x. key x = key r) (map (\<lambda>x. if key x = key r then f x else x) t) =
               map_option f (sql_row (\<lambda>x. key x = key r) t)"
    by (induction t) (auto simp: sql_row_def assms)
  moreover have "sql_row (\<lambda>x. key x = key r) t \<noteq> None" using True by (auto simp: sql_row_None)
  ultimately show ?thesis using True by (auto simp: sql_upsert_def)
next
  case False
  then have "filter (\<lambda>x. key x = key r) t = []" by (auto simp: filter_empty_conv image_iff)
  with False show ?thesis by (simp add: sql_upsert_def sql_row_def)
qed

lemma sql_upsert_undo:
  assumes "keyed key t" "x \<in> set t" "key x = key r" "key r' = key r" "g (f x) = x" "\<And>y. key (f y) = key y"
  shows "sql_upsert key r' g (sql_upsert key r f t) = t"
proof -
  have in_t: "key r \<in> key ` set t" using assms(2,3) imageI [of x "set t" key] by simp
  let ?m = "map (\<lambda>y. if key y = key r then f y else y) t"
  have "map key ?m = map key t" using assms(6) by simp
  then have "key ` set ?m = key ` set t" by (metis set_map)
  then have "sql_upsert key r' g (sql_upsert key r f t) = map (\<lambda>y. if key y = key r then g y else y) ?m"
    using in_t assms(4) by (simp only: sql_upsert_def if_True)
  also have "\<dots> = map (\<lambda>y. if key y = key r then g (f y) else y) t"
    using assms(6) by simp
  also have "\<dots> = t"
    using keyed_inj [OF assms(1) _ assms(2)] assms(3,5) by (intro map_idI) auto
  finally show ?thesis .
qed

lemma sql_delete_upsert:
  "key r \<notin> key ` set t \<Longrightarrow> sql_delete (\<lambda>x. key x = key r) (sql_upsert key r f t) = t"
  by (auto simp: sql_upsert_def sql_delete_def image_iff intro!: filter_True)

section \<open>Reading a row after a change\<close>

lemma sql_row_delete_key:
  "sql_row (\<lambda>r. key r = j) (sql_delete (\<lambda>r. key r = i) t) = (if j = i then None else sql_row (\<lambda>r. key r = j) t)"
proof -
  have "filter (\<lambda>r. key r = j) (filter (\<lambda>r. key r \<noteq> i) t) = (if j = i then [] else filter (\<lambda>r. key r = j) t)"
    by (auto simp: filter_empty_conv intro: filter_cong)
  then show ?thesis by (simp add: sql_row_def sql_delete_def)
qed

lemma sql_row_snoc:
  "sql_row P (t @ [r]) = (case sql_row P t of None \<Rightarrow> if P r then Some r else None | Some x \<Rightarrow> Some x)"
  by (auto simp: sql_row_def split: list.splits)

lemma sql_row_update_key:
  assumes "\<And>x. key (f x) = key x"
  shows "sql_row (\<lambda>r. key r = j) (sql_update (\<lambda>r. key r = i) f t) =
     map_option (\<lambda>r. if key r = i then f r else r) (sql_row (\<lambda>r. key r = j) t)"
proof -
  have "filter (\<lambda>r. key r = j) (map (\<lambda>r. if key r = i then f r else r) t) =
        map (\<lambda>r. if key r = i then f r else r) (filter (\<lambda>r. key r = j) t)"
    using assms by (simp add: filter_map comp_def if_distrib [of key] cong: if_cong filter_cong)
  then show ?thesis by (simp add: sql_row_def sql_update_def split: list.splits)
qed

lemma sql_row_keyed:
  "keyed key t \<Longrightarrow> r \<in> set t \<Longrightarrow> key r = k \<Longrightarrow> sql_row (\<lambda>r. key r = k) t = Some r"
  by (metis (mono_tags, lifting) keyed_inj option.exhaust sql_row_None sql_row_SomeD)

lemma sql_upsert_other:
  assumes "key x \<noteq> key r" "\<And>y. key (f y) = key y"
  shows "x \<in> set (sql_upsert key r f t) \<longleftrightarrow> x \<in> set t"
proof -
  have "x \<in> (\<lambda>y. if key y = key r then f y else y) ` set t \<longleftrightarrow> x \<in> set t"
    using assms by (auto simp: image_iff)
  then show ?thesis using assms(1) by (auto simp: sql_upsert_def sql_update_def)
qed

end
