(* ===== verification/Keyring.thy ===== *)
theory Keyring
  imports Tables
begin

text \<open>
  The audit HMAC keyring of \<^verbatim>\<open>internal/server/storage/audit_keyring.go\<close>: one active
  key, any number of retired ones, each under a key id.  The Go map from key ids
  to secrets is an association list; \<open>keyring_ok\<close> is what \<^verbatim>\<open>validateKeyset\<close>
  establishes.  What the file system answers is an argument.
\<close>

section \<open>Errors and the keyring\<close>

text \<open>
  The errors of the storage package: its sentinel errors, \<open>ErrInvalid\<close> for a
  rejected argument and \<open>ErrDB\<close> for a failed statement, each with the prefix the
  code wraps it in.
\<close>

datatype err =
    ErrNotFound
  | ErrAlreadyExists
  | ErrNotLeader
  | ErrParentNotFound string
  | ErrHasChildren
  | ErrHasGroups
  | ErrChanged
  | ErrSCIMManaged string
  | ErrUnknownMember string
  | ErrNoUpstreamCAKey
  | ErrAuditRowUnverified int
  | ErrPreconditionFailed
  | ErrInvalid string
  | ErrDB string

definition keyIDUnkeyed :: string where
  "keyIDUnkeyed = ''unkeyed''"

definition minAuditKeyBytes :: nat where
  "minAuditKeyBytes = 16"

record audit_keyring =
  kr_path :: string
  kr_active_id :: string
  kr_keys :: "(string \<times> bytes) list"

text \<open>
  The loop of \<^verbatim>\<open>validateKeyset\<close> over the keys; Go visits them in an unspecified
  order, which only decides which of several errors is reported.
\<close>

fun validate_keys :: "(string \<times> bytes) list \<Rightarrow> err option" where
  "validate_keys [] = None"
| "validate_keys ((kid, k) # ks) =
     (if trim_space kid = [] then Some (ErrInvalid ''empty key id'')
      else if kid = keyIDUnkeyed then Some (ErrInvalid ''key_id is reserved'')
      else if length k < minAuditKeyBytes then Some (ErrInvalid ''key is too short'')
      else validate_keys ks)"

definition validateKeyset :: "string \<Rightarrow> (string \<times> bytes) list \<Rightarrow> err option" where
  "validateKeyset activeID keys =
     (if trim_space activeID = [] then Some (ErrInvalid ''active_key_id is required'')
      else if activeID = keyIDUnkeyed then Some (ErrInvalid ''key_id is reserved'')
      else if keys = [] then Some (ErrInvalid ''at least one key is required'')
      else if map_of keys activeID = None then Some (ErrInvalid ''active_key_id is not present in keys'')
      else validate_keys keys)"

definition NewAuditKeyring :: "string \<Rightarrow> (string \<times> bytes) list \<Rightarrow> err + audit_keyring" where
  "NewAuditKeyring activeID keys =
     (case validateKeyset activeID keys of
        Some e \<Rightarrow> Inl e
      | None \<Rightarrow> Inr \<lparr>kr_path = [], kr_active_id = activeID, kr_keys = keys\<rparr>)"

section \<open>Reading the file\<close>

text \<open>
  What opening, statting, reading and parsing the file gave: an error, or the
  permission bits and the parsed JSON (\<^const>\<open>None\<close> when it does not parse).
\<close>

datatype keyring_file =
    FileError string
  | FileData nat "(string \<times> (string \<times> string) list) option"

fun collect_keys ::
  "(string \<times> string) list \<Rightarrow> (string \<times> bytes) list \<Rightarrow> err + (string \<times> bytes) list" where
  "collect_keys [] keys = Inr keys"
| "collect_keys ((i, s) # es) keys =
     (let kid = trim_space i in
      if map_of keys kid \<noteq> None then Inl (ErrInvalid ''duplicate key id'')
      else (case b64_decode (trim_space s) of
              None \<Rightarrow> Inl (ErrInvalid ''secret is not valid base64'')
            | Some secret \<Rightarrow> collect_keys es (keys @ [(kid, secret)])))"

definition readKeyringFile ::
  "bool \<Rightarrow> keyring_file \<Rightarrow> err + string \<times> (string \<times> bytes) list" where
  "readKeyringFile windows f =
     (case f of
        FileError m \<Rightarrow> Inl (ErrInvalid m)
      | FileData perm parsed \<Rightarrow>
          if \<not> windows \<and> perm mod 64 \<noteq> 0 then Inl (ErrInvalid ''group/world accessible'')
          else (case parsed of
                  None \<Rightarrow> Inl (ErrInvalid ''parse'')
                | Some (activeID, es) \<Rightarrow>
                    (case collect_keys es [] of
                       Inl e \<Rightarrow> Inl e
                     | Inr keys \<Rightarrow> Inr (trim_space activeID, keys))))"

definition LoadAuditKeyring ::
  "bool \<Rightarrow> string \<Rightarrow> keyring_file \<Rightarrow> err + audit_keyring" where
  "LoadAuditKeyring windows path f =
     (case readKeyringFile windows f of
        Inl e \<Rightarrow> Inl e
      | Inr (activeID, keys) \<Rightarrow>
          (case NewAuditKeyring activeID keys of
             Inl e \<Rightarrow> Inl e
           | Inr kr \<Rightarrow> Inr (kr\<lparr>kr_path := path\<rparr>)))"

text \<open>
  \<^verbatim>\<open>Reload\<close> returns its error and the keyring afterwards, which is the old one
  whenever it fails.
\<close>

definition Reload ::
  "bool \<Rightarrow> keyring_file \<Rightarrow> audit_keyring \<Rightarrow> err option \<times> audit_keyring" where
  "Reload windows f kr =
     (if kr_path kr = [] then (Some (ErrInvalid ''not file-backed, cannot reload''), kr)
      else (case readKeyringFile windows f of
              Inl e \<Rightarrow> (Some e, kr)
            | Inr (activeID, keys) \<Rightarrow>
                (case validateKeyset activeID keys of
                   Some e \<Rightarrow> (Some e, kr)
                 | None \<Rightarrow>
                     if \<not> list_all (\<lambda>(kid, _). map_of keys kid \<noteq> None) (kr_keys kr)
                     then (Some (ErrInvalid ''reload would drop key''), kr)
                     else (None, kr\<lparr>kr_active_id := activeID, kr_keys := keys\<rparr>))))"

section \<open>Using it\<close>

definition active_key :: "audit_keyring \<Rightarrow> string \<times> bytes" where
  "active_key kr =
     (kr_active_id kr, case map_of (kr_keys kr) (kr_active_id kr) of None \<Rightarrow> [] | Some k \<Rightarrow> k)"

definition lookup_key :: "audit_keyring \<Rightarrow> string \<Rightarrow> bytes option" where
  "lookup_key kr keyID = map_of (kr_keys kr) keyID"

definition Snapshot :: "audit_keyring \<Rightarrow> (string \<times> bytes) list" where
  "Snapshot kr = kr_keys kr"

section \<open>What validation establishes\<close>

definition keyring_ok :: "audit_keyring \<Rightarrow> bool" where
  "keyring_ok kr \<longleftrightarrow> validateKeyset (kr_active_id kr) (kr_keys kr) = None"

lemma validate_keys_None:
  "validate_keys ks = None \<longleftrightarrow>
     (\<forall>(kid, k) \<in> set ks. trim_space kid \<noteq> [] \<and> kid \<noteq> keyIDUnkeyed \<and> minAuditKeyBytes \<le> length k)"
  by (induction ks rule: validate_keys.induct) auto

lemma keyring_ok_lookup:
  assumes "keyring_ok kr" "map_of (kr_keys kr) kid = Some k"
  shows "k \<noteq> [] \<and> kid \<noteq> keyIDUnkeyed \<and> kid \<noteq> []"
proof -
  from assms(1) have "validate_keys (kr_keys kr) = None"
    by (auto simp: keyring_ok_def validateKeyset_def split: if_splits)
  moreover from assms(2) have "(kid, k) \<in> set (kr_keys kr)" by (rule map_of_SomeD)
  ultimately have "trim_space kid \<noteq> []" "kid \<noteq> keyIDUnkeyed" "minAuditKeyBytes \<le> length k"
    by (auto simp: validate_keys_None)
  then show ?thesis by (auto simp: minAuditKeyBytes_def)
qed

lemma keyring_ok_active:
  assumes "keyring_ok kr"
  shows "map_of (kr_keys kr) (fst (active_key kr)) = Some (snd (active_key kr))
         \<and> snd (active_key kr) \<noteq> []
         \<and> fst (active_key kr) \<noteq> keyIDUnkeyed \<and> fst (active_key kr) \<noteq> []"
proof -
  from assms obtain k where k: "map_of (kr_keys kr) (kr_active_id kr) = Some k"
    by (auto simp: keyring_ok_def validateKeyset_def split: if_splits)
  with keyring_ok_lookup [OF assms k] show ?thesis by (simp add: active_key_def)
qed

lemma NewAuditKeyring_ok: "NewAuditKeyring i ks = Inr kr \<Longrightarrow> keyring_ok kr"
  by (auto simp: NewAuditKeyring_def keyring_ok_def split: option.splits)

lemma LoadAuditKeyring_ok:
  "LoadAuditKeyring w p f = Inr kr \<Longrightarrow> keyring_ok kr"
  by (auto simp: LoadAuditKeyring_def keyring_ok_def NewAuditKeyring_def
      split: sum.splits option.splits)

lemma Reload_result:
  assumes "Reload w f kr = (r, kr')"
  shows "case r of
           Some e \<Rightarrow> kr' = kr
         | None \<Rightarrow> \<exists>i ks. kr' = kr\<lparr>kr_active_id := i, kr_keys := ks\<rparr> \<and> validateKeyset i ks = None
                     \<and> (\<forall>(kid, _) \<in> set (kr_keys kr). map_of ks kid \<noteq> None)"
  using assms
  by (auto simp: Reload_def list_all_iff split: if_splits sum.splits option.splits) blast

lemma Reload_ok:
  assumes "keyring_ok kr"
  shows "keyring_ok (snd (Reload w f kr))"
proof -
  obtain r kr' where R: "Reload w f kr = (r, kr')" by (cases "Reload w f kr")
  from Reload_result [OF R] assms have "keyring_ok kr'"
    by (auto simp: keyring_ok_def split: option.splits)
  with R show ?thesis by simp
qed

end
