(* ===== verification/Json.thy ===== *)
theory Json
  imports Prelude
begin

text \<open>
  What \<^verbatim>\<open>encoding/json\<close> writes for the values the control plane marshals into
  audit payloads: strings, numbers, booleans, lists and objects.  An object made
  from a Go map is written with its keys sorted; one made from a struct in the
  order of its fields, so the order is the caller's here.  A string is written
  byte by byte as \<^verbatim>\<open>appendString\<close> does, with HTML escaping on: an
  invalid UTF-8 byte becomes the escape of U+FFFD.
\<close>

datatype json =
    JNull
  | JBool bool
  | JInt int
  | JNum string
  | JStr string
  | JList "json list"
  | JObj "(string \<times> json) list"

text \<open>The length of the UTF-8 sequence a string starts with, 0 when it is not valid.\<close>

definition byte_in :: "nat \<Rightarrow> nat \<Rightarrow> char \<Rightarrow> bool" where
  "byte_in lo hi c \<longleftrightarrow> lo \<le> of_char c \<and> of_char c \<le> hi"

definition utf8_len :: "string \<Rightarrow> nat" where
  "utf8_len s =
     (case s of
        [] \<Rightarrow> 0
      | a # r \<Rightarrow>
          let n = of_char a :: nat;
              lo = (if n = 224 then 160 else if n = 240 then 144 else 128);
              hi = (if n = 237 then 159 else if n = 244 then 143 else 191) in
          if n < 128 then 1
          else if 194 \<le> n \<and> n \<le> 223 then
            (case r of b # _ \<Rightarrow> if byte_in 128 191 b then 2 else 0 | _ \<Rightarrow> 0)
          else if 224 \<le> n \<and> n \<le> 239 then
            (case r of b # c # _ \<Rightarrow> if byte_in lo hi b \<and> byte_in 128 191 c then 3 else 0 | _ \<Rightarrow> 0)
          else if 240 \<le> n \<and> n \<le> 244 then
            (case r of
               b # c # d # _ \<Rightarrow>
                 if byte_in lo hi b \<and> byte_in 128 191 c \<and> byte_in 128 191 d then 4 else 0
             | _ \<Rightarrow> 0)
          else 0)"

definition json_ascii :: "char \<Rightarrow> string" where
  "json_ascii c =
     (if c = CHR 0x22 \<or> c = CHR 0x5C then [CHR 0x5C, c]
      else if c = CHR 0x08 then [CHR 0x5C, CHR ''b'']
      else if c = CHR 0x0C then [CHR 0x5C, CHR ''f'']
      else if c = CHR 0x0A then [CHR 0x5C, CHR ''n'']
      else if c = CHR 0x0D then [CHR 0x5C, CHR ''r'']
      else if c = CHR 0x09 then [CHR 0x5C, CHR ''t'']
      else if (of_char c :: nat) < 32 \<or> c = CHR ''<'' \<or> c = CHR ''>'' \<or> c = CHR ''&''
      then [CHR 0x5C, CHR ''u'', CHR ''0'', CHR ''0''] @ hex_byte c
      else [c])"

fun json_chars :: "nat \<Rightarrow> string \<Rightarrow> string" where
  "json_chars k [] = []"
| "json_chars (Suc k) (c # s) = c # json_chars k s"
| "json_chars 0 (c # s) =
     (if (of_char c :: nat) < 128 then json_ascii c @ json_chars 0 s
      else (case utf8_len (c # s) of
              0 \<Rightarrow> [CHR 0x5C] @ ''ufffd'' @ json_chars 0 s
            | Suc m \<Rightarrow>
                if take 3 (c # s) = [CHR 0xE2, CHR 0x80, CHR 0xA8] then [CHR 0x5C] @ ''u2028'' @ json_chars 0 (drop 2 s)
                else if take 3 (c # s) = [CHR 0xE2, CHR 0x80, CHR 0xA9] then [CHR 0x5C] @ ''u2029'' @ json_chars 0 (drop 2 s)
                else c # json_chars m s))"

definition json_string :: "string \<Rightarrow> string" where
  "json_string s = [CHR 0x22] @ json_chars 0 s @ [CHR 0x22]"

fun json_marshal :: "json \<Rightarrow> string" where
  "json_marshal JNull = ''null''"
| "json_marshal (JBool b) = (if b then ''true'' else ''false'')"
| "json_marshal (JInt n) = itoa n"
| "json_marshal (JNum lit) = lit"
| "json_marshal (JStr s) = json_string s"
| "json_marshal (JList js) = ''['' @ join_with CHR '','' (map json_marshal js) @ '']''"
| "json_marshal (JObj kvs) =
     ''{'' @ join_with CHR '','' (map (\<lambda>(k, v). json_string k @ '':'' @ json_marshal v) kvs) @ ''}''"

text \<open>A string of plain printable characters, a hex digest say, is written as it is.\<close>

lemma json_chars_plain:
  "\<forall>c \<in> set s. (of_char c :: nat) < 128 \<and> json_ascii c = [c] \<Longrightarrow> json_chars 0 s = s"
  by (induction s) auto

end
