(* ===== verification/Store.thy ===== *)
theory Store
  imports Keyring Json
begin

text \<open>
  The store of \<^verbatim>\<open>internal/server/storage/sqlite.go\<close> and the leader gate of
  \<^verbatim>\<open>leader.go\<close>: the tables of the schema as lists of rows, the \<^verbatim>\<open>Store\<close>
  struct, and what a transaction, a single statement and a query do.

  The database service is outside the program.  What it did during one call of a
  store method is the argument \<open>io\<close>: which statements failed (by the label
  the code puts in its error), how the commit ended and how many sequence numbers
  it skipped.  A failed statement or a commit that failed leaves the tables alone;
  a commit whose answer was lost has applied the change although the caller sees
  an error.  Nothing else is assumed of the service.
\<close>

section \<open>The tables of the schema\<close>

record domain_row =
  d_name :: string
  d_parent :: string
  d_description :: string
  d_created_at :: int

record admin_row =
  da_domain :: string
  da_principal :: string

record group_row =
  g_domain :: string
  g_name :: string
  g_description :: string
  g_created_at :: int

record member_row =
  m_domain :: string
  m_grp :: string
  m_principal :: string
  m_expires_at :: int

record once_row =
  o_k :: string
  o_digest :: string
  o_created_at :: int

record scim_user_row =
  su_idp :: string
  su_id :: string
  su_user_name :: string
  su_user_name_lc :: string
  su_external_id :: string
  su_display_name :: string
  su_active :: int
  su_principal :: string
  su_created_at :: int
  su_updated_at :: int

record scim_group_row =
  sg_idp :: string
  sg_id :: string
  sg_display_name :: string
  sg_external_id :: string
  sg_domain :: string
  sg_grp :: string
  sg_created_at :: int
  sg_updated_at :: int

record scim_member_row =
  sm_idp :: string
  sm_group_id :: string
  sm_user_id :: string

record audit_row =
  a_seq :: int
  a_ts :: int
  a_kind :: string
  a_actor :: string
  a_subject :: string
  a_decision :: string
  a_payload :: string
  a_prev_hash :: string
  a_hash :: string
  a_key_id :: string

record forward_row =
  f_name :: string
  f_last_seq :: int
  f_updated_at :: int

record meta_row =
  mt_k :: string
  mt_v :: int

record ca_row =
  c_trust_domain :: string
  c_backend :: string
  c_fingerprint :: string
  c_der :: bytes
  c_kept_at :: int
  c_kept_until :: int
  c_saved_at :: int
  c_key_id :: string
  c_mac :: string

record seq_row =
  b_trust_domain :: string
  b_seq :: int
  b_digest :: string
  b_updated_at :: int

record policy_row =
  p_id :: string
  p_text :: string
  p_version :: int
  p_created_by :: string
  p_created_at :: int
  p_updated_by :: string
  p_updated_at :: int

text \<open>
  \<open>db_audit_seq\<close> is the highest \<^verbatim>\<open>audit_log.seq\<close> ever handed out
  (\<^verbatim>\<open>AUTOINCREMENT\<close>, \<^verbatim>\<open>BIGSERIAL\<close>).
\<close>

record db =
  db_domains :: "domain_row list"
  db_admins :: "admin_row list"
  db_groups :: "group_row list"
  db_members :: "member_row list"
  db_once :: "once_row list"
  db_scim_users :: "scim_user_row list"
  db_scim_groups :: "scim_group_row list"
  db_scim_members :: "scim_member_row list"
  db_audit :: "audit_row list"
  db_audit_seq :: int
  db_forward :: "forward_row list"
  db_meta :: "meta_row list"
  db_cas :: "ca_row list"
  db_bundle_seq :: "seq_row list"
  db_policies :: "policy_row list"

definition empty_db :: db where
  "empty_db =
     \<lparr>db_domains = [], db_admins = [], db_groups = [], db_members = [], db_once = [],
      db_scim_users = [], db_scim_groups = [], db_scim_members = [], db_audit = [],
      db_audit_seq = 0, db_forward = [], db_meta = [], db_cas = [], db_bundle_seq = [],
      db_policies = []\<rparr>"

text \<open>The primary keys and unique constraints of \<^verbatim>\<open>schemaDDL\<close>.\<close>

definition group_key :: "group_row \<Rightarrow> string \<times> string" where
  "group_key g = (g_domain g, g_name g)"

definition member_key :: "member_row \<Rightarrow> string \<times> string \<times> string" where
  "member_key m = (m_domain m, m_grp m, m_principal m)"

definition admin_key :: "admin_row \<Rightarrow> string \<times> string" where
  "admin_key a = (da_domain a, da_principal a)"

definition scim_user_key :: "scim_user_row \<Rightarrow> string \<times> string" where
  "scim_user_key u = (su_idp u, su_id u)"

definition scim_group_key :: "scim_group_row \<Rightarrow> string \<times> string" where
  "scim_group_key g = (sg_idp g, sg_id g)"

definition scim_group_target :: "scim_group_row \<Rightarrow> string \<times> string" where
  "scim_group_target g = (sg_domain g, sg_grp g)"

definition scim_member_key :: "scim_member_row \<Rightarrow> string \<times> string \<times> string" where
  "scim_member_key m = (sm_idp m, sm_group_id m, sm_user_id m)"

definition ca_key :: "ca_row \<Rightarrow> string \<times> string \<times> string" where
  "ca_key c = (c_trust_domain c, c_backend c, c_fingerprint c)"

section \<open>The store\<close>

datatype driver_kind = driverSQLite | driverPostgres

record store =
  st_db :: db
  st_driver :: driver_kind
  st_leader_enabled :: bool
  st_is_leader :: bool
  st_keyring :: "audit_keyring option"
  st_keyed_epoch_recorded :: bool
  st_once_pruned_at :: gotime

definition IsLeader :: "store \<Rightarrow> bool" where
  "IsLeader s = (if \<not> st_leader_enabled s then True else st_is_leader s)"

definition isPostgresDSN :: "string \<Rightarrow> bool" where
  "isPostgresDSN spec \<longleftrightarrow> has_prefix spec ''postgres://'' \<or> has_prefix spec ''postgresql://''"

definition open_store :: "string \<Rightarrow> db \<Rightarrow> store" where
  "open_store spec d =
     \<lparr>st_db = d, st_driver = (if isPostgresDSN spec then driverPostgres else driverSQLite),
      st_leader_enabled = False, st_is_leader = False, st_keyring = None,
      st_keyed_epoch_recorded = False, st_once_pruned_at = zero_time\<rparr>"

fun rebind_from :: "nat \<Rightarrow> string \<Rightarrow> string" where
  "rebind_from n [] = []"
| "rebind_from n (c # q) =
     (if c = CHR ''?'' then CHR ''$'' # dec_nat (Suc n) @ rebind_from (Suc n) q
      else c # rebind_from n q)"

definition rebind :: "driver_kind \<Rightarrow> string \<Rightarrow> string" where
  "rebind drv query = (if drv \<noteq> driverPostgres then query else rebind_from 0 query)"

section \<open>Statements, transactions and queries\<close>

datatype commit_outcome = Committed | CommitFailed | CommitLost

record io =
  io_now :: gotime
  io_fails :: "string \<Rightarrow> bool"
  io_commit :: commit_outcome
  io_gap :: nat

text \<open>
  The body of a transaction reads and writes the tables and ends with a value or
  with the error the method returns after the deferred rollback.
\<close>

type_synonym 'a tx = "db \<Rightarrow> err + 'a \<times> db"

definition tx_return :: "'a \<Rightarrow> 'a tx" where
  "tx_return x d = Inr (x, d)"

definition tx_fail :: "err \<Rightarrow> 'a tx" where
  "tx_fail e d = Inl e"

definition tx_bind :: "'a tx \<Rightarrow> ('a \<Rightarrow> 'b tx) \<Rightarrow> 'b tx" where
  "tx_bind m f d = (case m d of Inl e \<Rightarrow> Inl e | Inr (x, d') \<Rightarrow> f x d')"

text \<open>A statement that fails for a reason of the database service.\<close>

definition tx_stmt :: "io \<Rightarrow> string \<Rightarrow> 'a tx \<Rightarrow> 'a tx" where
  "tx_stmt io label m d = (if io_fails io label then Inl (ErrDB label) else m d)"

definition tx_exec :: "io \<Rightarrow> string \<Rightarrow> (db \<Rightarrow> db) \<Rightarrow> unit tx" where
  "tx_exec io label f = tx_stmt io label (\<lambda>d. Inr ((), f d))"

definition tx_query :: "io \<Rightarrow> string \<Rightarrow> (db \<Rightarrow> 'a) \<Rightarrow> 'a tx" where
  "tx_query io label q = tx_stmt io label (\<lambda>d. Inr (q d, d))"

text \<open>
  \<^verbatim>\<open>BeginTx\<close>, the body, and \<^verbatim>\<open>Commit\<close> or the deferred rollback.  Transactions are serial: no
  statement of another one comes between those of the body.
\<close>

definition run_tx :: "io \<Rightarrow> 'a tx \<Rightarrow> store \<Rightarrow> (err + 'a) \<times> store" where
  "run_tx io body s =
     (if io_fails io ''begin'' then (Inl (ErrDB ''begin''), s)
      else (case body (st_db s) of
              Inl e \<Rightarrow> (Inl e, s)
            | Inr (x, d) \<Rightarrow>
                (case io_commit io of
                   Committed \<Rightarrow> (Inr x, s\<lparr>st_db := d\<rparr>)
                 | CommitFailed \<Rightarrow> (Inl (ErrDB ''commit''), s)
                 | CommitLost \<Rightarrow> (Inl (ErrDB ''commit''), s\<lparr>st_db := d\<rparr>))))"

text \<open>
  The same for a body that may also return early without an error: \<open>Inl x\<close> is
  \<^verbatim>\<open>return x\<close> before the commit, which the deferred rollback undoes, and
  \<open>after\<close> is what the method does once the commit has succeeded.
\<close>

definition run_tx_early ::
  "io \<Rightarrow> ('a + 'a) tx \<Rightarrow> ('a \<Rightarrow> store \<Rightarrow> store) \<Rightarrow> store \<Rightarrow> (err + 'a) \<times> store" where
  "run_tx_early io body after s =
     (if io_fails io ''begin'' then (Inl (ErrDB ''begin''), s)
      else (case body (st_db s) of
              Inl e \<Rightarrow> (Inl e, s)
            | Inr (Inl x, d) \<Rightarrow> (Inr x, s)
            | Inr (Inr x, d) \<Rightarrow>
                (case io_commit io of
                   Committed \<Rightarrow> (Inr x, after x (s\<lparr>st_db := d\<rparr>))
                 | CommitFailed \<Rightarrow> (Inl (ErrDB ''commit''), s)
                 | CommitLost \<Rightarrow> (Inl (ErrDB ''commit''), s\<lparr>st_db := d\<rparr>))))"

text \<open>A statement outside a transaction commits on its own.\<close>

definition run_exec :: "io \<Rightarrow> string \<Rightarrow> (db \<Rightarrow> 'a \<times> db) \<Rightarrow> store \<Rightarrow> (err + 'a) \<times> store" where
  "run_exec io label f s =
     (let (x, d) = f (st_db s) in
      if io_fails io label
      then (Inl (ErrDB label), if io_commit io = CommitLost then s\<lparr>st_db := d\<rparr> else s)
      else (Inr x, s\<lparr>st_db := d\<rparr>))"

definition run_query :: "io \<Rightarrow> string \<Rightarrow> (db \<Rightarrow> 'a) \<Rightarrow> store \<Rightarrow> err + 'a" where
  "run_query io label q s = (if io_fails io label then Inl (ErrDB label) else Inr (q (st_db s)))"

section \<open>How a transaction ends\<close>

lemma tx_return_Inr [tx_simps]: "tx_return x d = Inr (y, d') \<longleftrightarrow> y = x \<and> d' = d"
  by (auto simp: tx_return_def)

lemma tx_fail_Inr [tx_simps]: "tx_fail e d \<noteq> Inr r"
  by (simp add: tx_fail_def)

lemma tx_bind_Inr [tx_simps]:
  "tx_bind m f d = Inr (y, d'') \<longleftrightarrow> (\<exists>x d'. m d = Inr (x, d') \<and> f x d' = Inr (y, d''))"
  by (auto simp: tx_bind_def split: sum.splits)

lemma tx_stmt_Inr [tx_simps]: "tx_stmt io l m d = Inr r \<longleftrightarrow> \<not> io_fails io l \<and> m d = Inr r"
  by (auto simp: tx_stmt_def)

lemma tx_exec_Inr [tx_simps]: "tx_exec io l f d = Inr (y, d') \<longleftrightarrow> \<not> io_fails io l \<and> d' = f d"
  by (auto simp: tx_exec_def tx_stmt_def)

lemma tx_query_Inr [tx_simps]:
  "tx_query io l q d = Inr (y, d') \<longleftrightarrow> \<not> io_fails io l \<and> y = q d \<and> d' = d"
  by (auto simp: tx_query_def tx_stmt_def)

lemmas tx_defs = tx_return_def tx_fail_def tx_bind_def tx_stmt_def tx_exec_def tx_query_def

text \<open>The two ends of a transaction: the store is as before, or the body's tables are in it.\<close>

lemma run_tx_ends:
  assumes "run_tx io body s = (r, s')"
  shows "(\<exists>e. r = Inl e) \<and> s' = s \<or>
         (\<exists>x d. body (st_db s) = Inr (x, d) \<and> s' = s\<lparr>st_db := d\<rparr>
                \<and> (r = Inr x \<or> r = Inl (ErrDB ''commit'') \<and> io_commit io = CommitLost))"
  using assms
  by (auto simp: run_tx_def split: if_splits sum.splits commit_outcome.splits)

lemma run_tx_cases:
  assumes "run_tx io body s = (r, s')"
  obtains (unchanged) e where "r = Inl e" "s' = s"
  | (applied) x d where "body (st_db s) = Inr (x, d)" "s' = s\<lparr>st_db := d\<rparr>"
      "r = Inr x \<or> r = Inl (ErrDB ''commit'') \<and> io_commit io = CommitLost"
  using run_tx_ends [OF assms] by blast

lemma run_tx_Inr [tx_simps]:
  "run_tx io body s = (Inr x, s') \<longleftrightarrow>
     \<not> io_fails io ''begin'' \<and> io_commit io = Committed
     \<and> (\<exists>d. body (st_db s) = Inr (x, d) \<and> s' = s\<lparr>st_db := d\<rparr>)"
  by (auto simp: run_tx_def split: sum.splits commit_outcome.splits)

lemma run_tx_error_unchanged:
  "run_tx io body s = (Inl e, s') \<Longrightarrow> io_commit io \<noteq> CommitLost \<Longrightarrow> s' = s"
  by (auto simp: run_tx_def split: if_splits sum.splits commit_outcome.splits)

lemma run_tx_store:
  "run_tx io body s = (r, s') \<Longrightarrow>
     s' = s \<or> (\<exists>x d. body (st_db s) = Inr (x, d) \<and> s' = s\<lparr>st_db := d\<rparr>)"
  by (erule run_tx_cases) auto

lemma run_tx_early_ends:
  assumes "run_tx_early io body after s = (r, s')"
  shows "s' = s \<and> (\<forall>x. r = Inr x \<longrightarrow> (\<exists>d. body (st_db s) = Inr (Inl x, d))) \<or>
         (\<exists>x d. body (st_db s) = Inr (Inr x, d) \<and>
                (r = Inr x \<and> s' = after x (s\<lparr>st_db := d\<rparr>) \<or>
                 r = Inl (ErrDB ''commit'') \<and> io_commit io = CommitLost \<and> s' = s\<lparr>st_db := d\<rparr>))"
  using assms
  by (auto simp: run_tx_early_def split: if_splits sum.splits commit_outcome.splits)

lemma run_exec_store:
  "run_exec io l f s = (r, s') \<Longrightarrow> s' = s \<or> s' = s\<lparr>st_db := snd (f (st_db s))\<rparr>"
  by (auto simp: run_exec_def split: prod.splits if_splits)

section \<open>What a transaction keeps\<close>

definition tx_keeps :: "(db \<Rightarrow> bool) \<Rightarrow> 'a tx \<Rightarrow> bool" where
  "tx_keeps I body \<longleftrightarrow> (\<forall>d x d'. I d \<longrightarrow> body d = Inr (x, d') \<longrightarrow> I d')"

lemma tx_keepsD: "tx_keeps I body \<Longrightarrow> I d \<Longrightarrow> body d = Inr (x, d') \<Longrightarrow> I d'"
  by (auto simp: tx_keeps_def)

lemma tx_keeps_return [intro]: "tx_keeps I (tx_return x)"
  by (simp add: tx_keeps_def tx_return_def)

lemma tx_keeps_fail [intro]: "tx_keeps I (tx_fail e)"
  by (simp add: tx_keeps_def tx_fail_def)

lemma tx_keeps_query [intro]: "tx_keeps I (tx_query io l q)"
  by (simp add: tx_keeps_def tx_query_Inr)

lemma tx_keeps_exec: "(\<And>d. I d \<Longrightarrow> I (f d)) \<Longrightarrow> tx_keeps I (tx_exec io l f)"
  by (simp add: tx_keeps_def tx_exec_Inr)

lemma tx_keeps_bind: "tx_keeps I m \<Longrightarrow> (\<And>x. tx_keeps I (f x)) \<Longrightarrow> tx_keeps I (tx_bind m f)"
  unfolding tx_keeps_def tx_bind_Inr by blast

lemma run_tx_keeps:
  "tx_keeps I body \<Longrightarrow> I (st_db s) \<Longrightarrow> run_tx io body s = (r, s') \<Longrightarrow> I (st_db s')"
  by (erule run_tx_cases) (auto simp: tx_keeps_def)

text \<open>Which tables a statement leaves alone, so that invariants of the others carry over.\<close>

lemma run_tx_settings:
  "run_tx io body s = (r, s') \<Longrightarrow> s' = s\<lparr>st_db := st_db s'\<rparr>"
  by (erule run_tx_cases) auto

lemma run_exec_settings:
  "run_exec io l f s = (r, s') \<Longrightarrow> s' = s\<lparr>st_db := st_db s'\<rparr>"
  by (auto simp: run_exec_def split: prod.splits if_splits)

text \<open>Which part of the tables a body leaves alone.\<close>

definition tx_fixes :: "(db \<Rightarrow> 'b) \<Rightarrow> 'a tx \<Rightarrow> bool" where
  "tx_fixes p body \<longleftrightarrow> (\<forall>d x d'. body d = Inr (x, d') \<longrightarrow> p d' = p d)"

named_theorems tx_frames

lemma tx_fixesD: "tx_fixes p body \<Longrightarrow> body d = Inr (x, d') \<Longrightarrow> p d' = p d"
  by (auto simp: tx_fixes_def)

lemma tx_fixes_return [tx_frames]: "tx_fixes p (tx_return x)"
  by (simp add: tx_fixes_def tx_return_def)

lemma tx_fixes_fail [tx_frames]: "tx_fixes p (tx_fail e)"
  by (simp add: tx_fixes_def tx_fail_def)

lemma tx_fixes_query [tx_frames]: "tx_fixes p (tx_query io l q)"
  by (simp add: tx_fixes_def tx_query_Inr)

lemma tx_fixes_exec [tx_frames]: "(\<And>d. p (f d) = p d) \<Longrightarrow> tx_fixes p (tx_exec io l f)"
  by (simp add: tx_fixes_def tx_exec_Inr)

lemma tx_fixes_bind [tx_frames]: "tx_fixes p m \<Longrightarrow> (\<And>x. tx_fixes p (f x)) \<Longrightarrow> tx_fixes p (tx_bind m f)"
  unfolding tx_fixes_def tx_bind_Inr by metis

lemma tx_fixes_if [tx_frames]: "tx_fixes p m \<Longrightarrow> tx_fixes p m' \<Longrightarrow> tx_fixes p (if b then m else m')"
  by simp

section \<open>The contract of a write\<close>

text \<open>
  What every write of the store promises.  It changes the tables only on the leader, and
  only to what its transaction body computes from them; the settings stay; and an
  error means the tables stay too, unless the answer to the commit was lost.
\<close>

definition settings :: "store \<Rightarrow> driver_kind \<times> bool \<times> bool \<times> audit_keyring option" where
  "settings s = (st_driver s, st_leader_enabled s, st_is_leader s, st_keyring s)"

lemma settings_db [simp]: "settings (s\<lparr>st_db := d\<rparr>) = settings s"
  by (simp add: settings_def)

lemma IsLeader_settings: "settings s = settings s' \<Longrightarrow> IsLeader s = IsLeader s'"
  by (simp add: settings_def IsLeader_def)

lemma IsLeader_db [simp]: "IsLeader (s\<lparr>st_db := d\<rparr>) = IsLeader s"
  by (simp add: IsLeader_def)

locale db_write =
  fixes op :: "io \<Rightarrow> store \<Rightarrow> (err + 'a) \<times> store" and body :: "io \<Rightarrow> store \<Rightarrow> 'b tx"
  assumes ends: "op io s = (r, s') \<Longrightarrow> s' = s \<or>
     IsLeader s \<and> settings s' = settings s \<and> (\<exists>x. body io s (st_db s) = Inr (x, st_db s'))
     \<and> (\<forall>e. r = Inl e \<longrightarrow> io_commit io = CommitLost)"
begin

lemma follower: "\<not> IsLeader s \<Longrightarrow> op io s = (r, s') \<Longrightarrow> s' = s"
  using ends by blast

lemma failure: "op io s = (Inl e, s') \<Longrightarrow> io_commit io \<noteq> CommitLost \<Longrightarrow> s' = s"
  using ends by blast

lemma same_settings: "op io s = (r, s') \<Longrightarrow> settings s' = settings s"
  using ends by blast

lemma keeps: "tx_keeps I (body io s) \<Longrightarrow> I (st_db s) \<Longrightarrow> op io s = (r, s') \<Longrightarrow> I (st_db s')"
  using ends tx_keepsD by metis

lemma frame: "tx_fixes p (body io s) \<Longrightarrow> op io s = (r, s') \<Longrightarrow> p (st_db s') = p (st_db s)"
  using ends tx_fixesD by metis

end

lemma run_tx_write:
  assumes "run_tx io b s = (r, s')" "IsLeader s"
  shows "s' = s \<or> IsLeader s \<and> settings s' = settings s \<and> (\<exists>x. b (st_db s) = Inr (x, st_db s'))
     \<and> (\<forall>e. r = Inl e \<longrightarrow> io_commit io = CommitLost)"
  using run_tx_ends [OF assms(1)] assms(2) by auto

end
