(* ===== verification/HashChain.thy ===== *)
theory HashChain
  imports Main
begin

text \<open>
  Hash chains in general.  A row carries a hash, the hash of the row before it and
  a preimage that its digest covers; a row is \<open>verified\<close> when its hash stands for
  the digest of its preimage.  The locale states what the audit log promises of its
  rows and proves that a verified chain is determined by the hash of its last row,
  up to a digest collision between two rows at hand.
\<close>

locale hash_chain =
  fixes verified :: "'r \<Rightarrow> bool"
    and rhash :: "'r \<Rightarrow> 'h"
    and rprev :: "'r \<Rightarrow> 'h"
    and preimage :: "'r \<Rightarrow> 'p"
    and digest :: "'p \<Rightarrow> 'd"
    and genesis :: 'h
    and linkable :: "'h \<Rightarrow> bool"
  assumes same_hash: "verified r \<Longrightarrow> verified r' \<Longrightarrow> rhash r = rhash r' \<Longrightarrow>
      digest (preimage r) = digest (preimage r')"
    and not_genesis: "verified r \<Longrightarrow> rhash r \<noteq> genesis"
    and hash_linkable: "verified r \<Longrightarrow> linkable (rhash r)"
    and genesis_linkable: "linkable genesis"
    and prev_covered: "verified r \<Longrightarrow> verified r' \<Longrightarrow> preimage r = preimage r' \<Longrightarrow>
      linkable (rprev r) \<Longrightarrow> linkable (rprev r') \<Longrightarrow> rprev r = rprev r'"
begin

fun linked :: "'h \<Rightarrow> 'r list \<Rightarrow> bool" where
  "linked p [] = True"
| "linked p (r # rs) \<longleftrightarrow> rprev r = p \<and> verified r \<and> linked (rhash r) rs"

definition head :: "'r list \<Rightarrow> 'h" where
  "head rs = (if rs = [] then genesis else rhash (last rs))"

definition collision :: "'r list \<Rightarrow> 'r list \<Rightarrow> bool" where
  "collision xs ys \<longleftrightarrow>
     (\<exists>x \<in> set xs. \<exists>y \<in> set ys. preimage x \<noteq> preimage y \<and> digest (preimage x) = digest (preimage y))"

lemma linked_append:
  "linked p (xs @ ys) \<longleftrightarrow> linked p xs \<and> linked (if xs = [] then p else rhash (last xs)) ys"
  by (induction xs arbitrary: p) auto

lemma linked_verified: "linked p rs \<Longrightarrow> r \<in> set rs \<Longrightarrow> verified r"
  by (induction rs arbitrary: p) auto

lemma linked_snoc:
  "linked genesis (rs @ [r]) \<longleftrightarrow> linked genesis rs \<and> rprev r = head rs \<and> verified r"
  by (auto simp: linked_append head_def)

lemma head_linkable: "linked genesis rs \<Longrightarrow> linkable (head rs)"
  using linked_verified [of genesis rs] genesis_linkable hash_linkable
  by (auto simp: head_def)

lemma head_genesis: "linked genesis rs \<Longrightarrow> head rs = genesis \<longleftrightarrow> rs = []"
  using linked_verified [of genesis rs "last rs"] not_genesis by (auto simp: head_def)

text \<open>Two verified chains whose last rows have the same hash have the same preimages.\<close>

lemma same_head:
  assumes "linked genesis xs" "linked genesis ys" "head xs = head ys" "\<not> collision xs ys"
  shows "map preimage xs = map preimage ys"
  using assms
proof (induction xs arbitrary: ys rule: rev_induct)
  case Nil
  then show ?case using head_genesis [of ys] by (simp add: head_def)
next
  case (snoc x xs)
  have "head (xs @ [x]) \<noteq> genesis" using snoc.prems(1) head_genesis by blast
  with snoc.prems(3) have "ys \<noteq> []" by (auto simp: head_def)
  then obtain zs y where ys: "ys = zs @ [y]" by (metis append_butlast_last_id)
  from snoc.prems ys have hx: "rhash x = rhash y"
    and x: "linked genesis xs" "rprev x = head xs" "verified x"
    and y: "linked genesis zs" "rprev y = head zs" "verified y"
    by (auto simp: head_def linked_snoc)
  have pre: "preimage x = preimage y"
    using snoc.prems(4) ys same_hash [OF x(3) y(3) hx] by (auto simp: collision_def)
  have "rprev x = rprev y"
    using prev_covered [OF x(3) y(3) pre] head_linkable x y by simp
  then have "head xs = head zs" using x y by simp
  moreover have "\<not> collision xs zs" using snoc.prems(4) ys by (auto simp: collision_def)
  ultimately have "map preimage xs = map preimage zs" using snoc.IH x y by blast
  with pre ys show ?case by simp
qed

text \<open>A verified chain that contains the hash of another one's last row extends it.\<close>

lemma anchored_prefix:
  assumes xs: "linked genesis xs" and ys: "linked genesis ys"
    and at: "xs = [] \<or> head xs \<in> rhash ` set ys"
  shows "map preimage xs = take (length xs) (map preimage ys) \<or> collision xs ys"
proof (cases "xs = [] \<or> collision xs ys")
  case False
  with at obtain y where y: "y \<in> set ys" "rhash y = head xs" by auto
  then obtain as bs where ys': "ys = as @ y # bs" by (meson split_list)
  have "linked genesis (as @ [y])" using ys ys' linked_append [of genesis "as @ [y]" bs] by simp
  moreover have "head xs = head (as @ [y])" using y by (simp add: head_def)
  moreover have "\<not> collision xs (as @ [y])" using False ys' by (auto simp: collision_def)
  ultimately have "map preimage xs = map preimage (as @ [y])" using xs same_head by blast
  moreover from this have "length xs = length (as @ [y])" by (metis length_map)
  ultimately show ?thesis using ys' by simp
qed auto

end

end
