(* ===== verification/AuditLog.thy ===== *)
theory AuditLog
  imports Store HashChain
begin

text \<open>
  The tamper-evident audit log of \<^verbatim>\<open>internal/server/storage/audit.go\<close> and the
  forwarder watermark of \<^verbatim>\<open>audit_forward.go\<close>: appending a row, appending it once
  per key, listing, and the verifier.  SHA-256 and HMAC-SHA-256 are arguments
  (\<open>crypto\<close>), so that what is proved holds for any pair of functions and a
  statement that needs a property of them says so.
\<close>

section \<open>Digests and rows\<close>

record crypto =
  sha256 :: "bytes \<Rightarrow> bytes"
  hmac_sha256 :: "bytes \<Rightarrow> bytes \<Rightarrow> bytes"

record audit_event =
  ev_seq :: int
  ev_ts :: gotime
  ev_kind :: string
  ev_actor :: string
  ev_subject :: string
  ev_decision :: string
  ev_payload :: "string option"
  ev_prev_hash :: string
  ev_hash :: string
  ev_key_id :: string

definition genesisHash :: string where
  "genesisHash = ''GENESIS''"

definition auditMetaKeyedFromSeq :: string where
  "auditMetaKeyedFromSeq = ''keyed_from_seq''"

definition auditOnceRetention :: int where
  "auditOnceRetention = 30 * 24 * hour"

text \<open>The event a caller passes in: the fields the store fills are zero.\<close>

definition new_event :: "string \<Rightarrow> string \<Rightarrow> string \<Rightarrow> string \<Rightarrow> string option \<Rightarrow> audit_event" where
  "new_event kind actor subject decision payload =
     \<lparr>ev_seq = 0, ev_ts = zero_time, ev_kind = kind, ev_actor = actor, ev_subject = subject,
      ev_decision = decision, ev_payload = payload, ev_prev_hash = [], ev_hash = [], ev_key_id = []\<rparr>"

text \<open>Scanning a row, and the columns an event is stored in.\<close>

definition scan_event :: "audit_row \<Rightarrow> audit_event" where
  "scan_event r =
     \<lparr>ev_seq = a_seq r, ev_ts = a_ts r, ev_kind = a_kind r, ev_actor = a_actor r,
      ev_subject = a_subject r, ev_decision = a_decision r, ev_payload = Some (a_payload r),
      ev_prev_hash = a_prev_hash r, ev_hash = a_hash r, ev_key_id = a_key_id r\<rparr>"

definition payload_bytes :: "audit_event \<Rightarrow> bytes" where
  "payload_bytes ev = (case ev_payload ev of None \<Rightarrow> [] | Some p \<Rightarrow> p)"

definition event_row :: "int \<Rightarrow> string \<Rightarrow> audit_event \<Rightarrow> audit_row" where
  "event_row seq hash ev =
     \<lparr>a_seq = seq, a_ts = unix_nano (ev_ts ev), a_kind = ev_kind ev, a_actor = ev_actor ev,
      a_subject = ev_subject ev, a_decision = ev_decision ev, a_payload = payload_bytes ev,
      a_prev_hash = ev_prev_hash ev, a_hash = hash, a_key_id = ev_key_id ev\<rparr>"

text \<open>What \<^verbatim>\<open>macAuditEvent\<close> feeds the hash, and the hash.\<close>

definition mac_input :: "audit_event \<Rightarrow> bytes \<Rightarrow> bytes" where
  "mac_input ev key =
     itoa (ev_seq ev) @ ''|'' @ itoa (unix_nano (ev_ts ev)) @ ''|'' @ ev_kind ev @ ''|'' @
     ev_actor ev @ ''|'' @ ev_subject ev @ ''|'' @ ev_decision ev @ ''|'' @
     payload_bytes ev @ ''|'' @ ev_prev_hash ev @
     (if length key \<noteq> 0 then ''|keyid|'' @ ev_key_id ev else [])"

definition mac_digest :: "crypto \<Rightarrow> bytes \<Rightarrow> bytes \<Rightarrow> bytes" where
  "mac_digest cr key m = (if length key = 0 then sha256 cr m else hmac_sha256 cr key m)"

definition macAuditEvent :: "crypto \<Rightarrow> audit_event \<Rightarrow> bytes \<Rightarrow> bytes" where
  "macAuditEvent cr ev key = mac_digest cr key (mac_input ev key)"

definition hashAuditEvent :: "crypto \<Rightarrow> audit_event \<Rightarrow> bytes \<Rightarrow> string" where
  "hashAuditEvent cr ev key = hex_encode (macAuditEvent cr ev key)"

section \<open>Appending\<close>

definition UseAuditKeyring :: "audit_keyring option \<Rightarrow> store \<Rightarrow> store" where
  "UseAuditKeyring kr s = s\<lparr>st_keyring := kr\<rparr>"

definition lastAuditHash :: "audit_row list \<Rightarrow> string" where
  "lastAuditHash rows = (case rev (sort_key a_seq rows) of [] \<Rightarrow> genesisHash | r # _ \<Rightarrow> a_hash r)"

text \<open>
  The insert hands out the next sequence number, after the ones the service
  skipped; it fails when 64 bits are used up, and on the UNIQUE constraint
  of the column \<^verbatim>\<open>hash\<close>.
\<close>

definition insert_audit :: "io \<Rightarrow> audit_event \<Rightarrow> int tx" where
  "insert_audit io ev =
     tx_stmt io ''audit: insert'' (\<lambda>d.
       let seq = db_audit_seq d + 1 + int (io_gap io) in
       if \<not> int64 seq then Inl (ErrDB ''audit: insert'')
       else (case sql_insert a_seq (event_row seq ''pending'' ev) (db_audit d) of
               None \<Rightarrow> Inl (ErrDB ''audit: insert'')
             | Some t \<Rightarrow>
                 if ''pending'' \<in> a_hash ` set (db_audit d) then Inl (ErrDB ''audit: insert'')
                 else Inr (seq, d\<lparr>db_audit := t, db_audit_seq := seq\<rparr>)))"

definition update_audit_hash :: "io \<Rightarrow> int \<Rightarrow> string \<Rightarrow> unit tx" where
  "update_audit_hash io seq hash =
     tx_stmt io ''audit: update hash'' (\<lambda>d.
       if hash \<in> a_hash ` {r \<in> set (db_audit d). a_seq r \<noteq> seq} then Inl (ErrDB ''audit: update hash'')
       else Inr ((), d\<lparr>db_audit := sql_update (\<lambda>r. a_seq r = seq) (\<lambda>r. r\<lparr>a_hash := hash\<rparr>) (db_audit d)\<rparr>))"

definition record_epoch :: "io \<Rightarrow> int \<Rightarrow> unit tx" where
  "record_epoch io seq =
     tx_exec io ''audit: record keying epoch'' (\<lambda>d.
       d\<lparr>db_meta := snd (sql_insert_ignore mt_k \<lparr>mt_k = auditMetaKeyedFromSeq, mt_v = seq\<rparr> (db_meta d))\<rparr>)"

definition signing_key :: "audit_keyring option \<Rightarrow> string \<times> bytes" where
  "signing_key kr = (case kr of None \<Rightarrow> (keyIDUnkeyed, []) | Some k \<Rightarrow> active_key k)"

definition prepare_event :: "io \<Rightarrow> audit_keyring option \<Rightarrow> audit_event \<Rightarrow> audit_event" where
  "prepare_event io kr ev =
     ev\<lparr>ev_ts := (if is_zero_time (ev_ts ev) then io_now io else ev_ts ev),
        ev_payload := (case ev_payload ev of None \<Rightarrow> Some ''{}'' | Some p \<Rightarrow> Some p),
        ev_key_id := fst (signing_key kr)\<rparr>"

definition appendAuditTx ::
  "crypto \<Rightarrow> io \<Rightarrow> audit_keyring option \<Rightarrow> bool \<Rightarrow> audit_event \<Rightarrow> audit_event tx" where
  "appendAuditTx cr io kr epochRecorded ev0 =
     (let ev1 = prepare_event io kr ev0; key = snd (signing_key kr) in
      tx_bind (tx_query io ''audit: last hash'' (\<lambda>d. lastAuditHash (db_audit d))) (\<lambda>prev.
      let ev2 = ev1\<lparr>ev_prev_hash := prev\<rparr> in
      tx_bind (insert_audit io ev2) (\<lambda>seq.
      let ev3 = ev2\<lparr>ev_seq := seq\<rparr>; ev4 = ev3\<lparr>ev_hash := hashAuditEvent cr ev3 key\<rparr> in
      tx_bind (update_audit_hash io seq (ev_hash ev4)) (\<lambda>_.
      tx_bind (if kr \<noteq> None \<and> \<not> epochRecorded then record_epoch io seq else tx_return ()) (\<lambda>_.
      tx_return ev4)))))"

definition auditCommitted :: "store \<Rightarrow> store" where
  "auditCommitted s =
     (if st_keyring s \<noteq> None then s\<lparr>st_keyed_epoch_recorded := True\<rparr> else s)"

definition append_tx :: "crypto \<Rightarrow> io \<Rightarrow> store \<Rightarrow> audit_event \<Rightarrow> audit_event tx" where
  "append_tx cr io s = appendAuditTx cr io (st_keyring s) (st_keyed_epoch_recorded s)"

definition AppendAudit :: "crypto \<Rightarrow> io \<Rightarrow> audit_event \<Rightarrow> store \<Rightarrow> (err + audit_event) \<times> store" where
  "AppendAudit cr io ev s =
     (if \<not> IsLeader s then (Inl ErrNotLeader, s)
      else if ev_kind ev = [] then (Inl (ErrInvalid ''audit: kind is required''), s)
      else (case run_tx io (append_tx cr io s ev) s of
              (Inl e, s') \<Rightarrow> (Inl e, s')
            | (Inr ev', s') \<Rightarrow> (Inr ev', auditCommitted s')))"

section \<open>Appending once per key\<close>

definition once_digest :: "crypto \<Rightarrow> audit_event \<Rightarrow> string" where
  "once_digest cr ev =
     hex_encode (sha256 cr (ev_kind ev @ [CHR 0x00] @ ev_actor ev @ [CHR 0x00] @ ev_subject ev @
       [CHR 0x00] @ ev_decision ev @ [CHR 0x00] @ payload_bytes ev))"

definition conflict_event :: "string \<Rightarrow> string \<Rightarrow> string \<Rightarrow> audit_event \<Rightarrow> audit_event" where
  "conflict_event key seen digest ev =
     new_event (ev_kind ev @ ''.conflict'') (ev_actor ev) (ev_subject ev) ''error''
       (Some (json_marshal (JObj [(''key'', JStr key), (''recorded_digest'', JStr seen),
                                  (''resent_digest'', JStr digest)])))"

text \<open>
  The body ends early with \<open>Inl False\<close> for a resend of the same event, commits
  a conflict row for another event, and commits the event otherwise.
\<close>

definition append_once_tx :: "crypto \<Rightarrow> io \<Rightarrow> store \<Rightarrow> string \<Rightarrow> audit_event \<Rightarrow> (bool + bool) tx" where
  "append_once_tx cr io s key ev =
     (let digest = once_digest cr ev;
          row = \<lparr>o_k = key, o_digest = digest, o_created_at = unix_nano (io_now io)\<rparr> in
      tx_bind (tx_stmt io ''audit: record key'' (\<lambda>d.
        let (inserted, t) = sql_insert_ignore o_k row (db_once d) in Inr (inserted, d\<lparr>db_once := t\<rparr>))) (\<lambda>inserted.
      if \<not> inserted then
        tx_bind (tx_stmt io ''audit: read key'' (\<lambda>d.
          case sql_row (\<lambda>r. o_k r = key) (db_once d) of
            None \<Rightarrow> Inl (ErrDB ''audit: read key'')
          | Some r \<Rightarrow> Inr (o_digest r, d))) (\<lambda>seen.
        if seen = digest then tx_return (Inl False)
        else tx_bind (append_tx cr io s (conflict_event key seen digest ev)) (\<lambda>_. tx_return (Inr False)))
      else tx_bind (append_tx cr io s ev) (\<lambda>_. tx_return (Inr True))))"

text \<open>Housekeeping after the commit, at most hourly; its failure is only logged.\<close>

definition prune_once :: "io \<Rightarrow> store \<Rightarrow> store" where
  "prune_once io s =
     (if io_now io - st_once_pruned_at s > hour then
        let s1 = s\<lparr>st_once_pruned_at := io_now io\<rparr> in
        if io_fails io ''audit: prune'' then s1
        else s1\<lparr>st_db := (st_db s1)\<lparr>db_once :=
               sql_delete (\<lambda>r. o_created_at r < unix_nano (io_now io - auditOnceRetention)) (db_once (st_db s1))\<rparr>\<rparr>
      else s)"

definition AppendAuditOnce ::
  "crypto \<Rightarrow> io \<Rightarrow> string \<Rightarrow> audit_event \<Rightarrow> store \<Rightarrow> (err + bool) \<times> store" where
  "AppendAuditOnce cr io key ev s =
     (if \<not> IsLeader s then (Inl ErrNotLeader, s)
      else if ev_kind ev = [] \<or> key = [] then (Inl (ErrInvalid ''audit: kind and key are required''), s)
      else run_tx_early io (append_once_tx cr io s key ev)
             (\<lambda>appended s'. if appended then prune_once io (auditCommitted s') else auditCommitted s') s)"

section \<open>Listing\<close>

definition ListAudit :: "io \<Rightarrow> int \<Rightarrow> int \<Rightarrow> store \<Rightarrow> err + audit_event list" where
  "ListAudit io since limit0 s =
     (let limit = (if limit0 \<le> 0 then 100 else if limit0 > 1000 then 1000 else limit0) in
      run_query io ''audit: list'' (\<lambda>d.
        map scan_event (take (nat limit) (sort_key a_seq (filter (\<lambda>r. a_seq r > since) (db_audit d))))) s)"

section \<open>Verifying\<close>

record audit_anchor =
  an_head_hash :: string
  an_count :: int

record audit_verification =
  av_valid :: bool
  av_first_bad_seq :: int
  av_truncated :: bool
  av_count :: int
  av_head_hash :: string

record verify_state =
  vs_first_bad :: int
  vs_count :: int
  vs_head :: string
  vs_prev :: string
  vs_saw_anchor :: bool
  vs_saw_keyed :: bool

definition is_unkeyed :: "string \<Rightarrow> bool" where
  "is_unkeyed keyID \<longleftrightarrow> keyID = [] \<or> keyID = keyIDUnkeyed"

definition auditKeyedFromSeq :: "io \<Rightarrow> store \<Rightarrow> err + (int \<times> bool)" where
  "auditKeyedFromSeq io s =
     run_query io ''audit: read keying epoch'' (\<lambda>d.
       case sql_row (\<lambda>m. mt_k m = auditMetaKeyedFromSeq) (db_meta d) of
         None \<Rightarrow> (0, False) | Some m \<Rightarrow> (mt_v m, True)) s"

text \<open>The check of one row: the new \<^verbatim>\<open>FirstBadSeq\<close>.\<close>

definition check_row ::
  "crypto \<Rightarrow> (string \<times> bytes) list option \<Rightarrow> int \<Rightarrow> bool \<Rightarrow> audit_event \<Rightarrow> verify_state \<Rightarrow> int" where
  "check_row cr keys keyedFrom hasEpoch ev st =
     (if keys \<noteq> None \<and> is_unkeyed (ev_key_id ev) \<and> hasEpoch \<and> ev_seq ev \<ge> keyedFrom then ev_seq ev
      else if keys \<noteq> None \<and> is_unkeyed (ev_key_id ev) \<and> vs_saw_keyed st then ev_seq ev
      else (case (if is_unkeyed (ev_key_id ev) then Some []
                  else case keys of None \<Rightarrow> None | Some ks \<Rightarrow> map_of ks (ev_key_id ev)) of
              None \<Rightarrow> ev_seq ev
            | Some key \<Rightarrow>
                if ev_prev_hash ev \<noteq> vs_prev st \<or> hex_decode (ev_hash ev) \<noteq> Some (macAuditEvent cr ev key)
                then ev_seq ev else vs_first_bad st))"

definition verify_row ::
  "crypto \<Rightarrow> (string \<times> bytes) list option \<Rightarrow> int \<Rightarrow> bool \<Rightarrow> audit_anchor option
   \<Rightarrow> audit_event \<Rightarrow> verify_state \<Rightarrow> verify_state" where
  "verify_row cr keys keyedFrom hasEpoch anchor ev st =
     \<lparr>vs_first_bad = (if vs_first_bad st = 0 then check_row cr keys keyedFrom hasEpoch ev st
                      else vs_first_bad st),
      vs_count = vs_count st + 1,
      vs_head = ev_hash ev,
      vs_prev = ev_hash ev,
      vs_saw_anchor = (vs_saw_anchor st \<or> (case anchor of None \<Rightarrow> False | Some a \<Rightarrow> ev_hash ev = an_head_hash a)),
      vs_saw_keyed = (vs_saw_keyed st \<or> \<not> is_unkeyed (ev_key_id ev))\<rparr>"

fun verify_walk ::
  "crypto \<Rightarrow> (string \<times> bytes) list option \<Rightarrow> int \<Rightarrow> bool \<Rightarrow> audit_anchor option
   \<Rightarrow> audit_event list \<Rightarrow> verify_state \<Rightarrow> verify_state" where
  "verify_walk cr keys keyedFrom hasEpoch anchor [] st = st"
| "verify_walk cr keys keyedFrom hasEpoch anchor (ev # evs) st =
     (let st' = verify_row cr keys keyedFrom hasEpoch anchor ev st in
      if vs_first_bad st' \<noteq> 0 then st'
      else verify_walk cr keys keyedFrom hasEpoch anchor evs st')"

definition verify_init :: "audit_anchor option \<Rightarrow> verify_state" where
  "verify_init anchor =
     \<lparr>vs_first_bad = 0, vs_count = 0, vs_head = genesisHash, vs_prev = genesisHash,
      vs_saw_anchor = (case anchor of None \<Rightarrow> False | Some a \<Rightarrow> an_head_hash a = genesisHash),
      vs_saw_keyed = False\<rparr>"

definition verify_result :: "audit_anchor option \<Rightarrow> verify_state \<Rightarrow> audit_verification" where
  "verify_result anchor st =
     (let trunc = (case anchor of
                     None \<Rightarrow> False
                   | Some a \<Rightarrow> vs_first_bad st = 0 \<and> (vs_count st < an_count a \<or> \<not> vs_saw_anchor st)) in
      \<lparr>av_valid = (vs_first_bad st = 0 \<and> \<not> trunc), av_first_bad_seq = vs_first_bad st,
       av_truncated = trunc, av_count = vs_count st, av_head_hash = vs_head st\<rparr>)"

definition VerifyAudit :: "crypto \<Rightarrow> io \<Rightarrow> audit_anchor option \<Rightarrow> store \<Rightarrow> err + audit_verification" where
  "VerifyAudit cr io anchor s =
     (case (if st_keyring s = None then Inr (0, False) else auditKeyedFromSeq io s) of
        Inl e \<Rightarrow> Inl e
      | Inr (keyedFrom, hasEpoch) \<Rightarrow>
          (case run_query io ''audit: verify query'' (\<lambda>d. map scan_event (sort_key a_seq (db_audit d))) s of
             Inl e \<Rightarrow> Inl e
           | Inr evs \<Rightarrow>
               Inr (verify_result anchor
                 (verify_walk cr (map_option Snapshot (st_keyring s)) keyedFrom hasEpoch anchor evs
                    (verify_init anchor)))))"

section \<open>The forwarder watermark\<close>

definition AuditForwardSeq :: "io \<Rightarrow> string \<Rightarrow> store \<Rightarrow> err + int" where
  "AuditForwardSeq io name s =
     (if name = [] then Inl (ErrInvalid ''audit forward: name is required'')
      else run_query io ''audit forward: read seq'' (\<lambda>d.
        case sql_row (\<lambda>r. f_name r = name) (db_forward d) of None \<Rightarrow> 0 | Some r \<Rightarrow> f_last_seq r) s)"

definition SetAuditForwardSeq :: "io \<Rightarrow> string \<Rightarrow> int \<Rightarrow> store \<Rightarrow> (err + unit) \<times> store" where
  "SetAuditForwardSeq io name seq s =
     (if name = [] then (Inl (ErrInvalid ''audit forward: name is required''), s)
      else if seq < 0 then (Inl (ErrInvalid ''audit forward: seq must be non-negative''), s)
      else run_exec io ''audit forward: write seq'' (\<lambda>d.
        ((), d\<lparr>db_forward :=
           sql_upsert f_name \<lparr>f_name = name, f_last_seq = seq, f_updated_at = unix_nano (io_now io)\<rparr>
             (\<lambda>r. r\<lparr>f_last_seq := seq, f_updated_at := unix_nano (io_now io)\<rparr>) (db_forward d)\<rparr>)) s)"

end
