(* ===== verification/AuditChain.thy ===== *)
theory AuditChain
  imports AuditLog
begin

text \<open>
  What the audit verifier establishes.  A clean walk is a linked chain in the sense
  of the locale \<open>hash_chain\<close>, interpreted here on the rows and digests of
  \<^verbatim>\<open>audit.go\<close>; an anchored walk therefore extends the log the anchor was taken
  of.  Then what every append keeps: the walk stays clean.
\<close>

section \<open>The rows of the log as a hash chain\<close>

text \<open>A row together with the key it is checked under.\<close>

definition resolve_key :: "(string \<times> bytes) list option \<Rightarrow> string \<Rightarrow> bytes option" where
  "resolve_key keys keyID =
     (if is_unkeyed keyID then Some []
      else case keys of None \<Rightarrow> None | Some ks \<Rightarrow> map_of ks keyID)"

definition keyed_row :: "(string \<times> bytes) list option \<Rightarrow> audit_event \<Rightarrow> audit_event \<times> bytes" where
  "keyed_row keys ev = (ev, case resolve_key keys (ev_key_id ev) of None \<Rightarrow> [] | Some k \<Rightarrow> k)"

lemma fst_keyed_row [simp]: "fst (keyed_row keys ev) = ev"
  by (simp add: keyed_row_def)

definition row_verified :: "crypto \<Rightarrow> audit_event \<times> bytes \<Rightarrow> bool" where
  "row_verified cr r \<longleftrightarrow>
     hex_decode (ev_hash (fst r)) = Some (macAuditEvent cr (fst r) (snd r))
     \<and> CHR ''|'' \<notin> set (ev_key_id (fst r))"

definition row_preimage :: "audit_event \<times> bytes \<Rightarrow> bytes \<times> bytes" where
  "row_preimage r = (snd r, mac_input (fst r) (snd r))"

definition preimage_digest :: "crypto \<Rightarrow> bytes \<times> bytes \<Rightarrow> bytes" where
  "preimage_digest cr p = mac_digest cr (fst p) (snd p)"

lemma genesis_not_hex: "hex_decode genesisHash = None"
  by (simp add: genesisHash_def hex_val_def)

definition mac_fields :: "audit_event \<Rightarrow> bytes" where
  "mac_fields ev =
     itoa (ev_seq ev) @ ''|'' @ itoa (unix_nano (ev_ts ev)) @ ''|'' @ ev_kind ev @ ''|'' @
     ev_actor ev @ ''|'' @ ev_subject ev @ ''|'' @ ev_decision ev @ ''|'' @ payload_bytes ev"

lemma mac_input_split:
  "mac_input ev k = (mac_fields ev @ CHR ''|'' # ev_prev_hash ev) @
     (if length k \<noteq> 0 then ''|keyid'' @ CHR ''|'' # ev_key_id ev else [])"
  by (simp add: mac_input_def mac_fields_def)

lemma mac_input_prev:
  assumes "mac_input e k = mac_input e' k"
    and "CHR ''|'' \<notin> set (ev_prev_hash e)" "CHR ''|'' \<notin> set (ev_prev_hash e')"
    and "CHR ''|'' \<notin> set (ev_key_id e)" "CHR ''|'' \<notin> set (ev_key_id e')"
  shows "mac_fields e = mac_fields e' \<and> ev_prev_hash e = ev_prev_hash e'"
proof -
  have "mac_fields e @ CHR ''|'' # ev_prev_hash e = mac_fields e' @ CHR ''|'' # ev_prev_hash e'"
  proof (cases "length k = 0")
    case False
    then have "((mac_fields e @ CHR ''|'' # ev_prev_hash e) @ ''|keyid'') @ CHR ''|'' # ev_key_id e =
               ((mac_fields e' @ CHR ''|'' # ev_prev_hash e') @ ''|keyid'') @ CHR ''|'' # ev_key_id e'"
      using assms(1) by (simp add: mac_input_split)
    then show ?thesis
      using last_sep_unique [of _ "CHR ''|''" "ev_key_id e" _ "ev_key_id e'"] assms(4,5)
        append_same_eq by blast
  qed (use assms(1) in \<open>simp add: mac_input_split\<close>)
  with assms(2,3) show ?thesis by (intro last_sep_unique)
qed

interpretation ac: hash_chain "row_verified cr" "\<lambda>r. ev_hash (fst r)" "\<lambda>r. ev_prev_hash (fst r)"
    row_preimage "preimage_digest cr" genesisHash "\<lambda>h. CHR ''|'' \<notin> set h" for cr
proof
  fix r r' :: "audit_event \<times> bytes"
  assume v: "row_verified cr r"
  show "ev_hash (fst r) \<noteq> genesisHash"
    using v genesis_not_hex by (auto simp: row_verified_def)
  show "CHR ''|'' \<notin> set (ev_hash (fst r))"
    using v bar_not_hex by (auto simp: row_verified_def)
  assume v': "row_verified cr r'"
  show "preimage_digest cr (row_preimage r) = preimage_digest cr (row_preimage r')"
    if "ev_hash (fst r) = ev_hash (fst r')"
    using that v v' by (simp add: row_verified_def preimage_digest_def row_preimage_def macAuditEvent_def)
  show "ev_prev_hash (fst r) = ev_prev_hash (fst r')"
    if "row_preimage r = row_preimage r'" "CHR ''|'' \<notin> set (ev_prev_hash (fst r))"
      "CHR ''|'' \<notin> set (ev_prev_hash (fst r'))"
    using that v v' mac_input_prev [of "fst r" "snd r" "fst r'"]
    by (auto simp: row_verified_def row_preimage_def)
next
  show "CHR ''|'' \<notin> set genesisHash" by (simp add: genesisHash_def)
qed

section \<open>What a clean walk is\<close>

text \<open>
  The reference for the verifier: each row repeats the hash of the row before it,
  carries the MAC of its own bytes under a key at hand, and with a keyring no
  unkeyed row follows a keyed one or lies at or after the keying epoch.
\<close>

definition row_clean ::
  "crypto \<Rightarrow> (string \<times> bytes) list option \<Rightarrow> int \<Rightarrow> bool \<Rightarrow> bool \<Rightarrow> string \<Rightarrow> audit_event \<Rightarrow> bool" where
  "row_clean cr keys keyedFrom hasEpoch sawKeyed prev ev \<longleftrightarrow>
     (keys \<noteq> None \<and> is_unkeyed (ev_key_id ev) \<longrightarrow> \<not> (hasEpoch \<and> keyedFrom \<le> ev_seq ev) \<and> \<not> sawKeyed)
     \<and> ev_prev_hash ev = prev
     \<and> (case resolve_key keys (ev_key_id ev) of
          None \<Rightarrow> False
        | Some key \<Rightarrow> hex_decode (ev_hash ev) = Some (macAuditEvent cr ev key))"

fun chain_clean ::
  "crypto \<Rightarrow> (string \<times> bytes) list option \<Rightarrow> int \<Rightarrow> bool \<Rightarrow> bool \<Rightarrow> string \<Rightarrow> audit_event list \<Rightarrow> bool" where
  "chain_clean cr keys kf he sk prev [] = True"
| "chain_clean cr keys kf he sk prev (ev # evs) \<longleftrightarrow>
     row_clean cr keys kf he sk prev ev
     \<and> chain_clean cr keys kf he (sk \<or> \<not> is_unkeyed (ev_key_id ev)) (ev_hash ev) evs"

definition chain_head :: "audit_event list \<Rightarrow> string" where
  "chain_head evs = (if evs = [] then genesisHash else ev_hash (last evs))"

definition audit_walk :: "db \<Rightarrow> audit_event list" where
  "audit_walk d = map scan_event (sort_key a_seq (db_audit d))"

definition audit_epoch :: "db \<Rightarrow> int option" where
  "audit_epoch d = map_option mt_v (sql_row (\<lambda>m. mt_k m = auditMetaKeyedFromSeq) (db_meta d))"

definition keys_of :: "audit_keyring option \<Rightarrow> (string \<times> bytes) list option" where
  "keys_of kr = map_option kr_keys kr"

definition audit_clean :: "crypto \<Rightarrow> audit_keyring option \<Rightarrow> db \<Rightarrow> bool" where
  "audit_clean cr kr d \<longleftrightarrow>
     chain_clean cr (keys_of kr) (case audit_epoch d of None \<Rightarrow> 0 | Some v \<Rightarrow> v)
       (audit_epoch d \<noteq> None) False genesisHash (audit_walk d)"

lemma check_row_iff:
  assumes "vs_first_bad st = 0" "ev_seq ev \<noteq> 0"
  shows "check_row cr keys kf he ev st = 0 \<longleftrightarrow> row_clean cr keys kf he (vs_saw_keyed st) (vs_prev st) ev"
  using assms by (auto simp: check_row_def row_clean_def resolve_key_def split: option.splits)

lemma verify_row_simps [simp]:
  "vs_count (verify_row cr keys kf he an ev st) = vs_count st + 1"
  "vs_head (verify_row cr keys kf he an ev st) = ev_hash ev"
  "vs_prev (verify_row cr keys kf he an ev st) = ev_hash ev"
  "vs_saw_keyed (verify_row cr keys kf he an ev st) = (vs_saw_keyed st \<or> \<not> is_unkeyed (ev_key_id ev))"
  "vs_saw_anchor (verify_row cr keys kf he an ev st) =
     (vs_saw_anchor st \<or> (\<exists>a. an = Some a \<and> ev_hash ev = an_head_hash a))"
  by (auto simp: verify_row_def split: option.splits)

lemma verify_row_bad:
  "vs_first_bad st = 0 \<Longrightarrow>
     vs_first_bad (verify_row cr keys kf he an ev st) = check_row cr keys kf he ev st"
  by (simp add: verify_row_def)

lemma verify_walk_iff:
  assumes "vs_first_bad st = 0" "\<forall>ev \<in> set evs. ev_seq ev \<noteq> 0"
  shows "vs_first_bad (verify_walk cr keys kf he an evs st) = 0 \<longleftrightarrow>
           chain_clean cr keys kf he (vs_saw_keyed st) (vs_prev st) evs"
  using assms
proof (induction evs arbitrary: st)
  case (Cons ev evs)
  let ?st = "verify_row cr keys kf he an ev st"
  have bad: "vs_first_bad ?st = 0 \<longleftrightarrow> row_clean cr keys kf he (vs_saw_keyed st) (vs_prev st) ev"
    using Cons.prems by (simp add: verify_row_bad check_row_iff)
  show ?case
  proof (cases "vs_first_bad ?st = 0")
    case True
    with Cons.IH [of ?st] Cons.prems(2) bad show ?thesis by simp
  next
    case False
    with bad show ?thesis by simp
  qed
qed simp

lemma verify_walk_counts:
  assumes "vs_first_bad (verify_walk cr keys kf he an evs st) = 0"
  shows "vs_count (verify_walk cr keys kf he an evs st) = vs_count st + int (length evs)"
    and "vs_head (verify_walk cr keys kf he an evs st) = (if evs = [] then vs_head st else ev_hash (last evs))"
    and "vs_saw_anchor (verify_walk cr keys kf he an evs st) \<longleftrightarrow>
           vs_saw_anchor st \<or> (\<exists>a. an = Some a \<and> an_head_hash a \<in> ev_hash ` set evs)"
  using assms
  by (induction evs arbitrary: st) (auto simp: Let_def image_iff split: if_splits)

text \<open>Without a keyring the epoch is not read, and does not matter.\<close>

lemma chain_clean_no_keys:
  "chain_clean cr None kf he sk p evs = chain_clean cr None kf' he' sk' p evs"
  by (induction evs arbitrary: p sk sk') (auto simp: row_clean_def)

lemma keys_of_None [simp]: "keys_of kr = None \<longleftrightarrow> kr = None"
  by (simp add: keys_of_def)

lemma VerifyAudit_queries:
  "VerifyAudit cr io an s = Inr v \<longleftrightarrow>
     (st_keyring s \<noteq> None \<longrightarrow> \<not> io_fails io ''audit: read keying epoch'')
     \<and> \<not> io_fails io ''audit: verify query''
     \<and> v = verify_result an (verify_walk cr (keys_of (st_keyring s))
            (if st_keyring s = None then 0 else case audit_epoch (st_db s) of None \<Rightarrow> 0 | Some e \<Rightarrow> e)
            (st_keyring s \<noteq> None \<and> audit_epoch (st_db s) \<noteq> None) an (audit_walk (st_db s)) (verify_init an))"
proof -
  have "map_option Snapshot (st_keyring s) = keys_of (st_keyring s)"
    by (cases "st_keyring s") (simp_all add: keys_of_def Snapshot_def)
  then show ?thesis
    by (auto simp: VerifyAudit_def auditKeyedFromSeq_def run_query_def audit_walk_def audit_epoch_def
        split: option.splits)
qed

definition no_row_zero :: "db \<Rightarrow> bool" where
  "no_row_zero d \<longleftrightarrow> list_all (\<lambda>r. a_seq r \<noteq> 0) (db_audit d)"

lemma audit_walk_nonzero: "no_row_zero d \<Longrightarrow> \<forall>ev \<in> set (audit_walk d). ev_seq ev \<noteq> 0"
  by (auto simp: no_row_zero_def audit_walk_def scan_event_def list_all_iff)

lemma verify_walk_clean:
  assumes "no_row_zero (st_db s)"
  shows "vs_first_bad (verify_walk cr (keys_of (st_keyring s))
            (if st_keyring s = None then 0 else case audit_epoch (st_db s) of None \<Rightarrow> 0 | Some e \<Rightarrow> e)
            (st_keyring s \<noteq> None \<and> audit_epoch (st_db s) \<noteq> None) an (audit_walk (st_db s)) (verify_init an)) = 0
         \<longleftrightarrow> audit_clean cr (st_keyring s) (st_db s)"
proof -
  have init: "vs_first_bad (verify_init an) = 0" "vs_prev (verify_init an) = genesisHash"
    "vs_saw_keyed (verify_init an) = False"
    by (simp_all add: verify_init_def)
  show ?thesis
    unfolding verify_walk_iff [OF init(1) audit_walk_nonzero [OF assms]] init(2,3) audit_clean_def
    by (cases "st_keyring s")
      (simp_all add: keys_of_def chain_clean_no_keys [of cr 0 False False genesisHash _ _ _ False])
qed

definition anchor_seen :: "audit_anchor option \<Rightarrow> db \<Rightarrow> bool" where
  "anchor_seen an d =
     (case an of
        None \<Rightarrow> True
      | Some a \<Rightarrow> an_count a \<le> int (length (audit_walk d))
                 \<and> (an_head_hash a = genesisHash \<or> an_head_hash a \<in> ev_hash ` set (audit_walk d)))"

text \<open>The verifier against its reference: what \<^verbatim>\<open>Valid\<close>, \<^verbatim>\<open>Count\<close> and \<^verbatim>\<open>HeadHash\<close> say.\<close>

lemma VerifyAudit_valid:
  assumes "VerifyAudit cr io an s = Inr v" "no_row_zero (st_db s)"
  shows "av_valid v \<longleftrightarrow> audit_clean cr (st_keyring s) (st_db s) \<and> anchor_seen an (st_db s)"
    and "av_valid v \<Longrightarrow> av_count v = int (length (audit_walk (st_db s)))"
    and "av_valid v \<Longrightarrow> av_head_hash v = chain_head (audit_walk (st_db s))"
proof -
  define kf where "kf = (if st_keyring s = None then 0 else case audit_epoch (st_db s) of None \<Rightarrow> 0 | Some e \<Rightarrow> e)"
  define he where "he = (st_keyring s \<noteq> None \<and> audit_epoch (st_db s) \<noteq> None)"
  let ?w = "verify_walk cr (keys_of (st_keyring s)) kf he an (audit_walk (st_db s)) (verify_init an)"
  have v: "v = verify_result an ?w" using assms(1) VerifyAudit_queries kf_def he_def by blast
  have bad: "vs_first_bad ?w = 0 \<longleftrightarrow> audit_clean cr (st_keyring s) (st_db s)"
    unfolding kf_def he_def by (rule verify_walk_clean [OF assms(2)])
  have valid: "av_valid v \<Longrightarrow> vs_first_bad ?w = 0" by (simp add: v verify_result_def Let_def)
  show "av_valid v \<longleftrightarrow> audit_clean cr (st_keyring s) (st_db s) \<and> anchor_seen an (st_db s)"
  proof (cases "vs_first_bad ?w = 0")
    case True
    then show ?thesis
      using bad verify_walk_counts [OF True]
      by (cases an) (auto simp: v verify_result_def Let_def anchor_seen_def verify_init_def)
  next
    case False
    then show ?thesis using bad valid by blast
  qed
  show "av_count v = int (length (audit_walk (st_db s)))" if "av_valid v"
    using verify_walk_counts(1) [OF valid [OF that]] by (simp add: v verify_result_def Let_def verify_init_def)
  show "av_head_hash v = chain_head (audit_walk (st_db s))" if "av_valid v"
    using verify_walk_counts(2) [OF valid [OF that]]
    by (simp add: v verify_result_def Let_def verify_init_def chain_head_def)
qed

section \<open>A clean walk is a linked chain\<close>

definition plain_key_ids :: "audit_keyring option \<Rightarrow> bool" where
  "plain_key_ids kr =
     (case kr of None \<Rightarrow> True | Some k \<Rightarrow> list_all (\<lambda>(kid, _). CHR ''|'' \<notin> set kid) (kr_keys k))"

lemma resolve_key_plain:
  assumes "plain_key_ids kr" "resolve_key (keys_of kr) kid = Some key"
  shows "CHR ''|'' \<notin> set kid"
proof (cases "is_unkeyed kid")
  case True
  then show ?thesis by (auto simp: is_unkeyed_def keyIDUnkeyed_def)
next
  case False
  with assms(2) obtain k where "kr = Some k" "(kid, key) \<in> set (kr_keys k)"
    by (auto simp: resolve_key_def keys_of_def split: option.splits dest: map_of_SomeD)
  with assms(1) show ?thesis by (auto simp: plain_key_ids_def list_all_iff)
qed

lemma chain_clean_linked:
  assumes "chain_clean cr (keys_of kr) kf he sk p evs" "plain_key_ids kr"
  shows "ac.linked cr p (map (keyed_row (keys_of kr)) evs)"
  using assms(1)
proof (induction evs arbitrary: p sk)
  case (Cons ev evs)
  then obtain key where key: "resolve_key (keys_of kr) (ev_key_id ev) = Some key"
    and mac: "hex_decode (ev_hash ev) = Some (macAuditEvent cr ev key)" "ev_prev_hash ev = p"
    by (auto simp: row_clean_def split: option.splits)
  then have "row_verified cr (keyed_row (keys_of kr) ev)"
    using resolve_key_plain [OF assms(2) key] by (simp add: row_verified_def keyed_row_def)
  with Cons mac show ?case by auto
qed simp

lemma audit_clean_linked:
  "audit_clean cr kr d \<Longrightarrow> plain_key_ids kr \<Longrightarrow>
     ac.linked cr genesisHash (map (keyed_row (keys_of kr)) (audit_walk d))"
  by (auto simp: audit_clean_def intro: chain_clean_linked)

definition preimage_of :: "store \<Rightarrow> audit_event \<Rightarrow> bytes \<times> bytes" where
  "preimage_of s ev = row_preimage (keyed_row (keys_of (st_keyring s)) ev)"

lemma chain_head_keyed:
  "ac.head (map (keyed_row ks) evs) = chain_head evs"
  by (simp add: ac.head_def chain_head_def last_map)

section \<open>A published checkpoint pins the log\<close>

text \<open>
  C1. An operator keeps the head hash and the count of a log that verified.  If the
  log later verifies against that anchor, then every row of the anchored log is
  still there, in its place, with the bytes its MAC covers and under the same key:
  nothing was changed, reordered, inserted or cut below the checkpoint.  There are two
  ways out: a collision of the digest between a row of the old and one of the new log, and
  a row with sequence number 0 in one of the two, which the verifier does not check.  The
  ids of the configured keys are assumed to carry no \<^verbatim>\<open>|\<close>.
\<close>
theorem anchored_log_extends:
  assumes old: "VerifyAudit cr io0 None s0 = Inr v0" "av_valid v0"
    and new: "VerifyAudit cr io1 (Some \<lparr>an_head_hash = av_head_hash v0, an_count = av_count v0\<rparr>) s1 = Inr v1"
      "av_valid v1"
    and ids: "plain_key_ids (st_keyring s0)" "plain_key_ids (st_keyring s1)"
  shows "map (preimage_of s0) (audit_walk (st_db s0)) =
           take (length (audit_walk (st_db s0))) (map (preimage_of s1) (audit_walk (st_db s1)))
         \<or> (\<exists>e0 \<in> set (audit_walk (st_db s0)). \<exists>e1 \<in> set (audit_walk (st_db s1)).
              preimage_of s0 e0 \<noteq> preimage_of s1 e1
              \<and> preimage_digest cr (preimage_of s0 e0) = preimage_digest cr (preimage_of s1 e1))
         \<or> (\<exists>r \<in> set (db_audit (st_db s0)) \<union> set (db_audit (st_db s1)). a_seq r = 0)"
proof (cases "no_row_zero (st_db s0) \<and> no_row_zero (st_db s1)")
  case True
  then have seqs: "no_row_zero (st_db s0)" "no_row_zero (st_db s1)" by simp_all
  let ?x = "map (keyed_row (keys_of (st_keyring s0))) (audit_walk (st_db s0))"
  let ?y = "map (keyed_row (keys_of (st_keyring s1))) (audit_walk (st_db s1))"
  have c: "audit_clean cr (st_keyring s0) (st_db s0)" "audit_clean cr (st_keyring s1) (st_db s1)"
    and seen: "chain_head (audit_walk (st_db s0)) = genesisHash \<or>
               chain_head (audit_walk (st_db s0)) \<in> ev_hash ` set (audit_walk (st_db s1))"
    using VerifyAudit_valid [OF old(1) seqs(1)] VerifyAudit_valid(1) [OF new(1) seqs(2)] old(2) new(2)
    by (simp_all add: anchor_seen_def)
  have linked: "ac.linked cr genesisHash ?x" "ac.linked cr genesisHash ?y"
    using audit_clean_linked c ids by blast+
  have "ac.head ?x = genesisHash \<longleftrightarrow> ?x = []" by (rule ac.head_genesis [OF linked(1)])
  then have "?x = [] \<or> ac.head ?x \<in> (\<lambda>r. ev_hash (fst r)) ` set ?y"
    using seen by (auto simp: chain_head_keyed image_image)
  from ac.anchored_prefix [OF linked this] show ?thesis
    by (auto simp: preimage_of_def [abs_def] ac.collision_def comp_def)
next
  case False
  then show ?thesis by (auto simp: no_row_zero_def list_all_iff)
qed

definition demo_crypto :: crypto where
  "demo_crypto = \<lparr>sha256 = (\<lambda>m. take 4 m), hmac_sha256 = (\<lambda>k m. take 2 k @ take 4 m)\<rparr>"

definition demo_io :: "gotime \<Rightarrow> io" where
  "demo_io t = \<lparr>io_now = t, io_fails = (\<lambda>_. False), io_commit = Committed, io_gap = 0\<rparr>"

definition demo_keyring :: audit_keyring where
  "demo_keyring = \<lparr>kr_path = ''keys.json'', kr_active_id = ''k1'', kr_keys = [(''k1'', ''0123456789abcdef'')]\<rparr>"

definition demo_empty :: store where
  "demo_empty = UseAuditKeyring (Some demo_keyring) (open_store ''omega.db'' empty_db)"

definition demo_event :: audit_event where
  "demo_event = new_event ''policy.create'' ''alice'' ''p1'' ''ok'' None"

definition demo_log1 :: store where
  "demo_log1 = snd (AppendAudit demo_crypto (demo_io 5) demo_event demo_empty)"

definition demo_log2 :: store where
  "demo_log2 = snd (AppendAudit demo_crypto (demo_io 6) demo_event demo_log1)"

lemma demo_logs:
  "VerifyAudit demo_crypto (demo_io 7) None demo_log1 =
     Inr \<lparr>av_valid = True, av_first_bad_seq = 0, av_truncated = False, av_count = 1, av_head_hash = ''3031317c357c''\<rparr>"
  "VerifyAudit demo_crypto (demo_io 8) (Some \<lparr>an_head_hash = ''3031317c357c'', an_count = 1\<rparr>) demo_log2 =
     Inr \<lparr>av_valid = True, av_first_bad_seq = 0, av_truncated = False, av_count = 2, av_head_hash = ''3031327c367c''\<rparr>"
  "plain_key_ids (st_keyring demo_log1) \<and> plain_key_ids (st_keyring demo_log2)
   \<and> no_row_zero (st_db demo_log1) \<and> no_row_zero (st_db demo_log2)"
  by code_simp+

theorem anchored_log_extends_witness:
  "map (preimage_of demo_log1) (audit_walk (st_db demo_log1)) =
     take (length (audit_walk (st_db demo_log1))) (map (preimage_of demo_log2) (audit_walk (st_db demo_log2)))
   \<or> (\<exists>e0 \<in> set (audit_walk (st_db demo_log1)). \<exists>e1 \<in> set (audit_walk (st_db demo_log2)).
        preimage_of demo_log1 e0 \<noteq> preimage_of demo_log2 e1
        \<and> preimage_digest demo_crypto (preimage_of demo_log1 e0) = preimage_digest demo_crypto (preimage_of demo_log2 e1))
   \<or> (\<exists>r \<in> set (db_audit (st_db demo_log1)) \<union> set (db_audit (st_db demo_log2)). a_seq r = 0)"
  using demo_logs
  by (intro anchored_log_extends [of demo_crypto "demo_io 7" demo_log1
        "\<lparr>av_valid = True, av_first_bad_seq = 0, av_truncated = False, av_count = 1, av_head_hash = ''3031317c357c''\<rparr>"
        "demo_io 8" demo_log2
        "\<lparr>av_valid = True, av_first_bad_seq = 0, av_truncated = False, av_count = 2, av_head_hash = ''3031327c367c''\<rparr>"])
     simp_all

text \<open>
  C7. The bytes a MAC covers determine the row: two rows with the same MAC input
  under the same key have the same sequence number, time, kind, actor, subject,
  decision, payload and previous hash, as long as none of the four text fields, the
  previous hash and the key id contains \<^verbatim>\<open>|\<close>.
\<close>
theorem mac_input_injective:
  assumes eq: "mac_input e k = mac_input e' k"
    and bars: "\<forall>f \<in> {ev_kind, ev_actor, ev_subject, ev_decision, ev_prev_hash, ev_key_id}.
                 CHR ''|'' \<notin> set (f e) \<and> CHR ''|'' \<notin> set (f e')"
  shows "ev_seq e = ev_seq e' \<and> unix_nano (ev_ts e) = unix_nano (ev_ts e') \<and> ev_kind e = ev_kind e'
         \<and> ev_actor e = ev_actor e' \<and> ev_subject e = ev_subject e' \<and> ev_decision e = ev_decision e'
         \<and> payload_bytes e = payload_bytes e' \<and> ev_prev_hash e = ev_prev_hash e'"
proof -
  have f: "mac_fields e = mac_fields e'" and prev: "ev_prev_hash e = ev_prev_hash e'"
    using mac_input_prev [OF eq] bars by auto
  note first = first_sep_unique [of _ "CHR ''|''"]
  have 1: "itoa (ev_seq e) = itoa (ev_seq e')"
    and r1: "itoa (unix_nano (ev_ts e)) @ CHR ''|'' # (ev_kind e @ ''|'' @ ev_actor e @ ''|'' @
               ev_subject e @ ''|'' @ ev_decision e @ ''|'' @ payload_bytes e) =
             itoa (unix_nano (ev_ts e')) @ CHR ''|'' # (ev_kind e' @ ''|'' @ ev_actor e' @ ''|'' @
               ev_subject e' @ ''|'' @ ev_decision e' @ ''|'' @ payload_bytes e')"
    using f first [of "itoa (ev_seq e)" _ "itoa (ev_seq e')"] bar_notin_itoa
    by (simp_all add: mac_fields_def)
  have 2: "itoa (unix_nano (ev_ts e)) = itoa (unix_nano (ev_ts e'))"
    and r2: "ev_kind e @ CHR ''|'' # (ev_actor e @ ''|'' @ ev_subject e @ ''|'' @ ev_decision e @ ''|'' @ payload_bytes e) =
             ev_kind e' @ CHR ''|'' # (ev_actor e' @ ''|'' @ ev_subject e' @ ''|'' @ ev_decision e' @ ''|'' @ payload_bytes e')"
    using first [OF r1 bar_notin_itoa bar_notin_itoa] by simp_all
  have 3: "ev_kind e = ev_kind e'"
    and r3: "ev_actor e @ CHR ''|'' # (ev_subject e @ ''|'' @ ev_decision e @ ''|'' @ payload_bytes e) =
             ev_actor e' @ CHR ''|'' # (ev_subject e' @ ''|'' @ ev_decision e' @ ''|'' @ payload_bytes e')"
    using first [OF r2] bars by simp_all
  have 4: "ev_actor e = ev_actor e'"
    and r4: "ev_subject e @ CHR ''|'' # (ev_decision e @ ''|'' @ payload_bytes e) =
             ev_subject e' @ CHR ''|'' # (ev_decision e' @ ''|'' @ payload_bytes e')"
    using first [OF r3] bars by simp_all
  have 5: "ev_subject e = ev_subject e'"
    and r5: "ev_decision e @ CHR ''|'' # payload_bytes e = ev_decision e' @ CHR ''|'' # payload_bytes e'"
    using first [OF r4] bars by simp_all
  show ?thesis using 1 2 3 4 5 prev first [OF r5] bars by simp
qed

theorem mac_input_injective_witness:
  "ev_seq demo_event = ev_seq (demo_event\<lparr>ev_hash := ''00''\<rparr>)
   \<and> unix_nano (ev_ts demo_event) = unix_nano (ev_ts (demo_event\<lparr>ev_hash := ''00''\<rparr>))
   \<and> ev_kind demo_event = ev_kind (demo_event\<lparr>ev_hash := ''00''\<rparr>)
   \<and> ev_actor demo_event = ev_actor (demo_event\<lparr>ev_hash := ''00''\<rparr>)
   \<and> ev_subject demo_event = ev_subject (demo_event\<lparr>ev_hash := ''00''\<rparr>)
   \<and> ev_decision demo_event = ev_decision (demo_event\<lparr>ev_hash := ''00''\<rparr>)
   \<and> payload_bytes demo_event = payload_bytes (demo_event\<lparr>ev_hash := ''00''\<rparr>)
   \<and> ev_prev_hash demo_event = ev_prev_hash (demo_event\<lparr>ev_hash := ''00''\<rparr>)"
  by (rule mac_input_injective [of _ "''k''"])
     (simp_all add: demo_event_def new_event_def mac_input_def payload_bytes_def)

section \<open>Rows the verifier cannot tell apart\<close>

definition mac_equiv :: "crypto \<Rightarrow> audit_event \<Rightarrow> audit_event \<Rightarrow> bool" where
  "mac_equiv cr e e' \<longleftrightarrow>
     ev_seq e = ev_seq e' \<and> ev_key_id e = ev_key_id e' \<and> ev_hash e = ev_hash e'
     \<and> ev_prev_hash e = ev_prev_hash e' \<and> (\<forall>k. macAuditEvent cr e k = macAuditEvent cr e' k)"

lemma verify_row_equiv:
  assumes "mac_equiv cr e e'"
  shows "verify_row cr ks kf he an e st = verify_row cr ks kf he an e' st"
proof -
  from assms have eqs: "ev_seq e = ev_seq e'" "ev_key_id e = ev_key_id e'" "ev_hash e = ev_hash e'"
    "ev_prev_hash e = ev_prev_hash e'" "macAuditEvent cr e = macAuditEvent cr e'"
    by (auto simp: mac_equiv_def)
  show ?thesis unfolding verify_row_def check_row_def eqs ..
qed

lemma verify_walk_equiv:
  "list_all2 (mac_equiv cr) es es' \<Longrightarrow>
     verify_walk cr ks kf he an es st = verify_walk cr ks kf he an es' st"
proof (induction es es' arbitrary: st rule: list_all2_induct)
  case (Cons e es e' es')
  then show ?case using verify_row_equiv [OF Cons(1)] by (simp add: Let_def)
qed simp

lemma insort_equiv:
  assumes "list_all2 (\<lambda>r r'. mac_equiv cr (scan_event r) (scan_event r')) as bs"
    and "mac_equiv cr (scan_event a) (scan_event b)"
  shows "list_all2 (\<lambda>r r'. mac_equiv cr (scan_event r) (scan_event r'))
           (insort_key a_seq a as) (insort_key a_seq b bs)"
proof -
  have seq: "a_seq r = a_seq r'" if "mac_equiv cr (scan_event r) (scan_event r')" for r r'
    using that by (simp add: mac_equiv_def scan_event_def)
  show ?thesis
    using assms
  proof (induction as bs rule: list_all2_induct)
    case (Cons r rs r' rs')
    then show ?case using seq [of r r'] seq [of a b] by simp
  qed simp
qed

lemma sort_equiv:
  "list_all2 (\<lambda>r r'. mac_equiv cr (scan_event r) (scan_event r')) as bs \<Longrightarrow>
   list_all2 (\<lambda>r r'. mac_equiv cr (scan_event r) (scan_event r')) (sort_key a_seq as) (sort_key a_seq bs)"
  by (induction as bs rule: list_all2_induct) (simp_all add: insort_equiv)

lemma mac_equiv_refl: "mac_equiv cr e e"
  by (simp add: mac_equiv_def)

lemma VerifyAudit_equiv:
  assumes "list_all2 (\<lambda>r r'. mac_equiv cr (scan_event r) (scan_event r')) rows (db_audit (st_db s))"
  shows "VerifyAudit cr io an (s\<lparr>st_db := (st_db s)\<lparr>db_audit := rows\<rparr>\<rparr>) = VerifyAudit cr io an s"
proof -
  have "list_all2 (mac_equiv cr) (map scan_event (sort_key a_seq rows))
          (map scan_event (sort_key a_seq (db_audit (st_db s))))"
    using sort_equiv [OF assms] by (simp add: list_all2_map1 list_all2_map2)
  note walk = verify_walk_equiv [OF this]
  show ?thesis
    by (simp add: VerifyAudit_def auditKeyedFromSeq_def run_query_def walk split: sum.split)
qed

text \<open>
  C11. Where a field does contain \<^verbatim>\<open>|\<close> the MAC input is ambiguous: bytes can be moved
  from the subject of a row to its decision in the database, and the rewritten log
  verifies exactly as the original, under every key.
\<close>
theorem shifted_field_undetected:
  assumes "db_audit (st_db s) = xs @ r # ys" "a_subject r = u @ ''|'' @ v"
  shows "VerifyAudit cr io an (s\<lparr>st_db := (st_db s)\<lparr>db_audit :=
            xs @ r\<lparr>a_subject := u, a_decision := v @ ''|'' @ a_decision r\<rparr> # ys\<rparr>\<rparr>)
         = VerifyAudit cr io an s"
proof (rule VerifyAudit_equiv)
  have "mac_equiv cr (scan_event (r\<lparr>a_subject := u, a_decision := v @ ''|'' @ a_decision r\<rparr>)) (scan_event r)"
    using assms(2)
    by (simp add: mac_equiv_def macAuditEvent_def mac_input_def scan_event_def payload_bytes_def)
  then show "list_all2 (\<lambda>r r'. mac_equiv cr (scan_event r) (scan_event r'))
      (xs @ r\<lparr>a_subject := u, a_decision := v @ ''|'' @ a_decision r\<rparr> # ys) (db_audit (st_db s))"
    using assms(1) by (simp add: list_all2_appendI list_all2_refl mac_equiv_refl)
qed

definition demo_forged :: audit_row where
  "demo_forged =
     \<lparr>a_seq = 0, a_ts = 1, a_kind = ''policy.create'', a_actor = ''mallory'', a_subject = ''x|y'',
      a_decision = ''ok'', a_payload = ''{}'', a_prev_hash = ''GENESIS'', a_hash = ''GENESIS'',
      a_key_id = ''unkeyed''\<rparr>"

theorem shifted_field_undetected_witness:
  "VerifyAudit demo_crypto (demo_io 7) None
     (demo_empty\<lparr>st_db := (st_db (demo_empty\<lparr>st_db := empty_db\<lparr>db_audit := [demo_forged]\<rparr>\<rparr>))\<lparr>db_audit :=
        [] @ demo_forged\<lparr>a_subject := ''x'', a_decision := ''y'' @ ''|'' @ a_decision demo_forged\<rparr> # []\<rparr>\<rparr>)
   = VerifyAudit demo_crypto (demo_io 7) None (demo_empty\<lparr>st_db := empty_db\<lparr>db_audit := [demo_forged]\<rparr>\<rparr>)"
  using shifted_field_undetected [of "demo_empty\<lparr>st_db := empty_db\<lparr>db_audit := [demo_forged]\<rparr>\<rparr>"
      "[]" demo_forged "[]" "''x''" "''y''" demo_crypto "demo_io 7" None]
  by (simp add: demo_forged_def)

lemma check_row_count:
  "check_row cr ks kf he ev (st\<lparr>vs_count := n\<rparr>) = check_row cr ks kf he ev st"
  by (simp add: check_row_def split: option.split)

lemma verify_walk_count:
  "verify_walk cr ks kf he an evs (st\<lparr>vs_count := vs_count st + 1\<rparr>) =
     (verify_walk cr ks kf he an evs st)\<lparr>vs_count := vs_count (verify_walk cr ks kf he an evs st) + 1\<rparr>"
proof (induction evs arbitrary: st)
  case (Cons ev evs)
  have row: "verify_row cr ks kf he an ev (st\<lparr>vs_count := vs_count st + 1\<rparr>) =
     (verify_row cr ks kf he an ev st)\<lparr>vs_count := vs_count (verify_row cr ks kf he an ev st) + 1\<rparr>"
    by (simp add: verify_row_def check_row_count)
  show ?case using Cons [of "verify_row cr ks kf he an ev st"] by (simp add: row Let_def)
qed simp

text \<open>
  C9. The walk treats \<^verbatim>\<open>FirstBadSeq == 0\<close> as clean, so a row with sequence number 0 is
  never reported: whoever can write the database adds such a row with the hash
  \<^verbatim>\<open>GENESIS\<close> and any other content, and the log verifies as before, anchor and HMAC
  keys included, with one more row counted.
\<close>
theorem row_zero_undetected:
  assumes v: "VerifyAudit cr io an s = Inr v" "av_valid v"
    and pos: "\<forall>r \<in> set (db_audit (st_db s)). 0 < a_seq r"
    and f: "a_seq f = 0" "a_hash f = genesisHash" "is_unkeyed (a_key_id f)"
  shows "VerifyAudit cr io an (s\<lparr>st_db := (st_db s)\<lparr>db_audit := f # db_audit (st_db s)\<rparr>\<rparr>)
         = Inr (v\<lparr>av_count := av_count v + 1\<rparr>)"
proof -
  let ?s = "s\<lparr>st_db := (st_db s)\<lparr>db_audit := f # db_audit (st_db s)\<rparr>\<rparr>"
  have "insort_key a_seq f xs = f # xs" if "\<forall>r \<in> set xs. 0 < a_seq r" for xs
    using that f(1) by (cases xs) auto
  then have walk: "audit_walk (st_db ?s) = scan_event f # audit_walk (st_db s)"
    using pos by (simp add: audit_walk_def)
  have row: "verify_row cr ks kf he an (scan_event f) (verify_init an) =
             (verify_init an)\<lparr>vs_count := vs_count (verify_init an) + 1\<rparr>" for ks kf he
    using f by (auto simp: verify_row_def check_row_def verify_init_def scan_event_def split: option.splits)
  have res: "av_valid (verify_result an st) \<Longrightarrow>
       verify_result an (st\<lparr>vs_count := vs_count st + 1\<rparr>) =
       (verify_result an st)\<lparr>av_count := av_count (verify_result an st) + 1\<rparr>" for st
    by (auto simp: verify_result_def Let_def split: option.splits)
  have "vs_first_bad (verify_init an) = 0" by (simp add: verify_init_def)
  then have shift: "verify_walk cr ks kf he an (audit_walk (st_db ?s)) (verify_init an) =
       (verify_walk cr ks kf he an (audit_walk (st_db s)) (verify_init an))
         \<lparr>vs_count := vs_count (verify_walk cr ks kf he an (audit_walk (st_db s)) (verify_init an)) + 1\<rparr>" for ks kf he
    unfolding walk verify_walk.simps row Let_def by (simp add: verify_walk_count)
  have ep: "audit_epoch (st_db ?s) = audit_epoch (st_db s)" "st_keyring ?s = st_keyring s"
    by (simp_all add: audit_epoch_def)
  show ?thesis
    using v res unfolding VerifyAudit_queries shift ep by (auto simp only:)
qed

theorem row_zero_undetected_witness:
  "VerifyAudit demo_crypto (demo_io 7) None
     (demo_log1\<lparr>st_db := (st_db demo_log1)\<lparr>db_audit := demo_forged # db_audit (st_db demo_log1)\<rparr>\<rparr>)
   = Inr (\<lparr>av_valid = True, av_first_bad_seq = 0, av_truncated = False, av_count = 1, av_head_hash = ''3031317c357c''\<rparr>
            \<lparr>av_count := 1 + 1\<rparr>)"
proof -
  have "\<forall>r \<in> set (db_audit (st_db demo_log1)). 0 < a_seq r" by code_simp
  then show ?thesis
    using row_zero_undetected [OF demo_logs(1), of demo_forged]
    by (simp add: demo_forged_def genesisHash_def is_unkeyed_def keyIDUnkeyed_def)
qed

text \<open>
  C6. Downgrade forgeries are rejected: with a keyring loaded, a log holding an unkeyed
  row at or after the keying epoch, or anywhere after a keyed row, never verifies.
\<close>
theorem downgrade_rejected:
  assumes "VerifyAudit cr io an s = Inr v" "no_row_zero (st_db s)" "st_keyring s \<noteq> None"
    and "audit_walk (st_db s) = xs @ e # ys" "is_unkeyed (ev_key_id e)"
    and "(\<exists>x \<in> set xs. \<not> is_unkeyed (ev_key_id x)) \<or>
         (\<exists>from. audit_epoch (st_db s) = Some from \<and> from \<le> ev_seq e)"
  shows "\<not> av_valid v"
proof -
  have "\<not> chain_clean cr (keys_of (st_keyring s)) kf he sk p (xs @ e # ys)"
    if "(\<exists>x \<in> set xs. \<not> is_unkeyed (ev_key_id x)) \<or> sk \<or> he \<and> kf \<le> ev_seq e" for kf he sk p
    using that assms(3,5)
    by (induction xs arbitrary: sk p) (auto simp: row_clean_def)
  from this [where he = "audit_epoch (st_db s) \<noteq> None" and sk = False
      and kf = "case audit_epoch (st_db s) of None \<Rightarrow> 0 | Some v \<Rightarrow> v"]
  have "\<not> audit_clean cr (st_keyring s) (st_db s)"
    using assms(4,6) by (auto simp: audit_clean_def)
  then show ?thesis using VerifyAudit_valid(1) [OF assms(1,2)] by blast
qed

theorem downgrade_rejected_witness:
  "\<not> av_valid (case VerifyAudit demo_crypto (demo_io 7) None
        (demo_log1\<lparr>st_db := (st_db demo_log1)\<lparr>db_audit :=
           db_audit (st_db demo_log1) @ [demo_forged\<lparr>a_seq := 2, a_prev_hash := ''3031317c357c''\<rparr>]\<rparr>\<rparr>) of Inr v \<Rightarrow> v)"
proof -
  let ?s = "demo_log1\<lparr>st_db := (st_db demo_log1)\<lparr>db_audit :=
           db_audit (st_db demo_log1) @ [demo_forged\<lparr>a_seq := 2, a_prev_hash := ''3031317c357c''\<rparr>]\<rparr>\<rparr>"
  let ?e = "scan_event (demo_forged\<lparr>a_seq := 2, a_prev_hash := ''3031317c357c''\<rparr>)"
  have "\<exists>v. VerifyAudit demo_crypto (demo_io 7) None ?s = Inr v"
    by (simp add: VerifyAudit_queries demo_io_def)
  then obtain v where v: "VerifyAudit demo_crypto (demo_io 7) None ?s = Inr v" ..
  have h: "no_row_zero (st_db ?s)" "st_keyring ?s \<noteq> None"
    "audit_walk (st_db ?s) = audit_walk (st_db demo_log1) @ ?e # []" "is_unkeyed (ev_key_id ?e)"
    "audit_epoch (st_db ?s) = Some 1" "1 \<le> ev_seq ?e"
    by code_simp+
  have "\<not> av_valid v"
    by (rule downgrade_rejected [OF v h(1-4)]) (use h(5,6) in auto)
  then show ?thesis using v by simp
qed

end
