(* ===== verification/AuditAppend.thy ===== *)
theory AuditAppend
  imports AuditChain
begin

text \<open>
  What an append does to the log and what every append keeps: the audit invariant,
  which makes the verifier accept the log in every state the program can reach.
  The lemmas are about the body of a transaction, so that the policy and SCIM
  writes, which append inside their own transactions, use them too.
\<close>

section \<open>The effect of an append\<close>

text \<open>The row an append stores and the event it returns.\<close>

definition appended_event ::
  "crypto \<Rightarrow> io \<Rightarrow> audit_keyring option \<Rightarrow> db \<Rightarrow> audit_event \<Rightarrow> audit_event" where
  "appended_event cr io kr d ev0 =
     (let ev = (prepare_event io kr ev0)\<lparr>ev_prev_hash := lastAuditHash (db_audit d),
                                          ev_seq := db_audit_seq d + 1 + int (io_gap io)\<rparr> in
      ev\<lparr>ev_hash := hashAuditEvent cr ev (snd (signing_key kr))\<rparr>)"

definition stored_row :: "audit_event \<Rightarrow> audit_row" where
  "stored_row ev = event_row (ev_seq ev) (ev_hash ev) ev"

definition epoch_meta :: "audit_keyring option \<Rightarrow> bool \<Rightarrow> int \<Rightarrow> meta_row list \<Rightarrow> meta_row list" where
  "epoch_meta kr recorded seq t =
     (if kr \<noteq> None \<and> \<not> recorded
      then snd (sql_insert_ignore mt_k \<lparr>mt_k = auditMetaKeyedFromSeq, mt_v = seq\<rparr> t) else t)"

lemma prepare_event_simps [simp]:
  "ev_kind (prepare_event io kr ev) = ev_kind ev"
  "ev_actor (prepare_event io kr ev) = ev_actor ev"
  "ev_subject (prepare_event io kr ev) = ev_subject ev"
  "ev_decision (prepare_event io kr ev) = ev_decision ev"
  "ev_key_id (prepare_event io kr ev) = fst (signing_key kr)"
  "ev_payload (prepare_event io kr ev) = Some (case ev_payload ev of None \<Rightarrow> ''{}'' | Some p \<Rightarrow> p)"
  by (simp_all add: prepare_event_def split: option.split)

lemma insert_audit_Inr:
  "insert_audit io ev d = Inr (seq, d') \<longleftrightarrow>
     \<not> io_fails io ''audit: insert'' \<and> seq = db_audit_seq d + 1 + int (io_gap io) \<and> int64 seq
     \<and> seq \<notin> a_seq ` set (db_audit d) \<and> ''pending'' \<notin> a_hash ` set (db_audit d)
     \<and> d' = d\<lparr>db_audit := db_audit d @ [event_row seq ''pending'' ev], db_audit_seq := seq\<rparr>"
  by (auto simp: insert_audit_def tx_stmt_def Let_def sql_insert_def event_row_def)

lemma update_audit_hash_Inr:
  "update_audit_hash io seq h d = Inr (u, d') \<longleftrightarrow>
     \<not> io_fails io ''audit: update hash'' \<and> h \<notin> a_hash ` {r \<in> set (db_audit d). a_seq r \<noteq> seq}
     \<and> d' = d\<lparr>db_audit := sql_update (\<lambda>r. a_seq r = seq) (\<lambda>r. r\<lparr>a_hash := h\<rparr>) (db_audit d)\<rparr>"
  by (auto simp: update_audit_hash_def tx_stmt_def)

lemma hash_update_last:
  assumes "seq \<notin> a_seq ` set t" "a_seq r = seq"
  shows "sql_update (\<lambda>r. a_seq r = seq) f (t @ [r]) = t @ [f r]"
proof -
  have "map (\<lambda>r. if a_seq r = seq then f r else r) t = t"
    using assms(1) by (intro map_idI) auto
  with assms(2) show ?thesis by (simp add: sql_update_def)
qed

lemma appendAuditTx_effect:
  assumes "appendAuditTx cr io kr rec ev0 d = Inr (ev, d')"
  shows "ev = appended_event cr io kr d ev0 \<and> int64 (ev_seq ev)
         \<and> ev_seq ev \<notin> a_seq ` set (db_audit d)
         \<and> d' = d\<lparr>db_audit := db_audit d @ [stored_row ev], db_audit_seq := ev_seq ev,
                  db_meta := epoch_meta kr rec (ev_seq ev) (db_meta d)\<rparr>"
proof -
  define ev2 where "ev2 = (prepare_event io kr ev0)\<lparr>ev_prev_hash := lastAuditHash (db_audit d)\<rparr>"
  define seq where "seq = db_audit_seq d + 1 + int (io_gap io)"
  define ev4 where "ev4 = (ev2\<lparr>ev_seq := seq\<rparr>)
      \<lparr>ev_hash := hashAuditEvent cr (ev2\<lparr>ev_seq := seq\<rparr>) (snd (signing_key kr))\<rparr>"
  have ev4: "ev4 = appended_event cr io kr d ev0"
    by (simp add: ev4_def ev2_def seq_def appended_event_def Let_def)
  have s4: "ev_seq ev4 = seq" by (simp add: ev4_def)
  have row: "(event_row seq ''pending'' ev2)\<lparr>a_hash := ev_hash ev4\<rparr> = stored_row ev4"
    by (simp add: ev4_def event_row_def stored_row_def payload_bytes_def)
  from assms obtain d1 d2 where
    1: "insert_audit io ev2 d = Inr (seq, d1)"
    and 2: "update_audit_hash io seq (ev_hash ev4) d1 = Inr ((), d2)"
    and 3: "(if kr \<noteq> None \<and> \<not> rec then record_epoch io seq else tx_return ()) d2 = Inr ((), d')"
    and ev: "ev = ev4"
    unfolding appendAuditTx_def Let_def tx_bind_Inr tx_query_Inr tx_return_Inr
      seq_def ev4_def ev2_def
    by (auto simp: insert_audit_Inr)
  from 1 have fresh: "int64 seq" "seq \<notin> a_seq ` set (db_audit d)"
    and d1: "d1 = d\<lparr>db_audit := db_audit d @ [event_row seq ''pending'' ev2], db_audit_seq := seq\<rparr>"
    unfolding insert_audit_Inr by blast+
  have "a_seq (event_row seq ''pending'' ev2) = seq" by (simp add: event_row_def)
  with 2 d1 have d2: "d2 = d\<lparr>db_audit := db_audit d @ [stored_row ev4], db_audit_seq := seq\<rparr>"
    by (simp add: update_audit_hash_Inr hash_update_last [OF fresh(2)] row)
  from 3 d2 have "d' = d\<lparr>db_audit := db_audit d @ [stored_row ev4], db_audit_seq := seq,
                  db_meta := epoch_meta kr rec seq (db_meta d)\<rparr>"
    by (auto simp: record_epoch_def tx_exec_Inr tx_return_Inr epoch_meta_def split: if_splits)
  with ev ev4 s4 fresh show ?thesis by simp
qed

section \<open>The audit invariant\<close>

text \<open>
  The rows are in increasing order of their sequence numbers, all positive and
  handed out; the walk of the verifier is clean; and a keying epoch is recorded only
  along with a keyed row.
\<close>

definition audit_inv :: "crypto \<Rightarrow> audit_keyring option \<Rightarrow> db \<Rightarrow> bool" where
  "audit_inv cr kr d \<longleftrightarrow>
     sorted_wrt (<) (map a_seq (db_audit d))
     \<and> (\<forall>r \<in> set (db_audit d). 0 < a_seq r \<and> a_seq r \<le> db_audit_seq d)
     \<and> 0 \<le> db_audit_seq d
     \<and> audit_clean cr kr d
     \<and> (audit_epoch d \<noteq> None \<longrightarrow> (\<exists>r \<in> set (db_audit d). \<not> is_unkeyed (a_key_id r)))
     \<and> (\<forall>k. kr = Some k \<longrightarrow> keyring_ok k)"

lemma audit_walk_sorted:
  assumes "sorted_wrt (<) (map a_seq (db_audit d))"
  shows "audit_walk d = map scan_event (db_audit d)"
proof -
  have "sorted (map a_seq (db_audit d))"
    using assms sorted_wrt_mono_rel [of "map a_seq (db_audit d)" "(<)" "(\<le>)"] by simp
  then show ?thesis by (simp add: audit_walk_def sort_key_id_if_sorted)
qed

lemma lastAuditHash_sorted:
  assumes "sorted_wrt (<) (map a_seq (db_audit d))"
  shows "lastAuditHash (db_audit d) = chain_head (map scan_event (db_audit d))"
proof -
  have "sort_key a_seq (db_audit d) = db_audit d"
    using assms sorted_wrt_mono_rel [of "map a_seq (db_audit d)" "(<)" "(\<le>)"]
    by (simp add: sort_key_id_if_sorted)
  then show ?thesis
    by (cases "db_audit d" rule: rev_cases)
       (simp_all add: lastAuditHash_def chain_head_def scan_event_def)
qed

lemma chain_clean_snoc:
  "chain_clean cr ks kf he sk p (xs @ [x]) \<longleftrightarrow>
     chain_clean cr ks kf he sk p xs
     \<and> row_clean cr ks kf he (sk \<or> (\<exists>y \<in> set xs. \<not> is_unkeyed (ev_key_id y)))
         (if xs = [] then p else ev_hash (last xs)) x"
  by (induction xs arbitrary: sk p) auto

lemma chain_clean_new_epoch:
  assumes "chain_clean cr ks kf False sk p evs" "\<forall>e \<in> set evs. ev_seq e < kf'"
  shows "chain_clean cr ks kf' True sk p evs"
  using assms by (induction evs arbitrary: sk p) (auto simp: row_clean_def)

lemma scan_stored:
  "scan_event (stored_row ev) =
     ev\<lparr>ev_ts := unix_nano (ev_ts ev), ev_payload := Some (payload_bytes ev)\<rparr>"
  by (simp add: scan_event_def stored_row_def event_row_def)

lemma mac_scan_stored: "macAuditEvent cr (scan_event (stored_row ev)) k = macAuditEvent cr ev k"
  by (simp add: scan_stored macAuditEvent_def mac_input_def payload_bytes_def unix_nano_def)

lemma mac_ignores_hash: "macAuditEvent cr (ev\<lparr>ev_hash := h\<rparr>) k = macAuditEvent cr ev k"
  by (simp add: macAuditEvent_def mac_input_def payload_bytes_def)

text \<open>The new row passes the check of the verifier.\<close>

lemma appended_row_clean:
  assumes "\<forall>k. kr = Some k \<longrightarrow> keyring_ok k"
    and "lastAuditHash (db_audit d) = prev"
  shows "row_clean cr (keys_of kr) kf he sk prev (scan_event (stored_row (appended_event cr io kr d ev0)))"
proof -
  let ?ev = "appended_event cr io kr d ev0"
  have fields: "ev_key_id ?ev = fst (signing_key kr)" "ev_prev_hash ?ev = prev"
    using assms(2) by (simp_all add: appended_event_def Let_def)
  have hash: "hex_decode (ev_hash ?ev) = Some (macAuditEvent cr ?ev (snd (signing_key kr)))"
    by (simp add: appended_event_def Let_def hashAuditEvent_def mac_ignores_hash)
  have key: "resolve_key (keys_of kr) (fst (signing_key kr)) = Some (snd (signing_key kr))
             \<and> (kr \<noteq> None \<longrightarrow> \<not> is_unkeyed (fst (signing_key kr)))"
    using assms(1) keyring_ok_active
    by (cases kr) (auto simp: signing_key_def resolve_key_def keys_of_def is_unkeyed_def)
  have scan: "ev_key_id (scan_event (stored_row ?ev)) = ev_key_id ?ev"
    "ev_prev_hash (scan_event (stored_row ?ev)) = ev_prev_hash ?ev"
    "ev_hash (scan_event (stored_row ?ev)) = ev_hash ?ev"
    by (simp_all add: scan_stored)
  show ?thesis using key by (auto simp: row_clean_def scan fields hash mac_scan_stored)
qed

lemma epoch_meta_cases:
  "audit_epoch (d\<lparr>db_meta := epoch_meta kr rec seq (db_meta d)\<rparr>) = audit_epoch d
   \<or> audit_epoch d = None \<and> kr \<noteq> None
     \<and> audit_epoch (d\<lparr>db_meta := epoch_meta kr rec seq (db_meta d)\<rparr>) = Some seq"
proof (cases "kr \<noteq> None \<and> \<not> rec \<and> auditMetaKeyedFromSeq \<notin> mt_k ` set (db_meta d)")
  case True
  then have "filter (\<lambda>m. mt_k m = auditMetaKeyedFromSeq) (db_meta d) = []"
    by (auto simp: filter_empty_conv image_iff)
  with True show ?thesis
    by (auto simp: audit_epoch_def epoch_meta_def sql_insert_ignore_def sql_row_def)
next
  case False
  then have "epoch_meta kr rec seq (db_meta d) = db_meta d"
    by (auto simp: epoch_meta_def sql_insert_ignore_def)
  then show ?thesis by simp
qed

lemma audit_epoch_cong: "db_meta d = db_meta d' \<Longrightarrow> audit_epoch d = audit_epoch d'"
  by (simp add: audit_epoch_def)

lemma audit_inv_cong:
  "db_audit d' = db_audit d \<Longrightarrow> db_audit_seq d' = db_audit_seq d \<Longrightarrow> db_meta d' = db_meta d \<Longrightarrow>
     audit_inv cr kr d' = audit_inv cr kr d"
  by (simp add: audit_inv_def audit_clean_def audit_walk_def audit_epoch_def)

lemma audit_inv_append:
  assumes inv: "audit_inv cr kr d" and app: "appendAuditTx cr io kr rec ev0 d = Inr (ev, d')"
  shows "audit_inv cr kr d'"
proof -
  let ?rows = "db_audit d" and ?new = "stored_row ev"
  have ev: "ev = appended_event cr io kr d ev0"
    and d': "d' = d\<lparr>db_audit := ?rows @ [?new], db_audit_seq := ev_seq ev,
                    db_meta := epoch_meta kr rec (ev_seq ev) (db_meta d)\<rparr>"
    using appendAuditTx_effect [OF app] by auto
  from inv have sorted: "sorted_wrt (<) (map a_seq ?rows)"
    and pos: "\<forall>r \<in> set ?rows. 0 < a_seq r \<and> a_seq r \<le> db_audit_seq d" "0 \<le> db_audit_seq d"
    and clean: "audit_clean cr kr d" and ok: "\<forall>k. kr = Some k \<longrightarrow> keyring_ok k"
    and ep: "audit_epoch d \<noteq> None \<longrightarrow> (\<exists>r \<in> set ?rows. \<not> is_unkeyed (a_key_id r))"
    by (auto simp: audit_inv_def)
  have seq: "a_seq ?new = ev_seq ev" "db_audit_seq d < ev_seq ev"
    by (simp_all add: stored_row_def event_row_def ev appended_event_def Let_def)
  have sorted': "sorted_wrt (<) (map a_seq (db_audit d'))"
    using sorted pos seq by (fastforce simp: d' sorted_wrt_append)
  have epoch: "audit_epoch d' = audit_epoch d \<or>
      audit_epoch d = None \<and> kr \<noteq> None \<and> audit_epoch d' = Some (ev_seq ev)"
    using epoch_meta_cases [of kr rec "ev_seq ev" d] audit_epoch_cong [of d' "d\<lparr>db_meta := db_meta d'\<rparr>"]
    by (auto simp: d' audit_epoch_def)
  have walk: "audit_walk d = map scan_event ?rows"
    "audit_walk d' = map scan_event ?rows @ [scan_event ?new]"
    using audit_walk_sorted [OF sorted] audit_walk_sorted [OF sorted'] by (simp_all add: d')
  have prev: "lastAuditHash ?rows = (if map scan_event ?rows = [] then genesisHash else ev_hash (last (map scan_event ?rows)))"
    using lastAuditHash_sorted [OF sorted] by (simp add: chain_head_def)
  note new = appended_row_clean [OF ok prev, where cr = cr and io = io and ?ev0.0 = ev0, folded ev]
  have "chain_clean cr (keys_of kr) (case audit_epoch d' of None \<Rightarrow> 0 | Some v \<Rightarrow> v)
          (audit_epoch d' \<noteq> None) False genesisHash (map scan_event ?rows)"
    using epoch
  proof
    assume "audit_epoch d' = audit_epoch d"
    then show ?thesis using clean walk by (simp add: audit_clean_def)
  next
    assume e: "audit_epoch d = None \<and> kr \<noteq> None \<and> audit_epoch d' = Some (ev_seq ev)"
    moreover have "\<forall>e \<in> set (map scan_event ?rows). ev_seq e < ev_seq ev"
      using pos seq by (force simp: scan_event_def)
    ultimately show ?thesis
      using clean walk chain_clean_new_epoch [of cr "keys_of kr" 0 False genesisHash]
      by (simp add: audit_clean_def)
  qed
  then have clean': "audit_clean cr kr d'"
    unfolding audit_clean_def walk(2) chain_clean_snoc using new by blast
  have ep': "audit_epoch d' \<noteq> None \<longrightarrow> (\<exists>r \<in> set (db_audit d'). \<not> is_unkeyed (a_key_id r))"
  proof (cases kr)
    case None
    then show ?thesis using epoch ep by (auto simp: d')
  next
    case (Some k)
    then have "\<not> is_unkeyed (a_key_id ?new)"
      using ok keyring_ok_active [of k]
      by (simp add: stored_row_def event_row_def ev appended_event_def Let_def signing_key_def is_unkeyed_def)
    then show ?thesis by (auto simp: d')
  qed
  have "\<forall>r \<in> set (db_audit d'). 0 < a_seq r \<and> a_seq r \<le> db_audit_seq d'" "0 \<le> db_audit_seq d'"
    using pos seq by (auto simp: d' dest: order_le_less_trans)
  with sorted' clean' ep' ok show ?thesis by (simp add: audit_inv_def)
qed

section \<open>The operations\<close>

definition store_audit_inv :: "crypto \<Rightarrow> store \<Rightarrow> bool" where
  "store_audit_inv cr s \<longleftrightarrow> audit_inv cr (st_keyring s) (st_db s)"

lemma auditCommitted_simps [simp]:
  "st_db (auditCommitted s) = st_db s"
  "st_keyring (auditCommitted s) = st_keyring s"
  "st_leader_enabled (auditCommitted s) = st_leader_enabled s"
  "st_is_leader (auditCommitted s) = st_is_leader s"
  "st_driver (auditCommitted s) = st_driver s"
  "st_once_pruned_at (auditCommitted s) = st_once_pruned_at s"
  "IsLeader (auditCommitted s) = IsLeader s"
  by (simp_all add: auditCommitted_def IsLeader_def)

lemma prune_once_simps [simp]:
  "st_keyring (prune_once io s) = st_keyring s"
  "IsLeader (prune_once io s) = IsLeader s"
  "db_audit (st_db (prune_once io s)) = db_audit (st_db s)"
  "db_audit_seq (st_db (prune_once io s)) = db_audit_seq (st_db s)"
  "db_meta (st_db (prune_once io s)) = db_meta (st_db s)"
  by (simp_all add: prune_once_def Let_def IsLeader_def)

text \<open>How \<^verbatim>\<open>AppendAudit\<close> can end: refused or failed with the store unchanged, or the row is in.\<close>

lemma AppendAudit_ends:
  assumes "AppendAudit cr io ev s = (r, s')"
  shows "(\<exists>e. r = Inl e) \<and> s' = s \<or>
         (\<exists>ev' d. append_tx cr io s ev (st_db s) = Inr (ev', d) \<and> st_db s' = d
                  \<and> st_keyring s' = st_keyring s \<and> IsLeader s' = IsLeader s
                  \<and> (r = Inr ev' \<or> r = Inl (ErrDB ''commit'') \<and> io_commit io = CommitLost))"
proof (cases "IsLeader s \<and> ev_kind ev \<noteq> []")
  case True
  obtain r1 s1 where run: "run_tx io (append_tx cr io s ev) s = (r1, s1)" by fastforce
  with assms True have "(r, s') = (case r1 of Inl e \<Rightarrow> (Inl e, s1) | Inr ev' \<Rightarrow> (Inr ev', auditCommitted s1))"
    by (simp add: AppendAudit_def split: sum.splits)
  with run_tx_ends [OF run] show ?thesis by (auto simp: IsLeader_def split: sum.splits)
next
  case False
  with assms show ?thesis by (auto simp: AppendAudit_def split: if_splits)
qed

lemma AppendAudit_inv:
  "store_audit_inv cr s \<Longrightarrow> AppendAudit cr io ev s = (r, s') \<Longrightarrow> store_audit_inv cr s'"
  using AppendAudit_ends [of cr io ev s r s'] audit_inv_append
  by (auto simp: store_audit_inv_def append_tx_def)

lemma append_once_tx_Inr:
  assumes "append_once_tx cr io s key ev d = Inr (x, d')"
  shows "(case sql_row (\<lambda>r. o_k r = key) (db_once d) of
            None \<Rightarrow> x = Inr True \<and> (\<exists>ev'. append_tx cr io s ev (d\<lparr>db_once := db_once d @
                [\<lparr>o_k = key, o_digest = once_digest cr ev, o_created_at = unix_nano (io_now io)\<rparr>]\<rparr>) = Inr (ev', d'))
          | Some row \<Rightarrow>
              if o_digest row = once_digest cr ev then x = Inl False \<and> d' = d
              else x = Inr False \<and> (\<exists>ev'. append_tx cr io s
                     (conflict_event key (o_digest row) (once_digest cr ev) ev) d = Inr (ev', d')))"
proof (cases "sql_row (\<lambda>r. o_k r = key) (db_once d)")
  case None
  then have "key \<notin> o_k ` set (db_once d)" by (auto simp: sql_row_None)
  with None assms show ?thesis
    by (auto simp: append_once_tx_def Let_def tx_bind_Inr tx_stmt_Inr tx_return_Inr sql_insert_ignore_def)
next
  case (Some row)
  then have "key \<in> o_k ` set (db_once d)" by (auto dest: sql_row_SomeD)
  with Some assms show ?thesis
    by (auto simp: append_once_tx_def Let_def tx_bind_Inr tx_stmt_Inr tx_return_Inr sql_insert_ignore_def
        split: if_splits)
qed

lemma AppendAuditOnce_ends:
  assumes "AppendAuditOnce cr io key ev s = (r, s')"
  shows "s' = s \<and> (\<forall>x. r = Inr x \<longrightarrow> (\<exists>d. append_once_tx cr io s key ev (st_db s) = Inr (Inl x, d))) \<or>
         (\<exists>x d. append_once_tx cr io s key ev (st_db s) = Inr (Inr x, d) \<and>
                (r = Inr x \<and> s' = (if x then prune_once io (auditCommitted (s\<lparr>st_db := d\<rparr>))
                                    else auditCommitted (s\<lparr>st_db := d\<rparr>)) \<or>
                 r = Inl (ErrDB ''commit'') \<and> io_commit io = CommitLost \<and> s' = s\<lparr>st_db := d\<rparr>))"
proof (cases "IsLeader s \<and> ev_kind ev \<noteq> [] \<and> key \<noteq> []")
  case True
  with assms have "run_tx_early io (append_once_tx cr io s key ev)
      (\<lambda>x s'. if x then prune_once io (auditCommitted s') else auditCommitted s') s = (r, s')"
    by (simp add: AppendAuditOnce_def)
  from run_tx_early_ends [OF this] show ?thesis by simp
next
  case False
  with assms show ?thesis by (auto simp: AppendAuditOnce_def split: if_splits)
qed

lemma append_once_tx_inv:
  assumes "store_audit_inv cr s" "append_once_tx cr io s key ev (st_db s) = Inr (x, d)"
  shows "audit_inv cr (st_keyring s) d"
proof -
  have "audit_inv cr (st_keyring s) (st_db s)" using assms(1) by (simp add: store_audit_inv_def)
  then have "audit_inv cr (st_keyring s) (st_db s\<lparr>db_once := t\<rparr>)" for t
    using audit_inv_cong [of "st_db s\<lparr>db_once := t\<rparr>" "st_db s"] by simp
  then show ?thesis
    using append_once_tx_Inr [OF assms(2)] audit_inv_append assms(1)
    by (fastforce simp: append_tx_def store_audit_inv_def split: option.splits if_splits)
qed

lemma AppendAuditOnce_inv:
  assumes "store_audit_inv cr s" "AppendAuditOnce cr io key ev s = (r, s')"
  shows "store_audit_inv cr s'"
proof -
  have pr: "audit_inv cr kr (st_db (prune_once io s2)) = audit_inv cr kr (st_db s2)" for kr s2
    by (rule audit_inv_cong) simp_all
  show ?thesis
    using AppendAuditOnce_ends [OF assms(2)] append_once_tx_inv [OF assms(1)] assms(1)
    by (auto simp: store_audit_inv_def pr)
qed

section \<open>Resending an event\<close>

text \<open>A client that resends the same event under the same key, whatever each attempt answered.\<close>

fun resend ::
  "crypto \<Rightarrow> string \<Rightarrow> audit_event \<Rightarrow> io list \<Rightarrow> store \<Rightarrow> (err + bool) list \<times> store" where
  "resend cr key ev [] s = ([], s)"
| "resend cr key ev (io # ios) s =
     (let (r, s1) = AppendAuditOnce cr io key ev s; (rs, s2) = resend cr key ev ios s1 in (r # rs, s2))"

text \<open>The key is not recorded yet, or it is, with the digest of the event and exactly one row appended.\<close>

definition once_recorded :: "crypto \<Rightarrow> string \<Rightarrow> audit_event \<Rightarrow> gotime \<Rightarrow> audit_row list \<Rightarrow> store \<Rightarrow> bool" where
  "once_recorded cr key ev t0 log s \<longleftrightarrow>
     (\<exists>t row. sql_row (\<lambda>r. o_k r = key) (db_once (st_db s)) =
                Some \<lparr>o_k = key, o_digest = once_digest cr ev, o_created_at = t\<rparr>
              \<and> t0 \<le> t \<and> db_audit (st_db s) = log @ [row]
              \<and> a_kind row = ev_kind ev \<and> a_actor row = ev_actor ev \<and> a_subject row = ev_subject ev
              \<and> a_decision row = ev_decision ev)"

definition once_fresh :: "string \<Rightarrow> audit_row list \<Rightarrow> store \<Rightarrow> bool" where
  "once_fresh key log s \<longleftrightarrow>
     sql_row (\<lambda>r. o_k r = key) (db_once (st_db s)) = None \<and> db_audit (st_db s) = log"

definition in_retention :: "gotime \<Rightarrow> io \<Rightarrow> bool" where
  "in_retention t0 io \<longleftrightarrow> t0 \<le> io_now io \<and> io_now io \<le> t0 + auditOnceRetention \<and> io_now io < 2 ^ 63"

lemma prune_keeps:
  assumes "sql_row P (db_once (st_db s)) = Some row" "t0 \<le> o_created_at row" "in_retention t0 io" "0 \<le> t0"
  shows "sql_row P (db_once (st_db (prune_once io s))) = Some row"
proof -
  have "int64 (io_now io - auditOnceRetention)"
    using assms(3,4) by (simp add: in_retention_def int64_def auditOnceRetention_def hour_def second_def)
  then have "\<not> o_created_at row < unix_nano (io_now io - auditOnceRetention)"
    using assms by (simp add: in_retention_def unix_nano_def)
  moreover have "sql_row P (sql_delete Q t) = Some row" if "sql_row P t = Some row" "\<not> Q row" for Q and t :: "once_row list"
    using that by (induction t) (auto simp: sql_row_def sql_delete_def split: if_splits)
  ultimately show ?thesis using assms(1) by (simp add: prune_once_def Let_def)
qed

lemma append_tx_rows:
  assumes "append_tx cr io s ev d = Inr (ev', d')"
  shows "\<exists>row. db_audit d' = db_audit d @ [row] \<and> a_kind row = ev_kind ev \<and> a_actor row = ev_actor ev
               \<and> a_subject row = ev_subject ev \<and> a_decision row = ev_decision ev"
    and "db_once d' = db_once d"
  using appendAuditTx_effect [OF assms [unfolded append_tx_def]]
  by (auto simp: stored_row_def event_row_def appended_event_def Let_def)

lemma once_step_fresh:
  assumes "once_fresh key log s" "AppendAuditOnce cr io key ev s = (r, s')" "in_retention t0 io" "0 \<le> t0"
  shows "once_fresh key log s' \<and> (\<exists>e. r = Inl e) \<or> once_recorded cr key ev t0 log s' \<and> r \<noteq> Inr False"
proof -
  let ?row = "\<lparr>o_k = key, o_digest = once_digest cr ev, o_created_at = unix_nano (io_now io)\<rparr>"
  have now: "unix_nano (io_now io) = io_now io" "t0 \<le> io_now io"
    using assms(3,4) by (simp_all add: in_retention_def unix_nano_def int64_def)
  have body: "x = Inr True \<and> (\<exists>ev'. append_tx cr io s ev (st_db s\<lparr>db_once := db_once (st_db s) @ [?row]\<rparr>) = Inr (ev', d))"
    if "append_once_tx cr io s key ev (st_db s) = Inr (x, d)" for x d
    using append_once_tx_Inr [OF that] assms(1) by (simp add: once_fresh_def)
  have rec: "once_recorded cr key ev t0 log s2" if b: "append_once_tx cr io s key ev (st_db s) = Inr (x, d)"
    and s2: "db_audit (st_db s2) = db_audit d"
    "sql_row (\<lambda>r. o_k r = key) (db_once d) = Some ?row \<Longrightarrow> sql_row (\<lambda>r. o_k r = key) (db_once (st_db s2)) = Some ?row" for x d s2
  proof -
    obtain ev' where a: "append_tx cr io s ev (st_db s\<lparr>db_once := db_once (st_db s) @ [?row]\<rparr>) = Inr (ev', d)"
      using body [OF b] by blast
    have "sql_row (\<lambda>r. o_k r = key) (db_once (st_db s) @ [?row]) = Some ?row"
      using assms(1) by (auto simp: once_fresh_def sql_row_def split: list.splits)
    then show ?thesis
      using append_tx_rows [OF a] s2 assms(1) now by (auto simp: once_recorded_def once_fresh_def)
  qed
  from AppendAuditOnce_ends [OF assms(2)] show ?thesis
  proof (elim disjE exE conjE)
    assume "s' = s" "\<forall>x. r = Inr x \<longrightarrow> (\<exists>d. append_once_tx cr io s key ev (st_db s) = Inr (Inl x, d))"
    then show ?thesis using body assms(1) by (cases r) auto
  next
    fix x d
    assume b: "append_once_tx cr io s key ev (st_db s) = Inr (Inr x, d)" and r: "r = Inr x"
      and s': "s' = (if x then prune_once io (auditCommitted (s\<lparr>st_db := d\<rparr>)) else auditCommitted (s\<lparr>st_db := d\<rparr>))"
    have "x" using body [OF b] by simp
    have "once_recorded cr key ev t0 log s'"
      by (rule rec [OF b]) (use s' \<open>x\<close> now assms(3,4) in \<open>simp_all add: prune_keeps [where ?t0.0 = t0]\<close>)
    then show ?thesis using r \<open>x\<close> by simp
  next
    fix x d
    assume b: "append_once_tx cr io s key ev (st_db s) = Inr (Inr x, d)"
      and "r = Inl (ErrDB ''commit'')" "s' = s\<lparr>st_db := d\<rparr>"
    then show ?thesis using rec [OF b, of s'] by simp
  qed
qed

lemma once_step_recorded:
  assumes "once_recorded cr key ev t0 log s" "AppendAuditOnce cr io key ev s = (r, s')"
  shows "s' = s \<and> (\<forall>x. r = Inr x \<longrightarrow> x = False)"
proof -
  have "x = Inl False" if "append_once_tx cr io s key ev (st_db s) = Inr (x, d)" for x d
    using append_once_tx_Inr [OF that] assms(1) by (auto simp: once_recorded_def)
  then show ?thesis using AppendAuditOnce_ends [OF assms(2)] by blast
qed

lemma resend_recorded:
  assumes "once_recorded cr key ev t0 log s" "resend cr key ev ios s = (rs, s')"
  shows "s' = s \<and> (\<forall>r \<in> set rs. r \<noteq> Inr True)"
  using assms(2)
proof (induction ios arbitrary: rs)
  case (Cons io ios)
  obtain r s1 where st: "AppendAuditOnce cr io key ev s = (r, s1)" by fastforce
  with Cons.prems once_step_recorded [OF assms(1) st] obtain rs1
    where "resend cr key ev ios s = (rs1, s')" "rs = r # rs1" "r \<noteq> Inr True"
    by (auto split: prod.splits)
  with Cons.IH show ?case by simp
qed simp

lemma resend_fresh:
  assumes "once_fresh key log s" "\<forall>io \<in> set ios. in_retention t0 io" "0 \<le> t0"
    and "resend cr key ev ios s = (rs, s')"
  shows "(once_fresh key log s' \<and> (\<forall>r \<in> set rs. \<exists>e. r = Inl e) \<or> once_recorded cr key ev t0 log s')
         \<and> length (filter (\<lambda>r. r = Inr True) rs) \<le> 1"
  using assms(1,2,4)
proof (induction ios arbitrary: s rs)
  case (Cons io ios)
  obtain r s1 where st: "AppendAuditOnce cr io key ev s = (r, s1)" by fastforce
  obtain rs1 where rest: "resend cr key ev ios s1 = (rs1, s')" and rs: "rs = r # rs1"
    using Cons.prems(3) st by (auto split: prod.splits)
  from once_step_fresh [OF Cons.prems(1) st _ assms(3)] Cons.prems(2) consider
    "once_fresh key log s1" "\<exists>e. r = Inl e" | "once_recorded cr key ev t0 log s1"
    by auto
  then show ?case
  proof cases
    case 1
    with Cons.IH [OF 1(1) _ rest] Cons.prems(2) rs show ?thesis by auto
  next
    case 2
    then have "filter (\<lambda>r. r = Inr True) rs1 = []" "s' = s1"
      using resend_recorded [OF 2 rest] by (auto simp: filter_empty_conv)
    with 2 rs show ?thesis by auto
  qed
qed auto

text \<open>
  C5. Resending is safe: a client sends the same event under the same unused key any
  number of times within the retention, and each attempt may fail anywhere,
  including a commit whose answer is lost.  The log ends up unchanged or with
  exactly one new row, the event; at most one attempt reports that it appended;
  and as soon as one attempt is answered without an error the row is there.
\<close>
theorem resend_exactly_once:
  assumes "once_fresh key log s" "\<forall>io \<in> set ios. in_retention t0 io" "0 \<le> t0"
    and "resend cr key ev ios s = (rs, s')"
  shows "(db_audit (st_db s') = log \<and> (\<forall>r \<in> set rs. \<exists>e. r = Inl e) \<or>
          (\<exists>row. db_audit (st_db s') = log @ [row] \<and> a_kind row = ev_kind ev \<and> a_actor row = ev_actor ev
                 \<and> a_subject row = ev_subject ev \<and> a_decision row = ev_decision ev))
         \<and> length (filter (\<lambda>r. r = Inr True) rs) \<le> 1"
  using resend_fresh [OF assms] by (auto simp: once_fresh_def once_recorded_def)

definition demo_lost :: io where
  "demo_lost = (demo_io 5)\<lparr>io_commit := CommitLost\<rparr>"

theorem resend_exactly_once_witness:
  "let s' = snd (resend demo_crypto ''k'' demo_event [demo_lost, demo_io 6] demo_empty);
       rs = fst (resend demo_crypto ''k'' demo_event [demo_lost, demo_io 6] demo_empty) in
   (db_audit (st_db s') = [] \<and> (\<forall>r \<in> set rs. \<exists>e. r = Inl e) \<or>
     (\<exists>row. db_audit (st_db s') = [] @ [row] \<and> a_kind row = ev_kind demo_event \<and> a_actor row = ev_actor demo_event
            \<and> a_subject row = ev_subject demo_event \<and> a_decision row = ev_decision demo_event))
   \<and> length (filter (\<lambda>r. r = Inr True) rs) \<le> 1"
proof -
  have "once_fresh ''k'' [] demo_empty"
    by (simp add: once_fresh_def sql_row_def demo_empty_def UseAuditKeyring_def open_store_def empty_db_def)
  moreover have "\<forall>io \<in> set [demo_lost, demo_io 6]. in_retention 5 io"
    by (simp add: in_retention_def demo_lost_def demo_io_def auditOnceRetention_def hour_def second_def)
  ultimately show ?thesis
    unfolding Let_def by (rule resend_exactly_once) (simp, rule prod.collapse [symmetric])
qed

section \<open>Changing the keyring\<close>

lemma chain_clean_unkeyed:
  "chain_clean cr None kf he sk p evs \<Longrightarrow> e \<in> set evs \<Longrightarrow> is_unkeyed (ev_key_id e)"
  by (induction evs arbitrary: sk p) (auto simp: row_clean_def resolve_key_def split: if_splits)

lemma chain_clean_attach:
  assumes "chain_clean cr None kf he sk p evs"
  shows "chain_clean cr ks kf' False False p evs"
  using assms
proof (induction evs arbitrary: sk p)
  case (Cons e evs)
  then have "is_unkeyed (ev_key_id e)" using chain_clean_unkeyed [of cr kf he sk p "e # evs" e] by simp
  with Cons show ?case by (auto simp: row_clean_def resolve_key_def)
qed simp

text \<open>A store that ran without a keyring can be given one.\<close>

lemma audit_inv_attach:
  assumes "audit_inv cr None d" "keyring_ok k"
  shows "audit_inv cr (Some k) d"
proof -
  have "chain_clean cr None (case audit_epoch d of None \<Rightarrow> 0 | Some v \<Rightarrow> v) (audit_epoch d \<noteq> None) False
          genesisHash (audit_walk d)"
    using assms(1) by (simp add: audit_inv_def audit_clean_def keys_of_def)
  then have all: "\<forall>e \<in> set (audit_walk d). is_unkeyed (ev_key_id e)"
    and clean: "chain_clean cr (keys_of (Some k)) 0 False False genesisHash (audit_walk d)"
    using chain_clean_unkeyed chain_clean_attach by blast+
  then have "audit_epoch d = None"
    using assms(1) by (auto simp: audit_inv_def audit_walk_def scan_event_def)
  with clean have "audit_clean cr (Some k) d" by (simp add: audit_clean_def)
  with assms show ?thesis by (simp add: audit_inv_def)
qed

text \<open>Every key of the old keyring is in the new one, with its secret.\<close>

definition keeps_secrets :: "audit_keyring \<Rightarrow> audit_keyring \<Rightarrow> bool" where
  "keeps_secrets k k' \<longleftrightarrow> list_all (\<lambda>(kid, _). map_of (kr_keys k') kid = map_of (kr_keys k) kid) (kr_keys k)"

lemma chain_clean_extend:
  assumes "keeps_secrets k k'" "chain_clean cr (keys_of (Some k)) kf he sk p evs"
  shows "chain_clean cr (keys_of (Some k')) kf he sk p evs"
  using assms(2)
proof (induction evs arbitrary: sk p)
  case (Cons e evs)
  have "map_of (kr_keys k') kid = Some key" if "map_of (kr_keys k) kid = Some key" for kid key
  proof -
    from that have "(kid, key) \<in> set (kr_keys k)" by (rule map_of_SomeD)
    with assms(1) have "map_of (kr_keys k') kid = map_of (kr_keys k) kid"
      by (auto simp: keeps_secrets_def list_all_iff)
    with that show ?thesis by simp
  qed
  then have "resolve_key (keys_of (Some k')) (ev_key_id e) = Some key"
    if "resolve_key (keys_of (Some k)) (ev_key_id e) = Some key" for key
    using that by (auto simp: resolve_key_def keys_of_def split: if_splits)
  with Cons show ?case by (auto simp: row_clean_def split: option.splits)
qed simp

lemma audit_inv_reload:
  assumes "audit_inv cr (Some k) d" "keyring_ok k'" "keeps_secrets k k'"
  shows "audit_inv cr (Some k') d"
  using assms chain_clean_extend [OF assms(3)] by (auto simp: audit_inv_def audit_clean_def)

text \<open>
  C8. A reload of the keyring either fails and leaves it as it was, or installs a
  valid keyring that still has every key id of the old one.
\<close>
theorem reload_keeps_key_ids:
  assumes "keyring_ok kr" "Reload w f kr = (r, kr')"
  shows "keyring_ok kr' \<and> kr_path kr' = kr_path kr \<and> (r \<noteq> None \<longrightarrow> kr' = kr)
         \<and> (\<forall>kid. lookup_key kr kid \<noteq> None \<longrightarrow> lookup_key kr' kid \<noteq> None)"
proof (cases r)
  case None
  then obtain i ks where kr': "kr' = kr\<lparr>kr_active_id := i, kr_keys := ks\<rparr>" "validateKeyset i ks = None"
    and ids: "\<forall>(kid, _) \<in> set (kr_keys kr). map_of ks kid \<noteq> None"
    using Reload_result [OF assms(2)] by auto
  have "lookup_key kr' kid \<noteq> None" if "lookup_key kr kid \<noteq> None" for kid
    using that ids kr' by (auto simp: lookup_key_def dest!: map_of_SomeD)
  with kr' None show ?thesis by (simp add: keyring_ok_def)
next
  case (Some e)
  with Reload_result [OF assms(2)] assms(1) show ?thesis by simp
qed

definition demo_keyfile :: keyring_file where
  "demo_keyfile = FileData 384 (Some (''k1'', [(''k1'', ''eHh4eHh4eHh4eHh4eHh4eA=='')]))"

theorem reload_keeps_key_ids_witness:
  "let kr' = snd (Reload False demo_keyfile demo_keyring) in
   keyring_ok kr' \<and> kr_path kr' = kr_path demo_keyring
   \<and> (fst (Reload False demo_keyfile demo_keyring) \<noteq> None \<longrightarrow> kr' = demo_keyring)
   \<and> (\<forall>kid. lookup_key demo_keyring kid \<noteq> None \<longrightarrow> lookup_key kr' kid \<noteq> None)"
proof -
  have "keyring_ok demo_keyring" by code_simp
  from reload_keeps_key_ids [OF this, of False demo_keyfile] show ?thesis
    by (metis prod.collapse)
qed

lemma chain_clean_row:
  "chain_clean cr ks kf he sk p evs \<Longrightarrow> e \<in> set evs \<Longrightarrow> \<exists>sk' p'. row_clean cr ks kf he sk' p' e"
  by (induction evs arbitrary: sk p) auto

lemma chain_clean_mac:
  "chain_clean cr keys kf he sk p evs \<Longrightarrow> ev \<in> set evs \<Longrightarrow>
     \<exists>key. resolve_key keys (ev_key_id ev) = Some key \<and> hex_decode (ev_hash ev) = Some (macAuditEvent cr ev key)"
  by (drule (1) chain_clean_row) (auto simp: row_clean_def split: option.splits)

text \<open>
  C12. What a reload does not check is the secrets.  Any file that reads and validates and
  has every key id of the keyring is accepted, whatever secrets it puts under those ids;
  and if it puts another secret under the key id of a row of a log that verified, under
  which that row has another MAC, the log is from then on reported as tampered with.
  Rows have no sequence number 0.
\<close>
theorem reload_replaces_secret:
  assumes fl: "kr_path kr \<noteq> []" "readKeyringFile w f = Inr (i, ks)" "validateKeyset i ks = None"
      "list_all (\<lambda>(kid, _). map_of ks kid \<noteq> None) (kr_keys kr)"
    and log: "st_keyring s = Some kr" "VerifyAudit cr io None s = Inr v" "av_valid v" "no_row_zero (st_db s)"
    and row: "ev \<in> set (audit_walk (st_db s))" "\<not> is_unkeyed (ev_key_id ev)"
      "lookup_key kr (ev_key_id ev) = Some k" "map_of ks (ev_key_id ev) = Some k'"
    and other: "macAuditEvent cr ev k \<noteq> macAuditEvent cr ev k'"
  shows "Reload w f kr = (None, kr\<lparr>kr_active_id := i, kr_keys := ks\<rparr>)
         \<and> (\<exists>v'. VerifyAudit cr io None (UseAuditKeyring (Some (snd (Reload w f kr))) s) = Inr v'
               \<and> \<not> av_valid v' \<and> av_first_bad_seq v' \<noteq> 0)"
proof -
  have r: "Reload w f kr = (None, kr\<lparr>kr_active_id := i, kr_keys := ks\<rparr>)" using fl by (simp add: Reload_def)
  let ?kr = "kr\<lparr>kr_active_id := i, kr_keys := ks\<rparr>"
  let ?s = "UseAuditKeyring (Some ?kr) s"
  have db: "st_db ?s = st_db s" "st_keyring ?s = Some ?kr" by (simp_all add: UseAuditKeyring_def)
  obtain v' where v': "VerifyAudit cr io None ?s = Inr v'"
    using log(1,2) db unfolding VerifyAudit_queries by auto
  have "audit_clean cr (Some kr) (st_db s)" using VerifyAudit_valid(1) [OF log(2,4)] log(1,3) by simp
  from chain_clean_mac [OF this [unfolded audit_clean_def] row(1)]
  have old: "hex_decode (ev_hash ev) = Some (macAuditEvent cr ev k)"
    using row(2,3) by (auto simp: resolve_key_def keys_of_def lookup_key_def)
  have "\<not> audit_clean cr (Some ?kr) (st_db s)"
    using chain_clean_mac [of cr "keys_of (Some ?kr)" _ _ _ _ _ ev] row old other
    by (fastforce simp: audit_clean_def resolve_key_def keys_of_def)
  then have bad: "\<not> av_valid v'" using VerifyAudit_valid(1) [OF v'] log(4) db by simp
  moreover from this have "av_first_bad_seq v' \<noteq> 0"
    using v' unfolding VerifyAudit_queries by (auto simp: verify_result_def Let_def)
  ultimately show ?thesis using r v' by simp
qed

theorem reload_replaces_secret_witness:
  "fst (Reload False demo_keyfile demo_keyring) = None
   \<and> (\<exists>v'. VerifyAudit demo_crypto (demo_io 7) None
             (UseAuditKeyring (Some (snd (Reload False demo_keyfile demo_keyring))) demo_log1) = Inr v'
         \<and> \<not> av_valid v' \<and> av_first_bad_seq v' \<noteq> 0)"
proof -
  let ?ks = "[(''k1'', ''xxxxxxxxxxxxxxxx'')]" and ?ev = "hd (audit_walk (st_db demo_log1))"
  have f: "kr_path demo_keyring \<noteq> []" "readKeyringFile False demo_keyfile = Inr (''k1'', ?ks)" "validateKeyset ''k1'' ?ks = None"
    "list_all (\<lambda>(kid, _). map_of ?ks kid \<noteq> None) (kr_keys demo_keyring)"
    by code_simp+
  have kr: "st_keyring demo_log1 = Some demo_keyring" by code_simp
  have nz: "no_row_zero (st_db demo_log1)" using demo_logs(3) by simp
  have "audit_walk (st_db demo_log1) \<noteq> []" by code_simp
  then have ev: "?ev \<in> set (audit_walk (st_db demo_log1))" by simp
  have row: "\<not> is_unkeyed (ev_key_id ?ev)" "lookup_key demo_keyring (ev_key_id ?ev) = Some ''0123456789abcdef''"
    "map_of ?ks (ev_key_id ?ev) = Some ''xxxxxxxxxxxxxxxx''"
    "macAuditEvent demo_crypto ?ev ''0123456789abcdef'' \<noteq> macAuditEvent demo_crypto ?ev ''xxxxxxxxxxxxxxxx''"
    by code_simp+
  have "av_valid \<lparr>av_valid = True, av_first_bad_seq = 0, av_truncated = False, av_count = 1, av_head_hash = ''3031317c357c''\<rparr>"
    by simp
  from reload_replaces_secret [OF f kr demo_logs(1) this nz ev row] show ?thesis by (metis fst_conv)
qed

lemma chain_clean_append:
  "chain_clean cr keys kf he sk p (xs @ ys) \<longleftrightarrow>
     chain_clean cr keys kf he sk p xs
     \<and> chain_clean cr keys kf he (sk \<or> (\<exists>x \<in> set xs. \<not> is_unkeyed (ev_key_id x))) (if xs = [] then p else ev_hash (last xs)) ys"
  by (induction xs arbitrary: sk p) (auto simp: disj_assoc)

lemma chain_clean_saw_less: "chain_clean cr keys kf he sk p evs \<Longrightarrow> chain_clean cr keys kf he False p evs"
proof (induction evs arbitrary: sk p)
  case (Cons ev evs)
  then show ?case by (cases "is_unkeyed (ev_key_id ev)") (auto simp: row_clean_def)
qed simp

text \<open>
  C10. The same hole defeats an anchor: from a log that verifies, whoever can write the
  database deletes any number of the oldest rows and puts one row with sequence number 0
  in their place that carries the hash of the last row deleted.  The log verifies against
  the checkpoint taken at that hash, HMAC keys included, as soon as at least as many rows
  are left as the checkpoint counts.
\<close>
theorem row_zero_hides_deletion:
  assumes v: "VerifyAudit cr io None s = Inr v" "av_valid v"
    and sorted: "sorted_wrt (<) (map a_seq (db_audit (st_db s)))" "\<forall>r \<in> set (db_audit (st_db s)). 0 < a_seq r"
    and rows: "db_audit (st_db s) = gone @ kept" "gone \<noteq> []"
    and z: "a_seq z = 0" "a_hash z = a_hash (last gone)" "is_unkeyed (a_key_id z)"
    and n: "n \<le> int (length kept) + 1"
  shows "\<exists>v'. VerifyAudit cr io (Some \<lparr>an_head_hash = a_hash (last gone), an_count = n\<rparr>)
                (s\<lparr>st_db := (st_db s)\<lparr>db_audit := z # kept\<rparr>\<rparr>) = Inr v' \<and> av_valid v'"
proof -
  define s' where "s' = s\<lparr>st_db := (st_db s)\<lparr>db_audit := z # kept\<rparr>\<rparr>"
  define an where "an = Some \<lparr>an_head_hash = a_hash (last gone), an_count = n\<rparr>"
  define kf where "kf = (if st_keyring s = None then 0 else case audit_epoch (st_db s) of None \<Rightarrow> 0 | Some e \<Rightarrow> e)"
  define he where "he = (st_keyring s \<noteq> None \<and> audit_epoch (st_db s) \<noteq> None)"
  let ?ks = "keys_of (st_keyring s)"
  have nz: "no_row_zero (st_db s)" using sorted(2) by (auto simp: no_row_zero_def list_all_iff)
  have walk: "audit_walk (st_db s) = map scan_event gone @ map scan_event kept"
    using audit_walk_sorted [OF sorted(1)] rows(1) by simp
  have s': "audit_walk (st_db s') = scan_event z # map scan_event kept" "audit_epoch (st_db s') = audit_epoch (st_db s)"
    "st_keyring s' = st_keyring s"
    using audit_walk_sorted [of "st_db s'"] sorted rows(1) z(1) by (simp_all add: s'_def sorted_wrt_append audit_epoch_def)
  have "vs_first_bad (verify_walk cr ?ks kf he None (audit_walk (st_db s)) (verify_init None)) = 0"
    using v unfolding VerifyAudit_queries kf_def he_def by (auto simp: verify_result_def Let_def)
  then have "chain_clean cr ?ks kf he False genesisHash (audit_walk (st_db s))"
    using verify_walk_iff [OF _ audit_walk_nonzero [OF nz]] by (simp add: verify_init_def)
  then have clean: "chain_clean cr ?ks kf he False (a_hash (last gone)) (map scan_event kept)"
    using rows(2) by (auto simp: walk chain_clean_append last_map scan_event_def [of "last gone"] intro: chain_clean_saw_less)
  define st where "st = verify_row cr ?ks kf he an (scan_event z) (verify_init an)"
  have st: "vs_first_bad st = 0" "vs_saw_keyed st = False" "vs_prev st = a_hash (last gone)" "vs_saw_anchor st" "vs_count st = 1"
    using z by (auto simp: st_def an_def verify_row_bad verify_init_def check_row_def scan_event_def split: option.splits)
  define w where "w = verify_walk cr ?ks kf he an (map scan_event kept) st"
  have "\<forall>ev \<in> set (map scan_event kept). ev_seq ev \<noteq> 0"
    using sorted(2) rows(1) by (simp add: scan_event_def) (metis UnI2 less_irrefl)
  then have w: "vs_first_bad w = 0" using verify_walk_iff [OF st(1)] clean st(2,3) by (simp add: w_def)
  have "verify_walk cr ?ks kf he an (audit_walk (st_db s')) (verify_init an) = w"
    using st(1) by (simp add: s'(1) Let_def w_def flip: st_def)
  then have "VerifyAudit cr io an s' = Inr (verify_result an w)"
    using v(1) unfolding VerifyAudit_queries s'(2,3) kf_def he_def by simp
  moreover have "av_valid (verify_result an w)"
    using w verify_walk_counts [OF w [unfolded w_def]] st(4,5) n by (simp add: verify_result_def Let_def an_def w_def)
  ultimately show ?thesis unfolding an_def s'_def by blast
qed

definition demo_zero :: audit_row where
  "demo_zero = demo_forged\<lparr>a_hash := ''3031317c357c''\<rparr>"

theorem row_zero_hides_deletion_witness:
  "\<exists>r1 r2 v'. db_audit (st_db demo_log2) = [r1, r2]
     \<and> VerifyAudit demo_crypto (demo_io 8) (Some \<lparr>an_head_hash = ''3031317c357c'', an_count = 1\<rparr>)
         (demo_log2\<lparr>st_db := (st_db demo_log2)\<lparr>db_audit := demo_zero # [r2]\<rparr>\<rparr>) = Inr v' \<and> av_valid v'"
proof -
  have ver: "case VerifyAudit demo_crypto (demo_io 8) None demo_log2 of Inl _ \<Rightarrow> False | Inr v \<Rightarrow> av_valid v"
    by code_simp
  then obtain v where v: "VerifyAudit demo_crypto (demo_io 8) None demo_log2 = Inr v" "av_valid v"
    by (auto split: sum.splits)
  have seqs: "sorted_wrt (<) (map a_seq (db_audit (st_db demo_log2)))" "\<forall>r \<in> set (db_audit (st_db demo_log2)). 0 < a_seq r"
    and head: "a_hash (hd (db_audit (st_db demo_log2))) = ''3031317c357c''" and len: "length (db_audit (st_db demo_log2)) = 2"
    by code_simp+
  from len obtain r1 r2 where rows: "db_audit (st_db demo_log2) = [r1] @ [r2]"
    by (auto simp: length_Suc_conv numeral_2_eq_2)
  have h: "a_hash (last [r1]) = ''3031317c357c''" using head by (simp add: rows)
  have "\<exists>v'. VerifyAudit demo_crypto (demo_io 8) (Some \<lparr>an_head_hash = a_hash (last [r1]), an_count = 1\<rparr>)
      (demo_log2\<lparr>st_db := (st_db demo_log2)\<lparr>db_audit := demo_zero # [r2]\<rparr>\<rparr>) = Inr v' \<and> av_valid v'"
    by (rule row_zero_hides_deletion [OF v seqs rows])
      (simp_all add: h [simplified] demo_zero_def demo_forged_def is_unkeyed_def keyIDUnkeyed_def)
  with rows h show ?thesis by simp
qed

text \<open>
  C2. An append extends a good log by exactly the event it returns: from a store whose
  log is well formed, a successful append leaves a log that verifies, one row
  longer, whose head is the hash returned and whose last row links to the old head.
\<close>
theorem append_extends_log:
  assumes inv: "audit_inv cr (st_keyring s) (st_db s)"
    and app: "AppendAudit cr io ev s = (Inr ev', s')"
    and ver: "VerifyAudit cr io' None s' = Inr v"
  shows "av_valid v \<and> av_count v = int (length (db_audit (st_db s))) + 1
         \<and> av_head_hash v = ev_hash ev'
         \<and> ev_prev_hash ev' = chain_head (audit_walk (st_db s))
         \<and> take (length (db_audit (st_db s))) (audit_walk (st_db s')) = audit_walk (st_db s)"
proof -
  have inv': "audit_inv cr (st_keyring s') (st_db s')"
    using AppendAudit_inv [of cr s io ev] inv app by (simp add: store_audit_inv_def)
  have "append_tx cr io s ev (st_db s) = Inr (ev', st_db s')"
    using AppendAudit_ends [OF app] by auto
  from appendAuditTx_effect [OF this [unfolded append_tx_def]]
  have ev': "ev' = appended_event cr io (st_keyring s) (st_db s) ev"
    and rows: "db_audit (st_db s') = db_audit (st_db s) @ [stored_row ev']" by auto
  have "sorted_wrt (<) (map a_seq (db_audit (st_db s)))" "sorted_wrt (<) (map a_seq (db_audit (st_db s')))"
    using inv inv' by (simp_all add: audit_inv_def)
  note walks = audit_walk_sorted [OF this(1)] audit_walk_sorted [OF this(2)] lastAuditHash_sorted [OF this(1)]
  have nz: "no_row_zero (st_db s')" using inv' by (auto simp: audit_inv_def no_row_zero_def list_all_iff)
  have "av_valid v" using VerifyAudit_valid(1) [OF ver nz] inv' by (simp add: audit_inv_def anchor_seen_def)
  moreover have "av_count v = int (length (db_audit (st_db s))) + 1"
    using VerifyAudit_valid(2) [OF ver nz \<open>av_valid v\<close>] by (simp add: walks rows)
  moreover have "av_head_hash v = ev_hash ev'"
    using VerifyAudit_valid(3) [OF ver nz \<open>av_valid v\<close>] by (simp add: walks rows chain_head_def scan_stored)
  moreover have "ev_prev_hash ev' = chain_head (audit_walk (st_db s))"
    by (simp add: ev' appended_event_def Let_def walks)
  ultimately show ?thesis by (simp add: walks rows)
qed

lemma demo_empty_inv: "audit_inv cr (st_keyring demo_empty) (st_db demo_empty)"
proof -
  have "keyring_ok demo_keyring" by code_simp
  then show ?thesis
    by (simp add: demo_empty_def UseAuditKeyring_def open_store_def empty_db_def audit_inv_def
        audit_clean_def audit_walk_def audit_epoch_def sql_row_def)
qed

theorem append_extends_log_witness:
  "\<exists>ev' (v :: audit_verification). AppendAudit demo_crypto (demo_io 5) demo_event demo_empty = (Inr ev', demo_log1)
     \<and> av_valid v \<and> av_count v = int (length (db_audit (st_db demo_empty))) + 1
     \<and> av_head_hash v = ev_hash ev'
     \<and> ev_prev_hash ev' = chain_head (audit_walk (st_db demo_empty))
     \<and> take (length (db_audit (st_db demo_empty))) (audit_walk (st_db demo_log1)) = audit_walk (st_db demo_empty)"
proof -
  have "case fst (AppendAudit demo_crypto (demo_io 5) demo_event demo_empty) of Inl _ \<Rightarrow> False | Inr _ \<Rightarrow> True"
    by code_simp
  then obtain ev' where a: "AppendAudit demo_crypto (demo_io 5) demo_event demo_empty = (Inr ev', demo_log1)"
    unfolding demo_log1_def by (cases "AppendAudit demo_crypto (demo_io 5) demo_event demo_empty") (auto split: sum.splits)
  show ?thesis
    by (rule exI, rule exI, rule conjI, rule a, rule append_extends_log [OF demo_empty_inv a demo_logs(1)])
qed

section \<open>The append as a write of the store\<close>

interpretation aa: db_write "\<lambda>io. AppendAudit cr io ev" "\<lambda>io s. append_tx cr io s ev" for cr ev
proof
  fix io s r s'
  assume "AppendAudit cr io ev s = (r, s')"
  then show "s' = s \<or> IsLeader s \<and> settings s' = settings s \<and> (\<exists>x. append_tx cr io s ev (st_db s) = Inr (x, st_db s'))
     \<and> (\<forall>e. r = Inl e \<longrightarrow> io_commit io = CommitLost)"
    by (auto simp: AppendAudit_def run_tx_def settings_def auditCommitted_def
        split: if_splits sum.splits commit_outcome.splits)
qed

text \<open>The tables other than the log.\<close>

definition org_tables ::
  "db \<Rightarrow> domain_row list \<times> admin_row list \<times> group_row list \<times> member_row list \<times> scim_user_row list
   \<times> scim_group_row list \<times> scim_member_row list" where
  "org_tables d = (db_domains d, db_admins d, db_groups d, db_members d, db_scim_users d, db_scim_groups d, db_scim_members d)"

definition log_tables :: "db \<Rightarrow> audit_row list \<times> int \<times> meta_row list" where
  "log_tables d = (db_audit d, db_audit_seq d, db_meta d)"

lemma append_tx_frame [tx_frames]:
  "tx_fixes org_tables (append_tx cr io s ev)" "tx_fixes db_policies (append_tx cr io s ev)"
  "tx_fixes db_cas (append_tx cr io s ev)" "tx_fixes db_bundle_seq (append_tx cr io s ev)"
  by (auto simp: tx_fixes_def append_tx_def org_tables_def dest!: appendAuditTx_effect)

lemma audit_inv_log: "log_tables d' = log_tables d \<Longrightarrow> audit_inv cr kr d' = audit_inv cr kr d"
  by (rule audit_inv_cong) (simp_all add: log_tables_def)

lemma append_tx_inv: "tx_keeps (audit_inv cr (st_keyring s)) (append_tx cr io s ev)"
  using audit_inv_append by (auto simp: tx_keeps_def append_tx_def)

end
