(* ===== verification/Domains.thy ===== *)
theory Domains
  imports AuditAppend
begin

text \<open>
  The domain tree of \<^verbatim>\<open>internal/server/storage/domains.go\<close>: names, parents,
  creating and deleting domains, and the administrators of a domain.  The invariant
  \<open>tree_inv\<close> says that the stored domains form a tree that follows their
  names and that grants, groups and memberships never outlive what they hang on.
\<close>

section \<open>Names\<close>

text \<open>The pattern shared by domain labels, group names and policy ids.\<close>

definition alnum_char :: "char \<Rightarrow> bool" where
  "alnum_char c \<longleftrightarrow> (CHR ''a'' \<le> c \<and> c \<le> CHR ''z'') \<or> (CHR ''0'' \<le> c \<and> c \<le> CHR ''9'')"

definition label_char :: "char \<Rightarrow> bool" where
  "label_char c \<longleftrightarrow> alnum_char c \<or> c = CHR ''_'' \<or> c = CHR ''-''"

definition domainLabel :: "string \<Rightarrow> bool" where
  "domainLabel l \<longleftrightarrow> l \<noteq> [] \<and> alnum_char (hd l) \<and> alnum_char (last l) \<and> list_all label_char l"

definition ValidateDomainName :: "string \<Rightarrow> err option" where
  "ValidateDomainName name =
     (if name = [] then Some (ErrInvalid ''domain name is required'')
      else if length name > 253 then Some (ErrInvalid ''domain name is longer than 253 characters'')
      else if \<not> list_all domainLabel (split_on CHR ''.'' name) then Some (ErrInvalid ''domain label'')
      else None)"

definition ParentOf :: "string \<Rightarrow> string" where
  "ParentOf name =
     (let i = last_index CHR ''.'' name in if i > 0 then take (nat i) name else [])"

fun dedupe_loop :: "string list \<Rightarrow> string list \<Rightarrow> string list" where
  "dedupe_loop out [] = out"
| "dedupe_loop out (v # vs) =
     (if v \<noteq> [] \<and> v \<notin> set out then dedupe_loop (out @ [v]) vs else dedupe_loop out vs)"

definition dedupe :: "string list \<Rightarrow> string list" where
  "dedupe xs = sort (dedupe_loop [] xs)"

section \<open>Operations\<close>

record domain =
  dom_name :: string
  dom_parent :: string
  dom_description :: string
  dom_admins :: "string list"
  dom_created_at :: gotime

text \<open>
  \<^verbatim>\<open>lockDomain\<close>.  A transaction runs alone here: SQLite takes the write lock at
  BEGIN, and on Postgres the row lock is what keeps the checked row in place.
\<close>

definition lockDomain :: "io \<Rightarrow> string \<Rightarrow> unit tx" where
  "lockDomain io name =
     tx_stmt io ''lock domain'' (\<lambda>d.
       if name \<in> d_name ` set (db_domains d) then Inr ((), d) else Inl ErrNotFound)"

fun insert_admins :: "io \<Rightarrow> string \<Rightarrow> string list \<Rightarrow> unit tx" where
  "insert_admins io dn [] = tx_return ()"
| "insert_admins io dn (a # as) =
     tx_bind (tx_stmt io ''insert admin'' (\<lambda>d.
       case sql_insert admin_key \<lparr>da_domain = dn, da_principal = a\<rparr> (db_admins d) of
         None \<Rightarrow> Inl (ErrDB ''insert admin'')
       | Some t \<Rightarrow> Inr ((), d\<lparr>db_admins := t\<rparr>))) (\<lambda>_.
     insert_admins io dn as)"

definition lock_parent :: "io \<Rightarrow> string \<Rightarrow> unit tx" where
  "lock_parent io parent d =
     (if parent = [] then Inr ((), d)
      else (case lockDomain io parent d of
              Inl e \<Rightarrow> Inl (if e = ErrNotFound then ErrParentNotFound parent else e)
            | Inr r \<Rightarrow> Inr r))"

definition insert_domain :: "io \<Rightarrow> domain \<Rightarrow> unit tx" where
  "insert_domain io dm =
     tx_stmt io ''insert domain'' (\<lambda>d.
       case sql_insert d_name \<lparr>d_name = dom_name dm, d_parent = dom_parent dm,
              d_description = dom_description dm, d_created_at = unix_nano (dom_created_at dm)\<rparr>
              (db_domains d) of
         None \<Rightarrow> Inl ErrAlreadyExists
       | Some t \<Rightarrow> Inr ((), d\<lparr>db_domains := t\<rparr>))"

definition create_domain_tx :: "io \<Rightarrow> domain \<Rightarrow> domain tx" where
  "create_domain_tx io dm =
     tx_bind (lock_parent io (dom_parent dm)) (\<lambda>_.
     tx_bind (tx_exec io ''clear admins'' (\<lambda>d.
       d\<lparr>db_admins := sql_delete (\<lambda>a. da_domain a = dom_name dm) (db_admins d)\<rparr>)) (\<lambda>_.
     tx_bind (insert_domain io dm) (\<lambda>_.
     tx_bind (insert_admins io (dom_name dm) (dom_admins dm)) (\<lambda>_.
     tx_return dm))))"

definition CreateDomain :: "io \<Rightarrow> domain \<Rightarrow> store \<Rightarrow> (err + domain) \<times> store" where
  "CreateDomain io dm s =
     (if \<not> IsLeader s then (Inl ErrNotLeader, s)
      else (case ValidateDomainName (dom_name dm) of
              Some e \<Rightarrow> (Inl e, s)
            | None \<Rightarrow>
                let parent = ParentOf (dom_name dm) in
                if dom_parent dm \<noteq> [] \<and> dom_parent dm \<noteq> parent
                then (Inl (ErrInvalid ''parent does not match the name''), s)
                else run_tx io (create_domain_tx io
                       (dm\<lparr>dom_parent := parent,
                           dom_created_at := (if is_zero_time (dom_created_at dm) then io_now io else dom_created_at dm),
                           dom_admins := dedupe (dom_admins dm)\<rparr>)) s))"

definition delete_domain_tx :: "io \<Rightarrow> string \<Rightarrow> unit tx" where
  "delete_domain_tx io name =
     tx_bind (lockDomain io name) (\<lambda>_.
     tx_bind (tx_query io ''count children'' (\<lambda>d. sql_count (\<lambda>r. d_parent r = name) (db_domains d))) (\<lambda>children.
     if children > 0 then tx_fail ErrHasChildren else
     tx_bind (tx_query io ''count groups'' (\<lambda>d. sql_count (\<lambda>r. g_domain r = name) (db_groups d))) (\<lambda>groups.
     if groups > 0 then tx_fail ErrHasGroups else
     tx_bind (tx_exec io ''delete domain'' (\<lambda>d.
       d\<lparr>db_domains := sql_delete (\<lambda>r. d_name r = name) (db_domains d)\<rparr>)) (\<lambda>_.
     tx_exec io ''delete admins'' (\<lambda>d.
       d\<lparr>db_admins := sql_delete (\<lambda>a. da_domain a = name) (db_admins d)\<rparr>)))))"

definition DeleteDomain :: "io \<Rightarrow> string \<Rightarrow> store \<Rightarrow> (err + unit) \<times> store" where
  "DeleteDomain io name s =
     (if \<not> IsLeader s then (Inl ErrNotLeader, s) else run_tx io (delete_domain_tx io name) s)"

definition add_admin_tx :: "io \<Rightarrow> string \<Rightarrow> string \<Rightarrow> bool tx" where
  "add_admin_tx io dn who =
     tx_bind (lockDomain io dn) (\<lambda>_.
     tx_stmt io ''insert admin'' (\<lambda>d.
       let (inserted, t) = sql_insert_ignore admin_key \<lparr>da_domain = dn, da_principal = who\<rparr> (db_admins d)
       in Inr (inserted, d\<lparr>db_admins := t\<rparr>)))"

definition AddDomainAdmin :: "io \<Rightarrow> string \<Rightarrow> string \<Rightarrow> store \<Rightarrow> (err + bool) \<times> store" where
  "AddDomainAdmin io dn who s =
     (if \<not> IsLeader s then (Inl ErrNotLeader, s) else run_tx io (add_admin_tx io dn who) s)"

definition RemoveDomainAdmin :: "io \<Rightarrow> string \<Rightarrow> string \<Rightarrow> store \<Rightarrow> (err + unit) \<times> store" where
  "RemoveDomainAdmin io dn who s =
     (if \<not> IsLeader s then (Inl ErrNotLeader, s)
      else (case run_exec io ''delete admin'' (\<lambda>d.
              let P = (\<lambda>a. da_domain a = dn \<and> da_principal a = who) in
              (sql_count P (db_admins d), d\<lparr>db_admins := sql_delete P (db_admins d)\<rparr>)) s of
              (Inl e, s') \<Rightarrow> (Inl e, s')
            | (Inr n, s') \<Rightarrow> (if n = 0 then Inl ErrNotFound else Inr (), s')))"

section \<open>Queries\<close>

text \<open>The Go map from domains to their administrators; a missing key reads as the empty list.\<close>

definition adminsByDomain :: "io \<Rightarrow> string \<Rightarrow> store \<Rightarrow> err + (string \<Rightarrow> string list)" where
  "adminsByDomain io dn s =
     run_query io ''query admins'' (\<lambda>d k.
       sort (map da_principal (filter (\<lambda>a. da_domain a = k \<and> (dn = [] \<or> da_domain a = dn)) (db_admins d)))) s"

definition AdminsOf :: "io \<Rightarrow> string list \<Rightarrow> store \<Rightarrow> err + (string \<Rightarrow> string list)" where
  "AdminsOf io names s =
     (if names = [] then Inr (\<lambda>_. [])
      else run_query io ''query admins'' (\<lambda>d k.
        map da_principal (filter (\<lambda>a. da_domain a = k \<and> da_domain a \<in> set names) (db_admins d))) s)"

definition scan_domain :: "domain_row \<Rightarrow> domain" where
  "scan_domain r =
     \<lparr>dom_name = d_name r, dom_parent = d_parent r, dom_description = d_description r,
      dom_admins = [], dom_created_at = d_created_at r\<rparr>"

definition GetDomain :: "io \<Rightarrow> string \<Rightarrow> store \<Rightarrow> err + domain" where
  "GetDomain io name s =
     (case run_query io ''query domain'' (\<lambda>d. sql_row (\<lambda>r. d_name r = name) (db_domains d)) s of
        Inl e \<Rightarrow> Inl e
      | Inr None \<Rightarrow> Inl ErrNotFound
      | Inr (Some r) \<Rightarrow>
          (case adminsByDomain io name s of
             Inl e \<Rightarrow> Inl e
           | Inr admins \<Rightarrow> Inr ((scan_domain r)\<lparr>dom_admins := admins name\<rparr>)))"

definition ListDomains :: "io \<Rightarrow> store \<Rightarrow> err + domain list" where
  "ListDomains io s =
     (case run_query io ''query domains'' (\<lambda>d. map scan_domain (sort_key d_name (db_domains d))) s of
        Inl e \<Rightarrow> Inl e
      | Inr ds \<Rightarrow>
          (case adminsByDomain io [] s of
             Inl e \<Rightarrow> Inl e
           | Inr admins \<Rightarrow> Inr (map (\<lambda>dm. dm\<lparr>dom_admins := admins (dom_name dm)\<rparr>) ds)))"

section \<open>Names and their ancestors\<close>

lemma join_with_snoc: "xss \<noteq> [] \<Longrightarrow> join_with c (xss @ [xs]) = join_with c xss @ c # xs"
  by (induction c xss rule: join_with.induct) auto

lemma join_with_ne: "xss \<noteq> [] \<Longrightarrow> hd xss \<noteq> [] \<Longrightarrow> join_with c xss \<noteq> []"
  by (cases xss rule: remdups_adj.cases) auto

text \<open>The labels of the parent are those of the name without the last one.\<close>

lemma ParentOf_labels:
  assumes "list_all domainLabel (split_on CHR ''.'' name)"
  shows "ParentOf name = join_with CHR ''.'' (butlast (split_on CHR ''.'' name))"
proof -
  obtain ls l where ls: "split_on CHR ''.'' name = ls @ [l]"
    by (metis append_butlast_last_id split_on_ne)
  then have l: "CHR ''.'' \<notin> set l" using split_on_no_sep [of l "CHR ''.''" name] by simp
  have name: "name = join_with CHR ''.'' (ls @ [l])" using join_split [of "CHR ''.''" name] ls by simp
  show ?thesis
  proof (cases "ls = []")
    case True
    then have "last_index CHR ''.'' name = - 1" using name l by (simp add: last_index_absent)
    then show ?thesis using ls True by (simp add: ParentOf_def)
  next
    case False
    then have "hd ls \<noteq> []" using assms ls by (cases ls) (auto simp: domainLabel_def)
    then have "join_with CHR ''.'' ls \<noteq> []" using False by (rule join_with_ne [rotated])
    moreover have "name = join_with CHR ''.'' ls @ CHR ''.'' # l"
      using name False by (simp add: join_with_snoc)
    ultimately show ?thesis
      using ls last_index_append_sep [OF l, of "join_with CHR ''.'' ls"] by (simp add: ParentOf_def)
  qed
qed

lemma ValidateDomainName_None:
  "ValidateDomainName name = None \<longleftrightarrow>
     name \<noteq> [] \<and> length name \<le> 253 \<and> list_all domainLabel (split_on CHR ''.'' name)"
  by (auto simp: ValidateDomainName_def)

lemma ParentOf_shorter: "name \<noteq> [] \<Longrightarrow> length (ParentOf name) < length name"
  using last_index_less [of "CHR ''.''" name] by (auto simp: ParentOf_def Let_def)

lemma dedupe_loop_set:
  "set (dedupe_loop out xs) = set out \<union> (set xs - {[]})"
  "distinct out \<Longrightarrow> distinct (dedupe_loop out xs)"
  by (induction out xs rule: dedupe_loop.induct) auto

lemma dedupe_props [simp]: "set (dedupe xs) = set xs - {[]}" "distinct (dedupe xs)" "sorted (dedupe xs)"
  by (simp_all add: dedupe_def dedupe_loop_set)

section \<open>The domain invariant\<close>

definition domain_inv :: "db \<Rightarrow> bool" where
  "domain_inv d \<longleftrightarrow>
     keyed d_name (db_domains d)
     \<and> (\<forall>r \<in> set (db_domains d). ValidateDomainName (d_name r) = None \<and> d_parent r = ParentOf (d_name r)
          \<and> (ParentOf (d_name r) \<noteq> [] \<longrightarrow> ParentOf (d_name r) \<in> d_name ` set (db_domains d)))
     \<and> keyed admin_key (db_admins d)
     \<and> (\<forall>a \<in> set (db_admins d). da_domain a \<in> d_name ` set (db_domains d))
     \<and> keyed group_key (db_groups d)
     \<and> (\<forall>g \<in> set (db_groups d). g_domain g \<in> d_name ` set (db_domains d))
     \<and> keyed member_key (db_members d)
     \<and> (\<forall>m \<in> set (db_members d). (m_domain m, m_grp m) \<in> group_key ` set (db_groups d))"

lemma domain_inv_cong:
  "db_domains d' = db_domains d \<Longrightarrow> db_admins d' = db_admins d \<Longrightarrow> db_groups d' = db_groups d \<Longrightarrow>
   db_members d' = db_members d \<Longrightarrow> domain_inv d' = domain_inv d"
  by (simp add: domain_inv_def)

lemma lockDomain_Inr [tx_simps]:
  "lockDomain io name d = Inr (u, d') \<longleftrightarrow>
     \<not> io_fails io ''lock domain'' \<and> name \<in> d_name ` set (db_domains d) \<and> d' = d"
  by (auto simp: lockDomain_def tx_stmt_def)

lemma lock_parent_Inr [tx_simps]:
  "lock_parent io p d = Inr (u, d') \<longleftrightarrow>
     (p \<noteq> [] \<longrightarrow> \<not> io_fails io ''lock domain'' \<and> p \<in> d_name ` set (db_domains d)) \<and> d' = d"
  by (auto simp: lock_parent_def lockDomain_def tx_stmt_def)

lemma insert_admins_Inr:
  assumes "insert_admins io dn as d = Inr (u, d')"
  shows "d' = d\<lparr>db_admins := db_admins d @ map (\<lambda>a. \<lparr>da_domain = dn, da_principal = a\<rparr>) as\<rparr>
         \<and> (keyed admin_key (db_admins d) \<longrightarrow> keyed admin_key (db_admins d'))"
  using assms
proof (induction as arbitrary: d)
  case (Cons a as)
  then obtain t where t: "sql_insert admin_key \<lparr>da_domain = dn, da_principal = a\<rparr> (db_admins d) = Some t"
    and rest: "insert_admins io dn as (d\<lparr>db_admins := t\<rparr>) = Inr (u, d')"
    by (auto simp: tx_bind_Inr tx_stmt_Inr split: option.splits)
  from Cons.IH [OF rest] t keyed_insert [OF _ t] show ?case by (auto simp: sql_insert_Some)
qed (simp add: tx_return_Inr)

definition domain_row_of :: "domain \<Rightarrow> domain_row" where
  "domain_row_of dm = \<lparr>d_name = dom_name dm, d_parent = dom_parent dm,
     d_description = dom_description dm, d_created_at = unix_nano (dom_created_at dm)\<rparr>"

lemma create_domain_tx_Inr:
  assumes "create_domain_tx io dm d = Inr (r, d')"
  shows "r = dm \<and> (dom_parent dm \<noteq> [] \<longrightarrow> dom_parent dm \<in> d_name ` set (db_domains d))
         \<and> dom_name dm \<notin> d_name ` set (db_domains d)
         \<and> d' = d\<lparr>db_domains := db_domains d @ [domain_row_of dm],
                  db_admins := sql_delete (\<lambda>a. da_domain a = dom_name dm) (db_admins d) @
                    map (\<lambda>a. \<lparr>da_domain = dom_name dm, da_principal = a\<rparr>) (dom_admins dm)\<rparr>
         \<and> (keyed admin_key (db_admins d) \<longrightarrow> keyed admin_key (db_admins d'))"
proof -
  let ?d1 = "d\<lparr>db_admins := sql_delete (\<lambda>a. da_domain a = dom_name dm) (db_admins d)\<rparr>"
  from assms obtain d2 where r: "r = dm"
    and p: "dom_parent dm \<noteq> [] \<longrightarrow> dom_parent dm \<in> d_name ` set (db_domains d)"
    and ins: "insert_domain io dm ?d1 = Inr ((), d2)"
    and adm: "insert_admins io (dom_name dm) (dom_admins dm) d2 = Inr ((), d')"
    by (auto simp: create_domain_tx_def tx_bind_Inr tx_exec_Inr tx_return_Inr lock_parent_Inr)
  from ins have fresh: "dom_name dm \<notin> d_name ` set (db_domains d)"
    and d2: "d2 = ?d1\<lparr>db_domains := db_domains d @ [domain_row_of dm]\<rparr>"
    by (auto simp: insert_domain_def tx_stmt_Inr sql_insert_Some domain_row_of_def split: option.splits)
  from insert_admins_Inr [OF adm] r p fresh show ?thesis by (auto simp: d2 keyed_delete)
qed

lemma create_domain_inv:
  assumes inv: "domain_inv d" and tx: "create_domain_tx io dm d = Inr (r, d')"
    and ok: "ValidateDomainName (dom_name dm) = None" "dom_parent dm = ParentOf (dom_name dm)"
  shows "domain_inv d'"
proof -
  have p: "dom_parent dm \<noteq> [] \<longrightarrow> dom_parent dm \<in> d_name ` set (db_domains d)"
    and fresh: "dom_name dm \<notin> d_name ` set (db_domains d)"
    and d': "d' = d\<lparr>db_domains := db_domains d @ [domain_row_of dm],
                  db_admins := sql_delete (\<lambda>a. da_domain a = dom_name dm) (db_admins d) @
                    map (\<lambda>a. \<lparr>da_domain = dom_name dm, da_principal = a\<rparr>) (dom_admins dm)\<rparr>"
    and k: "keyed admin_key (db_admins d')"
    using create_domain_tx_Inr [OF tx] inv by (auto simp: domain_inv_def)
  have "keyed d_name (db_domains d')"
    using inv fresh by (auto simp: d' domain_inv_def domain_row_of_def intro: keyed_snoc)
  with inv p k ok show ?thesis
    unfolding domain_inv_def by (auto simp: d' domain_row_of_def sql_delete_def)
qed

lemma delete_domain_tx_Inr:
  assumes "delete_domain_tx io name d = Inr (u, d')"
  shows "name \<in> d_name ` set (db_domains d)
         \<and> (\<forall>r \<in> set (db_domains d). d_parent r \<noteq> name) \<and> (\<forall>g \<in> set (db_groups d). g_domain g \<noteq> name)
         \<and> d' = d\<lparr>db_domains := sql_delete (\<lambda>r. d_name r = name) (db_domains d),
                  db_admins := sql_delete (\<lambda>a. da_domain a = name) (db_admins d)\<rparr>"
  using assms
  by (auto simp: delete_domain_tx_def tx_simps table_simps split: if_splits)

lemma delete_domain_inv:
  assumes inv: "domain_inv d" and tx: "delete_domain_tx io name d = Inr (u, d')"
  shows "domain_inv d'"
proof -
  note del = delete_domain_tx_Inr [OF tx]
  then have d': "d' = d\<lparr>db_domains := sql_delete (\<lambda>r. d_name r = name) (db_domains d),
                  db_admins := sql_delete (\<lambda>a. da_domain a = name) (db_admins d)\<rparr>" by blast
  have img: "d_name ` set (db_domains d') = d_name ` set (db_domains d) - {name}"
    by (auto simp: d' set_sql_delete)
  have sub: "set (db_domains d') \<subseteq> set (db_domains d)" "set (db_admins d') \<subseteq> set (db_admins d) - {a. da_domain a = name}"
    "db_groups d' = db_groups d" "db_members d' = db_members d"
    by (auto simp: d' set_sql_delete)
  have keys: "keyed d_name (db_domains d')" "keyed admin_key (db_admins d')"
    using inv by (simp_all add: d' domain_inv_def keyed_delete)
  show ?thesis
    using inv del keys sub(1,2) unfolding domain_inv_def img sub(3,4) by (intro conjI ballI) blast+
qed

lemma domain_inv_admins:
  "domain_inv d \<Longrightarrow> keyed admin_key t \<Longrightarrow> \<forall>a \<in> set t. da_domain a \<in> d_name ` set (db_domains d) \<Longrightarrow>
     domain_inv (d\<lparr>db_admins := t\<rparr>)"
  by (simp add: domain_inv_def)

lemma add_admin_inv: "tx_keeps domain_inv (add_admin_tx io dn who)"
proof -
  have "domain_inv (d\<lparr>db_admins := snd (sql_insert_ignore admin_key \<lparr>da_domain = dn, da_principal = who\<rparr> (db_admins d))\<rparr>)"
    if "domain_inv d" "dn \<in> d_name ` set (db_domains d)" for d
    using that by (intro domain_inv_admins) (auto simp: domain_inv_def keyed_insert_ignore snd_sql_insert_ignore)
  then show ?thesis
    by (auto simp: tx_keeps_def add_admin_tx_def tx_bind_Inr tx_stmt_Inr lockDomain_Inr case_prod_beta)
qed

lemma remove_admin_inv:
  "domain_inv d \<Longrightarrow> domain_inv (d\<lparr>db_admins := sql_delete P (db_admins d)\<rparr>)"
  by (intro domain_inv_admins) (auto simp: domain_inv_def set_sql_delete keyed_delete)

lemma CreateDomain_inv:
  assumes "domain_inv (st_db s)" "CreateDomain io dm s = (r, s')"
  shows "domain_inv (st_db s')"
proof (cases "IsLeader s \<and> ValidateDomainName (dom_name dm) = None
    \<and> (dom_parent dm = [] \<or> dom_parent dm = ParentOf (dom_name dm))")
  case True
  let ?dm = "dm\<lparr>dom_parent := ParentOf (dom_name dm),
     dom_created_at := (if is_zero_time (dom_created_at dm) then io_now io else dom_created_at dm),
     dom_admins := dedupe (dom_admins dm)\<rparr>"
  have run: "run_tx io (create_domain_tx io ?dm) s = (r, s')"
    using assms(2) True by (auto simp: CreateDomain_def Let_def)
  have "tx_keeps domain_inv (create_domain_tx io ?dm)"
    using create_domain_inv [of _ io ?dm] True by (simp add: tx_keeps_def)
  from run_tx_keeps [OF this assms(1) run] show ?thesis .
next
  case False
  with assms show ?thesis by (auto simp: CreateDomain_def Let_def split: if_splits option.splits)
qed

lemma DeleteDomain_inv:
  "domain_inv (st_db s) \<Longrightarrow> DeleteDomain io name s = (r, s') \<Longrightarrow> domain_inv (st_db s')"
  using run_tx_keeps [of domain_inv "delete_domain_tx io name" s io r s'] delete_domain_inv [of _ io name]
  by (auto simp: DeleteDomain_def tx_keeps_def split: if_splits)

lemma AddDomainAdmin_inv:
  "domain_inv (st_db s) \<Longrightarrow> AddDomainAdmin io dn who s = (r, s') \<Longrightarrow> domain_inv (st_db s')"
  using run_tx_keeps [OF add_admin_inv] by (auto simp: AddDomainAdmin_def split: if_splits)

lemma RemoveDomainAdmin_ends:
  assumes "RemoveDomainAdmin io dn who s = (r, s')"
  shows "s' = s \<or> s' = s\<lparr>st_db := (st_db s)\<lparr>db_admins :=
           sql_delete (\<lambda>a. da_domain a = dn \<and> da_principal a = who) (db_admins (st_db s))\<rparr>\<rparr>"
  using assms
  by (auto simp: RemoveDomainAdmin_def run_exec_def Let_def split: if_splits sum.splits prod.splits)

lemma RemoveDomainAdmin_inv:
  "domain_inv (st_db s) \<Longrightarrow> RemoveDomainAdmin io dn who s = (r, s') \<Longrightarrow> domain_inv (st_db s')"
  using RemoveDomainAdmin_ends [of io dn who s r s'] remove_admin_inv by auto

section \<open>The tree\<close>

text \<open>
  C13. The stored domains are a tree that follows their names: in a store that satisfies the
  domain invariant, every proper prefix of the labels of a stored domain is itself
  a stored domain.
\<close>
theorem ancestors_exist:
  assumes inv: "domain_inv d" and r: "r \<in> set (db_domains d)"
    and ls: "split_on CHR ''.'' (d_name r) = ls @ ms" "ls \<noteq> []"
  shows "join_with CHR ''.'' ls \<in> d_name ` set (db_domains d)"
  using r ls(1)
proof (induction ms arbitrary: r rule: rev_induct)
  case Nil
  then have "join_with CHR ''.'' ls = d_name r" using join_split [of "CHR ''.''" "d_name r"] by simp
  with Nil show ?case by simp
next
  case (snoc m ms)
  have labels: "list_all domainLabel (split_on CHR ''.'' (d_name r))"
    and parent: "d_parent r = ParentOf (d_name r)"
      "ParentOf (d_name r) \<noteq> [] \<longrightarrow> ParentOf (d_name r) \<in> d_name ` set (db_domains d)"
    using inv snoc.prems(1) by (auto simp: domain_inv_def ValidateDomainName_None)
  have p: "d_parent r = join_with CHR ''.'' (ls @ ms)"
    using ParentOf_labels [OF labels] parent(1) snoc.prems(2) by (simp add: butlast_append)
  have "hd (ls @ ms) \<noteq> []" using labels snoc.prems(2) ls(2) by (cases ls) (auto simp: domainLabel_def)
  then have "d_parent r \<noteq> []" using p ls(2) join_with_ne [of "ls @ ms"] by simp
  then obtain q where q: "q \<in> set (db_domains d)" "d_name q = d_parent r" using parent by auto
  have "\<forall>xs \<in> set (ls @ ms). CHR ''.'' \<notin> set xs"
    using snoc.prems(2) split_on_no_sep [of _ "CHR ''.''" "d_name r"] by auto
  then have "split_on CHR ''.'' (d_name q) = ls @ ms" using q p ls(2) by (simp add: split_join)
  with snoc.IH q show ?case by blast
qed

definition demo_domain_row :: "string \<Rightarrow> string \<Rightarrow> domain_row" where
  "demo_domain_row name parent = \<lparr>d_name = name, d_parent = parent, d_description = [], d_created_at = 1\<rparr>"

definition demo_tree :: db where
  "demo_tree = empty_db\<lparr>db_domains := [demo_domain_row ''media'' [], demo_domain_row ''media.news'' ''media'']\<rparr>"

theorem ancestors_exist_witness:
  "join_with CHR ''.'' [''media''] \<in> d_name ` set (db_domains demo_tree)"
proof (rule ancestors_exist [of _ "demo_domain_row ''media.news'' ''media''" _ "[''news'']"])
  show "domain_inv demo_tree" by code_simp
qed (simp_all add: demo_tree_def demo_domain_row_def)

text \<open>
  C14. Creating a domain and reading it back gives the domain the create returned:
  the parent its name implies, and its administrators without duplicates and empty
  names, in order.
\<close>
theorem create_get_domain:
  assumes "CreateDomain io dm s = (Inr dm', s')"
    and "\<not> io_fails io' ''query domain''" "\<not> io_fails io' ''query admins''"
  shows "GetDomain io' (dom_name dm) s' = Inr (dm'\<lparr>dom_created_at := unix_nano (dom_created_at dm')\<rparr>)
         \<and> dom_name dm' = dom_name dm \<and> dom_parent dm' = ParentOf (dom_name dm)
         \<and> dom_description dm' = dom_description dm
         \<and> set (dom_admins dm') = set (dom_admins dm) - {[]} \<and> sorted (dom_admins dm') \<and> distinct (dom_admins dm')"
proof -
  let ?dm = "dm\<lparr>dom_parent := ParentOf (dom_name dm),
     dom_created_at := (if is_zero_time (dom_created_at dm) then io_now io else dom_created_at dm),
     dom_admins := dedupe (dom_admins dm)\<rparr>"
  have "run_tx io (create_domain_tx io ?dm) s = (Inr dm', s')"
    using assms(1) by (auto simp: CreateDomain_def Let_def split: if_splits option.splits)
  then have tx: "create_domain_tx io ?dm (st_db s) = Inr (dm', st_db s')"
    by (auto simp: run_tx_Inr)
  from create_domain_tx_Inr [OF tx] have dm': "dm' = ?dm"
    and fresh: "dom_name dm \<notin> d_name ` set (db_domains (st_db s))"
    and doms: "db_domains (st_db s') = db_domains (st_db s) @ [domain_row_of ?dm]"
    and adms: "db_admins (st_db s') = sql_delete (\<lambda>a. da_domain a = dom_name dm) (db_admins (st_db s)) @
                    map (\<lambda>a. \<lparr>da_domain = dom_name dm, da_principal = a\<rparr>) (dedupe (dom_admins dm))"
    by (simp_all only: domain.simps surjective) auto
  have "filter (\<lambda>r. d_name r = dom_name dm) (db_domains (st_db s)) = []"
    using fresh by (auto simp: filter_empty_conv image_iff)
  then have row: "sql_row (\<lambda>r. d_name r = dom_name dm) (db_domains (st_db s')) = Some (domain_row_of ?dm)"
    by (simp add: sql_row_def doms domain_row_of_def)
  have "filter (\<lambda>a. da_domain a = dom_name dm) (db_admins (st_db s')) =
          map (\<lambda>a. \<lparr>da_domain = dom_name dm, da_principal = a\<rparr>) (dedupe (dom_admins dm))"
    by (simp add: adms sql_delete_def filter_map comp_def)
  then have adm: "adminsByDomain io' (dom_name dm) s' =
      Inr (\<lambda>k. if k = dom_name dm then dedupe (dom_admins dm) else [])" if "dom_name dm \<noteq> []"
    using assms(3) that by (auto simp: adminsByDomain_def run_query_def comp_def sorted_sort_id fun_eq_iff
        filter_empty_conv cong: filter_cong)
  have "dom_name dm \<noteq> []"
    using assms(1) by (auto simp: CreateDomain_def ValidateDomainName_def split: if_splits)
  then have "GetDomain io' (dom_name dm) s' = Inr (?dm\<lparr>dom_created_at := unix_nano (dom_created_at ?dm)\<rparr>)"
    using assms(2) row adm by (simp add: GetDomain_def run_query_def scan_domain_def domain_row_of_def)
  then show ?thesis using dm' by simp
qed

definition demo_domain :: domain where
  "demo_domain = \<lparr>dom_name = ''media'', dom_parent = [], dom_description = ''m'',
     dom_admins = [''bob'', ''alice'', ''bob''], dom_created_at = zero_time\<rparr>"

theorem create_get_domain_witness:
  "\<exists>dm' s'. CreateDomain (demo_io 5) demo_domain demo_empty = (Inr dm', s')
     \<and> GetDomain (demo_io 6) (dom_name demo_domain) s' = Inr (dm'\<lparr>dom_created_at := unix_nano (dom_created_at dm')\<rparr>)
     \<and> dom_name dm' = dom_name demo_domain \<and> dom_parent dm' = ParentOf (dom_name demo_domain)
     \<and> dom_description dm' = dom_description demo_domain
     \<and> set (dom_admins dm') = set (dom_admins demo_domain) - {[]} \<and> sorted (dom_admins dm') \<and> distinct (dom_admins dm')"
proof -
  have "case fst (CreateDomain (demo_io 5) demo_domain demo_empty) of Inl _ \<Rightarrow> False | Inr _ \<Rightarrow> True"
    by code_simp
  then obtain dm' s' where c: "CreateDomain (demo_io 5) demo_domain demo_empty = (Inr dm', s')"
    by (cases "CreateDomain (demo_io 5) demo_domain demo_empty") (auto split: sum.splits)
  show ?thesis
    by (rule exI, rule exI, rule conjI, rule c, rule create_get_domain [OF c]) (simp_all add: demo_io_def)
qed

section \<open>The operations as writes of the store\<close>

interpretation cd: db_write "\<lambda>io. CreateDomain io dm" "\<lambda>io s. create_domain_tx io (dm\<lparr>dom_parent := ParentOf (dom_name dm),
     dom_created_at := (if is_zero_time (dom_created_at dm) then io_now io else dom_created_at dm),
     dom_admins := dedupe (dom_admins dm)\<rparr>)" for dm
  by unfold_locales (auto simp: CreateDomain_def Let_def split: if_splits option.splits dest: run_tx_write)

interpretation dd: db_write "\<lambda>io. DeleteDomain io name" "\<lambda>io s. delete_domain_tx io name" for name
  by unfold_locales (auto simp: DeleteDomain_def split: if_splits dest: run_tx_write)

interpretation ada: db_write "\<lambda>io. AddDomainAdmin io dn who" "\<lambda>io s. add_admin_tx io dn who" for dn who
  by unfold_locales (auto simp: AddDomainAdmin_def split: if_splits dest: run_tx_write)

definition drop_admin :: "string \<Rightarrow> string \<Rightarrow> unit tx" where
  "drop_admin dn who d =
     Inr ((), d\<lparr>db_admins := sql_delete (\<lambda>a. da_domain a = dn \<and> da_principal a = who) (db_admins d)\<rparr>)"

interpretation rda: db_write "\<lambda>io. RemoveDomainAdmin io dn who" "\<lambda>io s. drop_admin dn who" for dn who
proof
  fix io s r s'
  let ?P = "\<lambda>a. da_domain a = dn \<and> da_principal a = who"
  assume rm: "RemoveDomainAdmin io dn who s = (r, s')"
  have none: "s\<lparr>st_db := (st_db s)\<lparr>db_admins := sql_delete ?P (db_admins (st_db s))\<rparr>\<rparr> = s"
    if "sql_count ?P (db_admins (st_db s)) = 0"
    using that sql_delete_id [of "db_admins (st_db s)" ?P] by (simp add: sql_count_zero)
  show "s' = s \<or> IsLeader s \<and> settings s' = settings s \<and> (\<exists>x. drop_admin dn who (st_db s) = Inr (x, st_db s'))
     \<and> (\<forall>e. r = Inl e \<longrightarrow> io_commit io = CommitLost)"
    using rm none
    by (auto simp: RemoveDomainAdmin_def run_exec_def drop_admin_def Let_def split: if_splits sum.splits prod.splits)
qed

end
