(* ===== verification/GroupStore.thy ===== *)
theory GroupStore
  imports Domains
begin

text \<open>
  Groups and their members, \<^verbatim>\<open>internal/server/storage/groups.go\<close>, with the guard
  \<^verbatim>\<open>refuseManaged\<close> of \<^verbatim>\<open>scim.go\<close>.  A handler whose audit row cannot be written
  undoes its change with \<^verbatim>\<open>SwapGroupMember\<close>, \<^verbatim>\<open>DeleteEmptyGroup\<close> or
  \<^verbatim>\<open>RestoreGroup\<close>; the properties are about those undos.
\<close>

section \<open>Groups and members\<close>

record group_member =
  gm_principal :: string
  gm_expires_at :: gotime

record group =
  grp_domain :: string
  grp_name :: string
  grp_description :: string
  grp_members :: "group_member list"
  grp_created_at :: gotime

definition group_id :: "group \<Rightarrow> string" where
  "group_id g = grp_domain g @ '':'' @ grp_name g"

definition Active :: "group_member \<Rightarrow> gotime \<Rightarrow> bool" where
  "Active m t \<longleftrightarrow> is_zero_time (gm_expires_at m) \<or> t < gm_expires_at m"

definition ValidateGroupName :: "string \<Rightarrow> err option" where
  "ValidateGroupName name =
     (if length name > 63 \<or> \<not> domainLabel name then Some (ErrInvalid ''group name'') else None)"

definition nanos :: "gotime \<Rightarrow> int" where
  "nanos t = (if is_zero_time t then 0 else unix_nano t)"

text \<open>Reading an expiry: the stored 0 is the zero time.\<close>

definition expiry :: "int \<Rightarrow> gotime" where
  "expiry e = (if e \<noteq> 0 then e else zero_time)"

definition sameMember :: "group_member option \<Rightarrow> group_member option \<Rightarrow> bool" where
  "sameMember a b =
     (case (a, b) of
        (Some x, Some y) \<Rightarrow> gm_principal x = gm_principal y \<and> gm_expires_at x = gm_expires_at y
      | (None, None) \<Rightarrow> True
      | _ \<Rightarrow> False)"

section \<open>Locks and reads inside a transaction\<close>

definition lockGroup :: "io \<Rightarrow> string \<Rightarrow> string \<Rightarrow> unit tx" where
  "lockGroup io dn name =
     tx_stmt io ''query group'' (\<lambda>d.
       if (dn, name) \<in> group_key ` set (db_groups d) then Inr ((), d) else Inl ErrNotFound)"

definition refuseManaged :: "io \<Rightarrow> string \<Rightarrow> string \<Rightarrow> unit tx" where
  "refuseManaged io dn name =
     tx_stmt io ''query scim group'' (\<lambda>d.
       case sql_row (\<lambda>g. sg_domain g = dn \<and> sg_grp g = name) (db_scim_groups d) of
         None \<Rightarrow> Inr ((), d)
       | Some g \<Rightarrow> Inl (ErrSCIMManaged (sg_idp g)))"

definition in_group :: "string \<Rightarrow> string \<Rightarrow> member_row \<Rightarrow> bool" where
  "in_group dn name m \<longleftrightarrow> m_domain m = dn \<and> m_grp m = name"

definition is_member :: "string \<Rightarrow> string \<Rightarrow> string \<Rightarrow> member_row \<Rightarrow> bool" where
  "is_member dn name who m \<longleftrightarrow> in_group dn name m \<and> m_principal m = who"

definition find_member :: "string \<Rightarrow> string \<Rightarrow> string \<Rightarrow> db \<Rightarrow> group_member option" where
  "find_member dn name who d =
     map_option (\<lambda>m. \<lparr>gm_principal = who, gm_expires_at = expiry (m_expires_at m)\<rparr>)
       (sql_row (is_member dn name who) (db_members d))"

definition memberTx :: "io \<Rightarrow> string \<Rightarrow> string \<Rightarrow> string \<Rightarrow> group_member option tx" where
  "memberTx io dn name who = tx_query io ''query member'' (find_member dn name who)"

definition put_member :: "string \<Rightarrow> string \<Rightarrow> group_member \<Rightarrow> db \<Rightarrow> db" where
  "put_member dn name m d =
     d\<lparr>db_members :=
        sql_upsert member_key
          \<lparr>m_domain = dn, m_grp = name, m_principal = gm_principal m, m_expires_at = nanos (gm_expires_at m)\<rparr>
          (\<lambda>r. r\<lparr>m_expires_at := nanos (gm_expires_at m)\<rparr>) (db_members d)\<rparr>"

definition delete_member :: "string \<Rightarrow> string \<Rightarrow> string \<Rightarrow> db \<Rightarrow> db" where
  "delete_member dn name who d = d\<lparr>db_members := sql_delete (is_member dn name who) (db_members d)\<rparr>"

definition clear_members :: "string \<Rightarrow> string \<Rightarrow> db \<Rightarrow> db" where
  "clear_members dn name d = d\<lparr>db_members := sql_delete (in_group dn name) (db_members d)\<rparr>"

definition delete_group_row :: "string \<Rightarrow> string \<Rightarrow> db \<Rightarrow> db" where
  "delete_group_row dn name d = d\<lparr>db_groups := sql_delete (\<lambda>g. group_key g = (dn, name)) (db_groups d)\<rparr>"

definition insert_group :: "io \<Rightarrow> group_row \<Rightarrow> unit tx" where
  "insert_group io g =
     tx_stmt io ''insert group'' (\<lambda>d.
       case sql_insert group_key g (db_groups d) of
         None \<Rightarrow> Inl ErrAlreadyExists
       | Some t \<Rightarrow> Inr ((), d\<lparr>db_groups := t\<rparr>))"

definition group_row_of :: "group \<Rightarrow> group_row" where
  "group_row_of g =
     \<lparr>g_domain = grp_domain g, g_name = grp_name g, g_description = grp_description g,
      g_created_at = unix_nano (grp_created_at g)\<rparr>"

definition scan_members :: "string \<Rightarrow> string \<Rightarrow> db \<Rightarrow> group_member list" where
  "scan_members dn name d =
     map (\<lambda>m. \<lparr>gm_principal = m_principal m, gm_expires_at = expiry (m_expires_at m)\<rparr>)
       (sort_key m_principal (filter (in_group dn name) (db_members d)))"

section \<open>Operations\<close>

definition create_group_tx :: "io \<Rightarrow> group \<Rightarrow> group tx" where
  "create_group_tx io g =
     tx_bind (lockDomain io (grp_domain g)) (\<lambda>_.
     tx_bind (tx_exec io ''clear members'' (clear_members (grp_domain g) (grp_name g))) (\<lambda>_.
     tx_bind (insert_group io (group_row_of g)) (\<lambda>_.
     tx_return (g\<lparr>grp_members := []\<rparr>))))"

definition CreateGroup :: "io \<Rightarrow> group \<Rightarrow> store \<Rightarrow> (err + group) \<times> store" where
  "CreateGroup io g s =
     (if \<not> IsLeader s then (Inl ErrNotLeader, s)
      else (case ValidateGroupName (grp_name g) of
              Some e \<Rightarrow> (Inl e, s)
            | None \<Rightarrow>
                run_tx io (create_group_tx io
                  (g\<lparr>grp_created_at := (if is_zero_time (grp_created_at g) then io_now io else grp_created_at g)\<rparr>)) s))"

definition delete_group_tx :: "io \<Rightarrow> string \<Rightarrow> string \<Rightarrow> group tx" where
  "delete_group_tx io dn name =
     tx_bind (lockGroup io dn name) (\<lambda>_.
     tx_bind (refuseManaged io dn name) (\<lambda>_.
     tx_bind (tx_stmt io ''query group row'' (\<lambda>d.
       case sql_row (\<lambda>g. group_key g = (dn, name)) (db_groups d) of
         None \<Rightarrow> Inl (ErrDB ''query group'')
       | Some g \<Rightarrow> Inr (g, d))) (\<lambda>row.
     tx_bind (tx_query io ''query members'' (scan_members dn name)) (\<lambda>members.
     tx_bind (tx_exec io ''delete group'' (delete_group_row dn name)) (\<lambda>_.
     tx_bind (tx_exec io ''delete members'' (clear_members dn name)) (\<lambda>_.
     tx_return \<lparr>grp_domain = dn, grp_name = name, grp_description = g_description row,
                grp_members = members, grp_created_at = g_created_at row\<rparr>))))))"

definition DeleteGroup :: "io \<Rightarrow> string \<Rightarrow> string \<Rightarrow> store \<Rightarrow> (err + group) \<times> store" where
  "DeleteGroup io dn name s =
     (if \<not> IsLeader s then (Inl ErrNotLeader, s) else run_tx io (delete_group_tx io dn name) s)"

definition put_member_tx :: "io \<Rightarrow> string \<Rightarrow> string \<Rightarrow> group_member \<Rightarrow> group_member option tx" where
  "put_member_tx io dn name m =
     tx_bind (lockGroup io dn name) (\<lambda>_.
     tx_bind (refuseManaged io dn name) (\<lambda>_.
     tx_bind (memberTx io dn name (gm_principal m)) (\<lambda>prior.
     tx_bind (tx_exec io ''upsert member'' (put_member dn name m)) (\<lambda>_.
     tx_return prior))))"

definition PutGroupMember ::
  "io \<Rightarrow> string \<Rightarrow> string \<Rightarrow> group_member \<Rightarrow> store \<Rightarrow> (err + group_member option) \<times> store" where
  "PutGroupMember io dn name m s =
     (if \<not> IsLeader s then (Inl ErrNotLeader, s) else run_tx io (put_member_tx io dn name m) s)"

definition remove_member_tx :: "io \<Rightarrow> string \<Rightarrow> string \<Rightarrow> string \<Rightarrow> group_member tx" where
  "remove_member_tx io dn name who =
     tx_bind (lockGroup io dn name) (\<lambda>_.
     tx_bind (refuseManaged io dn name) (\<lambda>_.
     tx_bind (memberTx io dn name who) (\<lambda>prior.
     case prior of
       None \<Rightarrow> tx_fail ErrNotFound
     | Some p \<Rightarrow>
         tx_bind (tx_exec io ''delete member'' (delete_member dn name who)) (\<lambda>_. tx_return p))))"

definition RemoveGroupMember ::
  "io \<Rightarrow> string \<Rightarrow> string \<Rightarrow> string \<Rightarrow> store \<Rightarrow> (err + group_member) \<times> store" where
  "RemoveGroupMember io dn name who s =
     (if \<not> IsLeader s then (Inl ErrNotLeader, s) else run_tx io (remove_member_tx io dn name who) s)"

definition swap_member_tx ::
  "io \<Rightarrow> string \<Rightarrow> string \<Rightarrow> string \<Rightarrow> group_member option \<Rightarrow> group_member option \<Rightarrow> unit tx" where
  "swap_member_tx io dn name who expect want =
     tx_bind (lockGroup io dn name) (\<lambda>_.
     tx_bind (refuseManaged io dn name) (\<lambda>_.
     tx_bind (memberTx io dn name who) (\<lambda>cur.
     if \<not> sameMember cur expect then tx_fail ErrChanged
     else tx_exec io ''swap member''
       (case want of
          None \<Rightarrow> delete_member dn name who
        | Some w \<Rightarrow> put_member dn name (w\<lparr>gm_principal := who\<rparr>)))))"

definition SwapGroupMember ::
  "io \<Rightarrow> string \<Rightarrow> string \<Rightarrow> string \<Rightarrow> group_member option \<Rightarrow> group_member option \<Rightarrow> store
   \<Rightarrow> (err + unit) \<times> store" where
  "SwapGroupMember io dn name who expect want s =
     (if \<not> IsLeader s then (Inl ErrNotLeader, s)
      else run_tx io (swap_member_tx io dn name who expect want) s)"

definition delete_empty_tx :: "io \<Rightarrow> string \<Rightarrow> string \<Rightarrow> (unit + unit) tx" where
  "delete_empty_tx io dn name d =
     (case lockGroup io dn name d of
        Inl e \<Rightarrow> if e = ErrNotFound then Inr (Inl (), d) else Inl e
      | Inr (_, d1) \<Rightarrow>
          tx_bind (refuseManaged io dn name) (\<lambda>_.
          tx_bind (tx_query io ''count members'' (\<lambda>d. sql_count (in_group dn name) (db_members d))) (\<lambda>n.
          if n > 0 then tx_fail ErrChanged
          else tx_bind (tx_exec io ''delete group'' (delete_group_row dn name)) (\<lambda>_. tx_return (Inr ())))) d1)"

definition DeleteEmptyGroup :: "io \<Rightarrow> string \<Rightarrow> string \<Rightarrow> store \<Rightarrow> (err + unit) \<times> store" where
  "DeleteEmptyGroup io dn name s =
     (if \<not> IsLeader s then (Inl ErrNotLeader, s)
      else run_tx_early io (delete_empty_tx io dn name) (\<lambda>_ s'. s') s)"

fun restore_members :: "io \<Rightarrow> string \<Rightarrow> string \<Rightarrow> group_member list \<Rightarrow> unit tx" where
  "restore_members io dn name [] = tx_return ()"
| "restore_members io dn name (m # ms) =
     tx_bind (tx_stmt io ''insert member'' (\<lambda>d.
       case sql_insert member_key \<lparr>m_domain = dn, m_grp = name, m_principal = gm_principal m,
              m_expires_at = nanos (gm_expires_at m)\<rparr> (db_members d) of
         None \<Rightarrow> Inl (ErrDB ''insert member'')
       | Some t \<Rightarrow> Inr ((), d\<lparr>db_members := t\<rparr>))) (\<lambda>_.
     restore_members io dn name ms)"

definition restore_group_tx :: "io \<Rightarrow> group \<Rightarrow> unit tx" where
  "restore_group_tx io g =
     tx_bind (lockDomain io (grp_domain g)) (\<lambda>_.
     tx_bind (insert_group io (group_row_of g)) (\<lambda>_.
     restore_members io (grp_domain g) (grp_name g) (grp_members g)))"

definition RestoreGroup :: "io \<Rightarrow> group \<Rightarrow> store \<Rightarrow> (err + unit) \<times> store" where
  "RestoreGroup io g s =
     (if \<not> IsLeader s then (Inl ErrNotLeader, s) else run_tx io (restore_group_tx io g) s)"

section \<open>Queries\<close>

text \<open>The Go map from group ids to members; both queries have the same WHERE clause.\<close>

definition group_filter :: "string \<Rightarrow> string \<Rightarrow> string \<Rightarrow> string \<Rightarrow> bool" where
  "group_filter dn name k g \<longleftrightarrow> (dn = [] \<or> k = dn) \<and> (dn = [] \<or> name = [] \<or> g = name)"

definition groupMembers :: "io \<Rightarrow> string \<Rightarrow> string \<Rightarrow> store \<Rightarrow> err + (string \<Rightarrow> group_member list)" where
  "groupMembers io dn name s =
     run_query io ''query members'' (\<lambda>d k.
       map (\<lambda>m. \<lparr>gm_principal = m_principal m, gm_expires_at = expiry (m_expires_at m)\<rparr>)
         (sort_key m_principal (filter (\<lambda>m. group_filter dn name (m_domain m) (m_grp m)
            \<and> m_domain m @ '':'' @ m_grp m = k) (db_members d)))) s"

definition scan_group :: "group_row \<Rightarrow> group" where
  "scan_group r = \<lparr>grp_domain = g_domain r, grp_name = g_name r, grp_description = g_description r,
     grp_members = [], grp_created_at = g_created_at r\<rparr>"

definition listGroups :: "io \<Rightarrow> string \<Rightarrow> string \<Rightarrow> store \<Rightarrow> err + group list" where
  "listGroups io dn name s =
     (case run_query io ''query groups'' (\<lambda>d.
        map scan_group (sort_key g_domain (sort_key g_name
          (filter (\<lambda>g. group_filter dn name (g_domain g) (g_name g)) (db_groups d))))) s of
        Inl e \<Rightarrow> Inl e
      | Inr gs \<Rightarrow>
          (case groupMembers io dn name s of
             Inl e \<Rightarrow> Inl e
           | Inr members \<Rightarrow> Inr (map (\<lambda>g. g\<lparr>grp_members := members (group_id g)\<rparr>) gs)))"

definition GetGroup :: "io \<Rightarrow> string \<Rightarrow> string \<Rightarrow> store \<Rightarrow> err + group" where
  "GetGroup io dn name s =
     (case listGroups io dn name s of
        Inl e \<Rightarrow> Inl e
      | Inr [] \<Rightarrow> Inl ErrNotFound
      | Inr (g # _) \<Rightarrow> Inr g)"

definition ListGroups :: "io \<Rightarrow> string \<Rightarrow> store \<Rightarrow> err + group list" where
  "ListGroups io dn s = listGroups io dn [] s"

section \<open>What the operations do\<close>

lemma lockGroup_Inr [tx_simps]:
  "lockGroup io dn name d = Inr (u, d') \<longleftrightarrow>
     \<not> io_fails io ''query group'' \<and> (dn, name) \<in> group_key ` set (db_groups d) \<and> d' = d"
  by (auto simp: lockGroup_def tx_stmt_def)

definition managed :: "string \<Rightarrow> string \<Rightarrow> db \<Rightarrow> bool" where
  "managed dn name d \<longleftrightarrow> (dn, name) \<in> scim_group_target ` set (db_scim_groups d)"

lemma refuseManaged_Inr [tx_simps]:
  "refuseManaged io dn name d = Inr (u, d') \<longleftrightarrow>
     \<not> io_fails io ''query scim group'' \<and> \<not> managed dn name d \<and> d' = d"
  by (auto simp: refuseManaged_def tx_stmt_def managed_def scim_group_target_def sql_row_None
      split: option.splits dest: sql_row_SomeD)

lemma memberTx_Inr [tx_simps]:
  "memberTx io dn name who d = Inr (p, d') \<longleftrightarrow>
     \<not> io_fails io ''query member'' \<and> p = find_member dn name who d \<and> d' = d"
  by (auto simp: memberTx_def tx_query_Inr)

lemma insert_group_Inr [tx_simps]:
  "insert_group io g d = Inr (u, d') \<longleftrightarrow>
     \<not> io_fails io ''insert group'' \<and> group_key g \<notin> group_key ` set (db_groups d)
     \<and> d' = d\<lparr>db_groups := db_groups d @ [g]\<rparr>"
  by (auto simp: insert_group_def tx_stmt_def sql_insert_def)

lemma create_group_tx_Inr:
  "create_group_tx io g d = Inr (r, d') \<Longrightarrow>
     r = g\<lparr>grp_members := []\<rparr> \<and> grp_domain g \<in> d_name ` set (db_domains d)
     \<and> (grp_domain g, grp_name g) \<notin> group_key ` set (db_groups d)
     \<and> d' = (clear_members (grp_domain g) (grp_name g) d)\<lparr>db_groups := db_groups d @ [group_row_of g]\<rparr>"
  by (auto simp: create_group_tx_def tx_simps clear_members_def group_row_of_def group_key_def)

lemma delete_group_tx_Inr:
  "delete_group_tx io dn name d = Inr (g, d') \<Longrightarrow>
     \<not> managed dn name d
     \<and> (\<exists>row. sql_row (\<lambda>g. group_key g = (dn, name)) (db_groups d) = Some row
         \<and> g = \<lparr>grp_domain = dn, grp_name = name, grp_description = g_description row,
                grp_members = scan_members dn name d, grp_created_at = g_created_at row\<rparr>)
     \<and> d' = clear_members dn name (delete_group_row dn name d)"
  by (auto simp: delete_group_tx_def tx_simps split: option.splits)

lemma put_member_tx_Inr:
  "put_member_tx io dn name m d = Inr (p, d') \<Longrightarrow>
     \<not> managed dn name d \<and> (dn, name) \<in> group_key ` set (db_groups d)
     \<and> p = find_member dn name (gm_principal m) d \<and> d' = put_member dn name m d"
  by (auto simp: put_member_tx_def tx_simps)

lemma remove_member_tx_Inr:
  "remove_member_tx io dn name who d = Inr (p, d') \<Longrightarrow>
     \<not> managed dn name d \<and> (dn, name) \<in> group_key ` set (db_groups d)
     \<and> find_member dn name who d = Some p \<and> d' = delete_member dn name who d"
  by (auto simp: remove_member_tx_def tx_simps split: option.splits)

definition set_member :: "string \<Rightarrow> string \<Rightarrow> string \<Rightarrow> group_member option \<Rightarrow> db \<Rightarrow> db" where
  "set_member dn name who want =
     (case want of
        None \<Rightarrow> delete_member dn name who
      | Some w \<Rightarrow> put_member dn name (w\<lparr>gm_principal := who\<rparr>))"

lemma swap_member_tx_Inr:
  "swap_member_tx io dn name who expect want d = Inr (u, d') \<Longrightarrow>
     \<not> managed dn name d \<and> (dn, name) \<in> group_key ` set (db_groups d)
     \<and> sameMember (find_member dn name who d) expect \<and> d' = set_member dn name who want d"
  by (auto simp: swap_member_tx_def tx_simps set_member_def split: if_splits)

lemma delete_empty_tx_Inr:
  "delete_empty_tx io dn name d = Inr (Inr u, d') \<Longrightarrow>
     \<not> managed dn name d \<and> (\<forall>m \<in> set (db_members d). \<not> in_group dn name m)
     \<and> d' = delete_group_row dn name d"
  by (auto simp: delete_empty_tx_def tx_simps sql_count_zero split: sum.splits if_splits)

lemma restore_members_Inr:
  assumes "restore_members io dn name ms d = Inr (u, d')"
  shows "d' = d\<lparr>db_members := db_members d @
            map (\<lambda>m. \<lparr>m_domain = dn, m_grp = name, m_principal = gm_principal m,
                      m_expires_at = nanos (gm_expires_at m)\<rparr>) ms\<rparr>
         \<and> (keyed member_key (db_members d) \<longrightarrow> keyed member_key (db_members d'))"
  using assms
proof (induction ms arbitrary: d)
  case (Cons m ms)
  let ?r = "\<lparr>m_domain = dn, m_grp = name, m_principal = gm_principal m, m_expires_at = nanos (gm_expires_at m)\<rparr>"
  from Cons.prems obtain t where t: "sql_insert member_key ?r (db_members d) = Some t"
    and rest: "restore_members io dn name ms (d\<lparr>db_members := t\<rparr>) = Inr (u, d')"
    by (auto simp: tx_bind_Inr tx_stmt_Inr split: option.splits)
  from Cons.IH [OF rest] t keyed_insert [OF _ t] show ?case by (auto simp: sql_insert_Some)
qed (simp add: tx_return_Inr)

lemma restore_group_tx_Inr:
  assumes "restore_group_tx io g d = Inr (u, d')"
  shows "grp_domain g \<in> d_name ` set (db_domains d)
         \<and> (grp_domain g, grp_name g) \<notin> group_key ` set (db_groups d)
         \<and> d' = d\<lparr>db_groups := db_groups d @ [group_row_of g],
                  db_members := db_members d @ map (\<lambda>m. \<lparr>m_domain = grp_domain g, m_grp = grp_name g,
                    m_principal = gm_principal m, m_expires_at = nanos (gm_expires_at m)\<rparr>) (grp_members g)\<rparr>
         \<and> (keyed member_key (db_members d) \<longrightarrow> keyed member_key (db_members d'))"
proof -
  from assms have "grp_domain g \<in> d_name ` set (db_domains d)"
    "group_key (group_row_of g) \<notin> group_key ` set (db_groups d)"
    and ms: "restore_members io (grp_domain g) (grp_name g) (grp_members g)
       (d\<lparr>db_groups := db_groups d @ [group_row_of g]\<rparr>) = Inr (u, d')"
    by (auto simp: restore_group_tx_def tx_simps)
  with restore_members_Inr [OF ms] show ?thesis by (auto simp: group_key_def group_row_of_def)
qed

section \<open>The operations keep the domain invariant\<close>

lemma domain_inv_members:
  "domain_inv d \<Longrightarrow> keyed member_key t \<Longrightarrow> \<forall>m \<in> set t. (m_domain m, m_grp m) \<in> group_key ` set (db_groups d) \<Longrightarrow>
     domain_inv (d\<lparr>db_members := t\<rparr>)"
  by (simp add: domain_inv_def)

lemma clear_members_inv: "domain_inv d \<Longrightarrow> domain_inv (clear_members dn name d)"
  unfolding clear_members_def
  by (intro domain_inv_members) (auto simp: domain_inv_def set_sql_delete keyed_delete)

lemma delete_member_inv: "domain_inv d \<Longrightarrow> domain_inv (delete_member dn name who d)"
  unfolding delete_member_def
  by (intro domain_inv_members) (auto simp: domain_inv_def set_sql_delete keyed_delete)

lemma put_member_inv:
  assumes "domain_inv d" "(dn, name) \<in> group_key ` set (db_groups d)"
  shows "domain_inv (put_member dn name m d)"
  unfolding put_member_def
proof (rule domain_inv_members [OF assms(1)])
  show "keyed member_key (sql_upsert member_key \<lparr>m_domain = dn, m_grp = name, m_principal = gm_principal m,
      m_expires_at = nanos (gm_expires_at m)\<rparr> (\<lambda>r. r\<lparr>m_expires_at := nanos (gm_expires_at m)\<rparr>) (db_members d))"
    using assms(1) by (intro keyed_upsert) (auto simp: domain_inv_def member_key_def)
qed (use assms in \<open>auto simp: set_sql_upsert domain_inv_def\<close>)

lemma add_group_inv:
  assumes "domain_inv d" "g_domain g \<in> d_name ` set (db_domains d)" "group_key g \<notin> group_key ` set (db_groups d)"
  shows "domain_inv (d\<lparr>db_groups := db_groups d @ [g]\<rparr>)"
  using assms keyed_snoc [OF _ assms(3)] by (auto simp: domain_inv_def)

lemma delete_group_row_inv:
  assumes inv: "domain_inv d" and none: "\<forall>m \<in> set (db_members d). \<not> in_group dn name m"
  shows "domain_inv (delete_group_row dn name d)"
proof -
  let ?gs = "sql_delete (\<lambda>g. group_key g = (dn, name)) (db_groups d)"
  have img: "group_key ` set ?gs = group_key ` set (db_groups d) - {(dn, name)}"
    by (auto simp: set_sql_delete)
  have "\<forall>m \<in> set (db_members d). (m_domain m, m_grp m) \<in> group_key ` set ?gs"
    using inv none unfolding img by (auto simp: domain_inv_def in_group_def)
  with inv show ?thesis by (auto simp: domain_inv_def delete_group_row_def keyed_delete set_sql_delete)
qed

lemma create_group_inv: "tx_keeps domain_inv (create_group_tx io g)"
proof -
  have "domain_inv ((clear_members dn name d)\<lparr>db_groups := db_groups d @ [group_row_of g]\<rparr>)"
    if "domain_inv d" "grp_domain g \<in> d_name ` set (db_domains d)"
      "(grp_domain g, grp_name g) \<notin> group_key ` set (db_groups d)" for d dn name
    using add_group_inv [OF clear_members_inv [OF that(1), of dn name], of "group_row_of g"] that(2,3)
    by (simp add: clear_members_def group_row_of_def group_key_def)
  then show ?thesis by (auto simp: tx_keeps_def dest!: create_group_tx_Inr)
qed

lemma delete_group_swap:
  "clear_members dn name (delete_group_row dn name d) = delete_group_row dn name (clear_members dn name d)"
  by (simp add: clear_members_def delete_group_row_def)

lemma delete_group_inv: "tx_keeps domain_inv (delete_group_tx io dn name)"
proof -
  have "domain_inv (delete_group_row dn name (clear_members dn name d))" if "domain_inv d" for d
    by (rule delete_group_row_inv [OF clear_members_inv [OF that]])
       (simp add: clear_members_def set_sql_delete)
  then show ?thesis by (auto simp: tx_keeps_def delete_group_swap dest!: delete_group_tx_Inr)
qed

lemma put_member_tx_inv: "tx_keeps domain_inv (put_member_tx io dn name m)"
  using put_member_inv by (auto simp: tx_keeps_def dest!: put_member_tx_Inr)

lemma remove_member_inv: "tx_keeps domain_inv (remove_member_tx io dn name who)"
  using delete_member_inv by (auto simp: tx_keeps_def dest!: remove_member_tx_Inr)

lemma swap_member_inv: "tx_keeps domain_inv (swap_member_tx io dn name who expect want)"
  using delete_member_inv put_member_inv
  by (auto simp: tx_keeps_def set_member_def split: option.splits dest!: swap_member_tx_Inr)

lemma restore_group_inv: "tx_keeps domain_inv (restore_group_tx io g)"
proof -
  have "domain_inv d'" if inv: "domain_inv d" and tx: "restore_group_tx io g d = Inr (u, d')" for d u d'
  proof -
    note r = restore_group_tx_Inr [OF tx]
    let ?d1 = "d\<lparr>db_groups := db_groups d @ [group_row_of g]\<rparr>"
    have d1: "domain_inv ?d1"
      using add_group_inv [OF inv, of "group_row_of g"] r by (simp add: group_row_of_def group_key_def)
    have d': "d' = ?d1\<lparr>db_members := db_members d'\<rparr>" using r by simp
    have "domain_inv (?d1\<lparr>db_members := db_members d'\<rparr>)"
      using inv r by (intro domain_inv_members [OF d1]) (auto simp: domain_inv_def group_key_def group_row_of_def)
    with d' show ?thesis by simp
  qed
  then show ?thesis by (auto simp: tx_keeps_def)
qed

section \<open>Undoing a change\<close>

text \<open>A database service that answers every statement.\<close>

definition answers :: "io \<Rightarrow> bool" where
  "answers io \<longleftrightarrow> (\<forall>l. \<not> io_fails io l) \<and> io_commit io = Committed"

text \<open>Times an expiry column can hold: never, or any 64-bit time but the Unix epoch itself.\<close>

definition storable :: "gotime \<Rightarrow> bool" where
  "storable t \<longleftrightarrow> is_zero_time t \<or> int64 t \<and> t \<noteq> 0"

definition int64_columns :: "db \<Rightarrow> bool" where
  "int64_columns d \<longleftrightarrow>
     (\<forall>m \<in> set (db_members d). int64 (m_expires_at m)) \<and> (\<forall>g \<in> set (db_groups d). int64 (g_created_at g))"

lemma zero_time_not_int64 [simp]: "\<not> int64 zero_time"
  by (simp add: int64_def zero_time_def)

lemma nanos_expiry [simp]: "int64 e \<Longrightarrow> nanos (expiry e) = e"
  by (auto simp: nanos_def expiry_def is_zero_time_def unix_nano_def)

lemma expiry_nanos [simp]: "storable t \<Longrightarrow> expiry (nanos t) = t"
  by (auto simp: nanos_def expiry_def storable_def is_zero_time_def unix_nano_def)

lemma is_member_key: "is_member dn name who m \<longleftrightarrow> member_key m = (dn, name, who)"
  by (auto simp: is_member_def in_group_def member_key_def)

lemma run_tx_answers:
  "answers io \<Longrightarrow> body (st_db s) = Inr (x, d) \<Longrightarrow> run_tx io body s = (Inr x, s\<lparr>st_db := d\<rparr>)"
  by (simp add: answers_def run_tx_def)

definition member_row_of :: "string \<Rightarrow> string \<Rightarrow> group_member \<Rightarrow> member_row" where
  "member_row_of dn name m =
     \<lparr>m_domain = dn, m_grp = name, m_principal = gm_principal m, m_expires_at = nanos (gm_expires_at m)\<rparr>"

lemma member_key_row [simp]:
  "member_key (member_row_of dn name m) = (dn, name, gm_principal m)"
  "member_key (r\<lparr>m_expires_at := e\<rparr>) = member_key r"
  by (simp_all add: member_key_def member_row_of_def)

lemma put_member_upsert:
  "put_member dn name m d = d\<lparr>db_members := sql_upsert member_key (member_row_of dn name m)
     (\<lambda>r. r\<lparr>m_expires_at := nanos (gm_expires_at m)\<rparr>) (db_members d)\<rparr>"
  by (simp add: put_member_def member_row_of_def)

lemma is_member_row: "is_member dn name (gm_principal m) = (\<lambda>r. member_key r = member_key (member_row_of dn name m))"
  by (auto simp: is_member_key)

lemma find_member_put:
  "find_member dn name (gm_principal m) (put_member dn name m d) =
     Some \<lparr>gm_principal = gm_principal m, gm_expires_at = expiry (nanos (gm_expires_at m))\<rparr>"
proof -
  have "sql_row (is_member dn name (gm_principal m)) (db_members (put_member dn name m d)) =
      Some (case sql_row (is_member dn name (gm_principal m)) (db_members d) of
              None \<Rightarrow> member_row_of dn name m | Some x \<Rightarrow> x\<lparr>m_expires_at := nanos (gm_expires_at m)\<rparr>)"
    using sql_row_upsert [of member_key "\<lambda>r. r\<lparr>m_expires_at := nanos (gm_expires_at m)\<rparr>"
        "member_row_of dn name m" "db_members d"]
    by (simp add: is_member_row put_member_upsert)
  then show ?thesis by (auto simp: find_member_def member_row_of_def split: option.split)
qed

text \<open>Writing the prior membership back after a put gives the very same table.\<close>

lemma set_member_put:
  assumes k: "keyed member_key (db_members d)" and i: "int64_columns d"
  shows "set_member dn name (gm_principal m) (find_member dn name (gm_principal m) d) (put_member dn name m d) = d"
proof (cases "sql_row (is_member dn name (gm_principal m)) (db_members d)")
  case None
  then have "member_key (member_row_of dn name m) \<notin> member_key ` set (db_members d)"
    by (auto simp: sql_row_None is_member_key)
  from sql_delete_upsert [OF this] None show ?thesis
    by (simp add: find_member_def set_member_def delete_member_def put_member_upsert is_member_row)
next
  case (Some r)
  then have r: "r \<in> set (db_members d)" "member_key r = (dn, name, gm_principal m)"
    by (auto dest!: sql_row_SomeD simp: is_member_key)
  then have "nanos (expiry (m_expires_at r)) = m_expires_at r" using i by (simp add: int64_columns_def)
  then have "sql_upsert member_key (member_row_of dn name \<lparr>gm_principal = gm_principal m, gm_expires_at = expiry (m_expires_at r)\<rparr>)
      (\<lambda>x. x\<lparr>m_expires_at := nanos (expiry (m_expires_at r))\<rparr>)
      (sql_upsert member_key (member_row_of dn name m) (\<lambda>x. x\<lparr>m_expires_at := nanos (gm_expires_at m)\<rparr>) (db_members d))
      = db_members d"
    by (intro sql_upsert_undo [OF k r(1)]) (simp_all add: r(2))
  then show ?thesis
    using Some by (simp add: find_member_def set_member_def put_member_upsert)
qed

lemma swap_member_run:
  assumes "answers io" "(dn, name) \<in> group_key ` set (db_groups d)" "\<not> managed dn name d"
    and "sameMember (find_member dn name who d) expect"
  shows "swap_member_tx io dn name who expect want d = Inr ((), set_member dn name who want d)"
proof -
  have "lockGroup io dn name d = Inr ((), d)" "refuseManaged io dn name d = Inr ((), d)"
    "memberTx io dn name who d = Inr (find_member dn name who d, d)"
    using assms by (simp_all add: tx_simps answers_def)
  then show ?thesis
    using assms(1,4) by (simp add: swap_member_tx_def tx_bind_def tx_exec_def tx_stmt_def answers_def set_member_def)
qed

text \<open>
  C15. A membership change can be undone, and the undo never overwrites a later change.
  After a successful put, swapping the new membership for the one the put returned
  gives back the store as it was before the put; and on any store where the
  membership is no longer the one that was put, the same swap fails and changes nothing.
\<close>
theorem put_member_undo:
  assumes inv: "domain_inv (st_db s)" "int64_columns (st_db s)" and t: "storable (gm_expires_at m)"
    and put: "PutGroupMember io dn name m s = (Inr prior, s1)" and io2: "answers io2"
  shows "SwapGroupMember io2 dn name (gm_principal m) (Some m) prior s1 = (Inr (), s)
         \<and> (\<forall>s2. find_member dn name (gm_principal m) (st_db s2) \<noteq> Some m \<longrightarrow>
              (\<exists>e. SwapGroupMember io2 dn name (gm_principal m) (Some m) prior s2 = (Inl e, s2)))"
proof
  from put have lead: "IsLeader s" and run: "run_tx io (put_member_tx io dn name m) s = (Inr prior, s1)"
    by (auto simp: PutGroupMember_def split: if_splits)
  from run obtain d1 where tx: "put_member_tx io dn name m (st_db s) = Inr (prior, d1)" and s1: "s1 = s\<lparr>st_db := d1\<rparr>"
    by (auto simp: run_tx_Inr)
  note eff = put_member_tx_Inr [OF tx]
  have grp: "(dn, name) \<in> group_key ` set (db_groups d1)" "\<not> managed dn name d1"
    using eff by (auto simp: put_member_def managed_def)
  have cur: "find_member dn name (gm_principal m) d1 = Some m"
    using find_member_put [of dn name m "st_db s"] t eff by simp
  have bk: "set_member dn name (gm_principal m) prior d1 = st_db s"
    using set_member_put [OF _ inv(2), of dn name m] inv(1) eff by (simp add: domain_inv_def)
  have "swap_member_tx io2 dn name (gm_principal m) (Some m) prior d1 = Inr ((), st_db s)"
    using swap_member_run [OF io2 grp, of "gm_principal m" "Some m" prior] cur bk by (simp add: sameMember_def)
  then have "run_tx io2 (swap_member_tx io2 dn name (gm_principal m) (Some m) prior) s1 = (Inr (), s)"
    using run_tx_answers [where s = s1 and body = "swap_member_tx io2 dn name (gm_principal m) (Some m) prior", OF io2]
    by (simp add: s1)
  then show "SwapGroupMember io2 dn name (gm_principal m) (Some m) prior s1 = (Inr (), s)"
    using lead by (simp add: SwapGroupMember_def s1 IsLeader_def)
next
  show "\<forall>s2. find_member dn name (gm_principal m) (st_db s2) \<noteq> Some m \<longrightarrow>
              (\<exists>e. SwapGroupMember io2 dn name (gm_principal m) (Some m) prior s2 = (Inl e, s2))"
  proof (intro allI impI)
    fix s2 :: store
    assume ne: "find_member dn name (gm_principal m) (st_db s2) \<noteq> Some m"
    then have "\<not> sameMember (find_member dn name (gm_principal m) (st_db s2)) (Some m)"
      by (auto simp: sameMember_def split: option.splits)
    then have "swap_member_tx io2 dn name (gm_principal m) (Some m) prior (st_db s2) \<noteq> Inr r" for r
      using swap_member_tx_Inr [of io2 dn name "gm_principal m" "Some m" prior "st_db s2"] by (cases r) auto
    then show "\<exists>e. SwapGroupMember io2 dn name (gm_principal m) (Some m) prior s2 = (Inl e, s2)"
      by (auto simp: SwapGroupMember_def run_tx_def split: sum.splits)
  qed
qed

definition demo_groups :: store where
  "demo_groups = demo_empty\<lparr>st_db := demo_tree\<lparr>
     db_groups := [\<lparr>g_domain = ''media'', g_name = ''eng'', g_description = [], g_created_at = 1\<rparr>],
     db_members := [\<lparr>m_domain = ''media'', m_grp = ''eng'', m_principal = ''bob'', m_expires_at = 9\<rparr>]\<rparr>\<rparr>"

definition demo_member :: group_member where
  "demo_member = \<lparr>gm_principal = ''alice'', gm_expires_at = 100\<rparr>"

lemma demo_io_answers [simp]: "answers (demo_io t)"
  by (simp add: answers_def demo_io_def)

lemma demo_groups_inv: "domain_inv (st_db demo_groups)" "int64_columns (st_db demo_groups)"
  by code_simp+

theorem put_member_undo_witness:
  "\<exists>prior s1. PutGroupMember (demo_io 5) ''media'' ''eng'' demo_member demo_groups = (Inr prior, s1)
     \<and> SwapGroupMember (demo_io 6) ''media'' ''eng'' (gm_principal demo_member) (Some demo_member) prior s1
         = (Inr (), demo_groups)
     \<and> (\<forall>s2. find_member ''media'' ''eng'' (gm_principal demo_member) (st_db s2) \<noteq> Some demo_member \<longrightarrow>
          (\<exists>e. SwapGroupMember (demo_io 6) ''media'' ''eng'' (gm_principal demo_member) (Some demo_member) prior s2
                = (Inl e, s2)))"
proof -
  have "case fst (PutGroupMember (demo_io 5) ''media'' ''eng'' demo_member demo_groups) of Inl _ \<Rightarrow> False | Inr _ \<Rightarrow> True"
    by code_simp
  then obtain prior s1 where p: "PutGroupMember (demo_io 5) ''media'' ''eng'' demo_member demo_groups = (Inr prior, s1)"
    by (cases "PutGroupMember (demo_io 5) ''media'' ''eng'' demo_member demo_groups") (auto split: sum.splits)
  have "storable (gm_expires_at demo_member)" by (simp add: storable_def demo_member_def int64_def)
  from put_member_undo [OF demo_groups_inv this p demo_io_answers [of 6]] p show ?thesis by blast
qed

lemma restore_members_run:
  assumes "answers io" "distinct (map gm_principal ms)"
    and "\<forall>m \<in> set ms. (dn, name, gm_principal m) \<notin> member_key ` set (db_members d)"
  shows "\<exists>d'. restore_members io dn name ms d = Inr ((), d')"
  using assms(2,3)
proof (induction ms arbitrary: d)
  case (Cons m ms)
  let ?r = "\<lparr>m_domain = dn, m_grp = name, m_principal = gm_principal m, m_expires_at = nanos (gm_expires_at m)\<rparr>"
  have key: "member_key ?r = (dn, name, gm_principal m)" by (simp add: member_key_def)
  have "\<exists>d'. restore_members io dn name ms (d\<lparr>db_members := db_members d @ [?r]\<rparr>) = Inr ((), d')"
    using Cons.prems by (intro Cons.IH) (auto simp: key image_iff)
  then show ?case
    using assms(1) Cons.prems(2)
    by (auto simp: tx_bind_def tx_stmt_def answers_def sql_insert_def key)
qed (simp add: tx_return_def)

lemma scan_members_rows:
  assumes "\<forall>m \<in> set (db_members d). int64 (m_expires_at m)"
  shows "set (map (\<lambda>m. \<lparr>m_domain = dn, m_grp = name, m_principal = gm_principal m,
                        m_expires_at = nanos (gm_expires_at m)\<rparr>) (scan_members dn name d))
         = {m \<in> set (db_members d). in_group dn name m}"
proof -
  have "\<lparr>m_domain = dn, m_grp = name, m_principal = m_principal m, m_expires_at = nanos (expiry (m_expires_at m))\<rparr> = m"
    if "m \<in> set (db_members d)" "in_group dn name m" for m
    using that assms by (simp add: in_group_def)
  then show ?thesis by (force simp: scan_members_def)
qed

lemma scan_members_distinct:
  assumes "keyed member_key (db_members d)"
  shows "distinct (map gm_principal (scan_members dn name d))"
proof -
  have "inj_on m_principal {m \<in> set (db_members d). in_group dn name m}"
    using keyed_inj [OF assms] by (auto intro!: inj_onI simp: in_group_def member_key_def)
  moreover have "distinct (db_members d)" using assms by (simp add: keyed_def distinct_map)
  ultimately have "distinct (map m_principal (sort_key m_principal (filter (in_group dn name) (db_members d))))"
    by (simp add: distinct_map)
  then show ?thesis by (simp add: scan_members_def comp_def)
qed

lemma restore_after_delete:
  assumes inv: "domain_inv d" "int64_columns d"
    and tx: "delete_group_tx io dn name d = Inr (g, d1)" and io2: "answers io2"
  shows "\<exists>d2. restore_group_tx io2 g d1 = Inr ((), d2)
           \<and> set (db_groups d2) = set (db_groups d) \<and> set (db_members d2) = set (db_members d)
           \<and> d2\<lparr>db_groups := db_groups d, db_members := db_members d\<rparr> = d"
proof -
  from delete_group_tx_Inr [OF tx] obtain row where
    row: "sql_row (\<lambda>g. group_key g = (dn, name)) (db_groups d) = Some row"
    and g: "g = \<lparr>grp_domain = dn, grp_name = name, grp_description = g_description row,
                grp_members = scan_members dn name d, grp_created_at = g_created_at row\<rparr>"
    and d1: "d1 = clear_members dn name (delete_group_row dn name d)" by blast
  have r: "row \<in> set (db_groups d)" "group_key row = (dn, name)" using sql_row_SomeD [OF row] by auto
  have gr: "group_row_of g = row" "grp_domain g = dn" "grp_name g = name" "grp_members g = scan_members dn name d"
    using r inv(2) by (simp_all add: g group_row_of_def group_key_def int64_columns_def unix_nano_def)
  have d1t: "db_domains d1 = db_domains d" "db_groups d1 = sql_delete (\<lambda>g. group_key g = (dn, name)) (db_groups d)"
    "db_members d1 = sql_delete (in_group dn name) (db_members d)"
    by (simp_all add: d1 clear_members_def delete_group_row_def)
  let ?d1 = "d1\<lparr>db_groups := db_groups d1 @ [row]\<rparr>"
  have "\<forall>m \<in> set (scan_members dn name d). (dn, name, gm_principal m) \<notin> member_key ` set (db_members ?d1)"
    by (auto simp: d1t set_sql_delete member_key_def in_group_def)
  then obtain d2 where d2: "restore_members io2 dn name (scan_members dn name d) ?d1 = Inr ((), d2)"
    using restore_members_run [OF io2 scan_members_distinct] inv(1) unfolding domain_inv_def by blast
  have "lockDomain io2 dn d1 = Inr ((), d1)"
    using io2 inv(1) r by (auto simp: lockDomain_Inr answers_def d1t domain_inv_def group_key_def)
  moreover have "insert_group io2 row d1 = Inr ((), ?d1)"
    using io2 r(2) by (auto simp: insert_group_Inr answers_def d1t set_sql_delete)
  ultimately have "restore_group_tx io2 g d1 = Inr ((), d2)"
    using d2 by (simp add: restore_group_tx_def tx_bind_def gr)
  moreover have "set (db_groups d2) = set (db_groups d) \<and> set (db_members d2) = set (db_members d)
      \<and> d2\<lparr>db_groups := db_groups d, db_members := db_members d\<rparr> = d"
  proof (intro conjI)
    let ?R = "map (\<lambda>m. \<lparr>m_domain = dn, m_grp = name, m_principal = gm_principal m, m_expires_at = nanos (gm_expires_at m)\<rparr>)
          (scan_members dn name d)"
    have eq: "d2 = ?d1\<lparr>db_members := db_members d1 @ ?R\<rparr>" using restore_members_Inr [OF d2] by simp
    have "\<forall>x \<in> set (db_groups d). group_key x = (dn, name) \<longrightarrow> x = row"
      using r keyed_inj [of group_key "db_groups d" _ row] inv(1) unfolding domain_inv_def by metis
    then show "set (db_groups d2) = set (db_groups d)" using r(1) by (auto simp: eq d1t set_sql_delete)
    have R: "set ?R = {m \<in> set (db_members d). in_group dn name m}"
      using inv(2) by (intro scan_members_rows) (simp add: int64_columns_def)
    have "set (db_members d2) = set (db_members d1) \<union> set ?R" unfolding eq by simp
    then show "set (db_members d2) = set (db_members d)" unfolding R by (auto simp: d1t set_sql_delete)
    show "d2\<lparr>db_groups := db_groups d, db_members := db_members d\<rparr> = d"
      unfolding eq d1 clear_members_def delete_group_row_def by simp
  qed
  ultimately show ?thesis by blast
qed

text \<open>
  C16. Deleting a group can be undone: right after a successful delete, restoring the group
  the delete returned succeeds and brings back exactly the group row and the
  memberships that were there, and touches nothing else.
\<close>
theorem delete_restore_group:
  assumes inv: "domain_inv (st_db s)" "int64_columns (st_db s)"
    and del: "DeleteGroup io dn name s = (Inr g, s1)" and io2: "answers io2"
  shows "\<exists>s2. RestoreGroup io2 g s1 = (Inr (), s2)
           \<and> set (db_groups (st_db s2)) = set (db_groups (st_db s))
           \<and> set (db_members (st_db s2)) = set (db_members (st_db s))
           \<and> (st_db s2)\<lparr>db_groups := db_groups (st_db s), db_members := db_members (st_db s)\<rparr> = st_db s"
proof -
  from del have lead: "IsLeader s" and run: "run_tx io (delete_group_tx io dn name) s = (Inr g, s1)"
    by (auto simp: DeleteGroup_def split: if_splits)
  from run obtain d1 where tx: "delete_group_tx io dn name (st_db s) = Inr (g, d1)" and s1: "s1 = s\<lparr>st_db := d1\<rparr>"
    by (auto simp: run_tx_Inr)
  from restore_after_delete [OF inv tx io2] obtain d2 where
    d2: "restore_group_tx io2 g d1 = Inr ((), d2)" "set (db_groups d2) = set (db_groups (st_db s))"
      "set (db_members d2) = set (db_members (st_db s))"
      "d2\<lparr>db_groups := db_groups (st_db s), db_members := db_members (st_db s)\<rparr> = st_db s" by blast
  have "RestoreGroup io2 g s1 = (Inr (), s\<lparr>st_db := d2\<rparr>)"
    using run_tx_answers [where s = s1 and body = "restore_group_tx io2 g", OF io2] d2(1) lead
    by (simp add: RestoreGroup_def s1 IsLeader_def)
  with d2 show ?thesis by auto
qed

theorem delete_restore_group_witness:
  "\<exists>g s1 s2. DeleteGroup (demo_io 5) ''media'' ''eng'' demo_groups = (Inr g, s1)
     \<and> RestoreGroup (demo_io 6) g s1 = (Inr (), s2)
     \<and> set (db_groups (st_db s2)) = set (db_groups (st_db demo_groups))
     \<and> set (db_members (st_db s2)) = set (db_members (st_db demo_groups))
     \<and> (st_db s2)\<lparr>db_groups := db_groups (st_db demo_groups), db_members := db_members (st_db demo_groups)\<rparr> = st_db demo_groups"
proof -
  have "case fst (DeleteGroup (demo_io 5) ''media'' ''eng'' demo_groups) of Inl _ \<Rightarrow> False | Inr _ \<Rightarrow> True"
    by code_simp
  then obtain g s1 where p: "DeleteGroup (demo_io 5) ''media'' ''eng'' demo_groups = (Inr g, s1)"
    by (cases "DeleteGroup (demo_io 5) ''media'' ''eng'' demo_groups") (auto split: sum.splits)
  from delete_restore_group [OF demo_groups_inv p demo_io_answers [of 6]] p show ?thesis by blast
qed

section \<open>The operations as writes of the store\<close>

interpretation cg: db_write "\<lambda>io. CreateGroup io g" "\<lambda>io s. create_group_tx io
     (g\<lparr>grp_created_at := (if is_zero_time (grp_created_at g) then io_now io else grp_created_at g)\<rparr>)" for g
  by unfold_locales (auto simp: CreateGroup_def split: if_splits option.splits dest: run_tx_write)

interpretation dg: db_write "\<lambda>io. DeleteGroup io dn name" "\<lambda>io s. delete_group_tx io dn name" for dn name
  by unfold_locales (auto simp: DeleteGroup_def split: if_splits dest: run_tx_write)

interpretation pgm: db_write "\<lambda>io. PutGroupMember io dn name m" "\<lambda>io s. put_member_tx io dn name m" for dn name m
  by unfold_locales (auto simp: PutGroupMember_def split: if_splits dest: run_tx_write)

interpretation rgm: db_write "\<lambda>io. RemoveGroupMember io dn name who" "\<lambda>io s. remove_member_tx io dn name who" for dn name who
  by unfold_locales (auto simp: RemoveGroupMember_def split: if_splits dest: run_tx_write)

interpretation sgm: db_write "\<lambda>io. SwapGroupMember io dn name who expect want"
    "\<lambda>io s. swap_member_tx io dn name who expect want" for dn name who expect want
  by unfold_locales (auto simp: SwapGroupMember_def split: if_splits dest: run_tx_write)

interpretation deg: db_write "\<lambda>io. DeleteEmptyGroup io dn name" "\<lambda>io s. delete_empty_tx io dn name" for dn name
  by unfold_locales (auto simp: DeleteEmptyGroup_def split: if_splits dest!: run_tx_early_ends)

interpretation rg: db_write "\<lambda>io. RestoreGroup io g" "\<lambda>io s. restore_group_tx io g" for g
  by unfold_locales (auto simp: RestoreGroup_def split: if_splits dest: run_tx_write)

text \<open>None of them touches the log or the SCIM tables.\<close>

lemma lock_frames [tx_frames]: "tx_fixes p (lockDomain io dn)" "tx_fixes p (lockGroup io dn name)"
  "tx_fixes p (refuseManaged io dn name)" "tx_fixes p (memberTx io dn name who)"
  by (auto simp: tx_fixes_def lockDomain_Inr lockGroup_Inr refuseManaged_Inr memberTx_Inr)

definition other_tables :: "db \<Rightarrow> db" where
  "other_tables d = d\<lparr>db_domains := [], db_admins := [], db_groups := [], db_members := []\<rparr>"

lemma domain_frames [tx_frames]:
  "tx_fixes other_tables (create_domain_tx io dm)" "tx_fixes other_tables (delete_domain_tx io name)"
  "tx_fixes other_tables (add_admin_tx io dn who)" "tx_fixes other_tables (drop_admin dn who)"
  by (auto simp: tx_fixes_def other_tables_def add_admin_tx_def tx_simps drop_admin_def Let_def case_prod_beta
      dest!: create_domain_tx_Inr delete_domain_tx_Inr)

lemma group_frames [tx_frames]:
  "tx_fixes other_tables (create_group_tx io g)" "tx_fixes other_tables (delete_group_tx io dn name)"
  "tx_fixes other_tables (put_member_tx io dn name m)" "tx_fixes other_tables (remove_member_tx io dn name who)"
  "tx_fixes other_tables (swap_member_tx io dn name who expect want)" "tx_fixes other_tables (restore_group_tx io g)"
  by (auto simp: tx_fixes_def other_tables_def clear_members_def delete_group_row_def put_member_def delete_member_def
      set_member_def split: option.splits
      dest!: create_group_tx_Inr delete_group_tx_Inr put_member_tx_Inr remove_member_tx_Inr swap_member_tx_Inr restore_group_tx_Inr)

lemma delete_empty_frame [tx_frames]: "tx_fixes other_tables (delete_empty_tx io dn name)"
  by (auto simp: tx_fixes_def delete_empty_tx_def tx_simps other_tables_def delete_group_row_def
      split: sum.splits if_splits)

end
