(* ===== verification/ScimStore.thy ===== *)
theory ScimStore
  imports GroupStore
begin

text \<open>
  SCIM provisioning, \<^verbatim>\<open>internal/server/storage/scim.go\<close>: users and groups an identity
  provider owns, and the Omega groups rebuilt from them.  A method of \<^verbatim>\<open>SCIMTx\<close> is a
  transaction body that also carries the set of touched group ids, here a list without
  duplicates.  The Unicode lower-casing of user names is an argument (\<open>lower\<close>)
  and so are the random bytes of new ids.
\<close>

section \<open>Users and groups\<close>

record scim_user =
  u_id :: string
  u_user_name :: string
  u_external_id :: string
  u_display_name :: string
  u_active :: bool
  u_principal :: string
  u_created :: gotime
  u_modified :: gotime

record scim_group =
  sgr_id :: string
  sgr_display_name :: string
  sgr_external_id :: string
  sgr_domain :: string
  sgr_group :: string
  sgr_members :: "string list"
  sgr_created :: gotime
  sgr_modified :: gotime

text \<open>\<^verbatim>\<open>newSCIMID\<close>: the version and variant bits of 16 random bytes, in hex with dashes.\<close>

definition newSCIMID :: "bytes \<Rightarrow> string" where
  "newSCIMID rnd =
     (let b = map (\<lambda>c. of_char c :: nat) (take 16 (rnd @ replicate 16 (CHR 0x00)));
          b1 = b[6 := b ! 6 mod 16 + 64];
          b2 = map (\<lambda>n. char_of n :: char) (b1[8 := b1 ! 8 mod 64 + 128]) in
      hex_encode (take 4 b2) @ ''-'' @ hex_encode (take 2 (drop 4 b2)) @ ''-'' @
      hex_encode (take 2 (drop 6 b2)) @ ''-'' @ hex_encode (take 2 (drop 8 b2)) @ ''-'' @
      hex_encode (drop 10 b2))"

definition boolInt :: "bool \<Rightarrow> int" where
  "boolInt b = (if b then 1 else 0)"

definition scanSCIMUser :: "scim_user_row \<Rightarrow> scim_user" where
  "scanSCIMUser r =
     \<lparr>u_id = su_id r, u_user_name = su_user_name r, u_external_id = su_external_id r,
      u_display_name = su_display_name r, u_active = (su_active r \<noteq> 0), u_principal = su_principal r,
      u_created = su_created_at r, u_modified = su_updated_at r\<rparr>"

definition scan_scim_group :: "scim_group_row \<Rightarrow> scim_group" where
  "scan_scim_group r =
     \<lparr>sgr_id = sg_id r, sgr_display_name = sg_display_name r, sgr_external_id = sg_external_id r,
      sgr_domain = sg_domain r, sgr_group = sg_grp r, sgr_members = [],
      sgr_created = sg_created_at r, sgr_modified = sg_updated_at r\<rparr>"

type_synonym touched = "string list"

section \<open>Users\<close>

definition user_at :: "string \<Rightarrow> string \<Rightarrow> scim_user_row \<Rightarrow> bool" where
  "user_at idp i r \<longleftrightarrow> scim_user_key r = (idp, i)"

definition GetUser :: "io \<Rightarrow> string \<Rightarrow> string \<Rightarrow> scim_user tx" where
  "GetUser io idp i =
     tx_stmt io ''query scim user'' (\<lambda>d.
       case sql_row (user_at idp i) (db_scim_users d) of
         None \<Rightarrow> Inl ErrNotFound
       | Some r \<Rightarrow> Inr (scanSCIMUser r, d))"

definition user_filter :: "(string \<Rightarrow> string) \<Rightarrow> string \<Rightarrow> string \<Rightarrow> string \<Rightarrow> (scim_user_row \<Rightarrow> bool) option" where
  "user_filter lower idp attr val =
     (if attr = [] then Some (\<lambda>r. su_idp r = idp)
      else if attr = ''userName'' then Some (\<lambda>r. su_idp r = idp \<and> su_user_name_lc r = lower val)
      else if attr = ''externalId'' then Some (\<lambda>r. su_idp r = idp \<and> su_external_id r = val)
      else None)"

text \<open>A page of the rows that match, in order of creation and id, and how many match in all.\<close>

definition page :: "nat \<Rightarrow> nat \<Rightarrow> 'a list \<Rightarrow> 'a list" where
  "page offset limit xs = take limit (drop offset xs)"

definition ListUsers ::
  "(string \<Rightarrow> string) \<Rightarrow> io \<Rightarrow> string \<Rightarrow> string \<Rightarrow> string \<Rightarrow> nat \<Rightarrow> nat \<Rightarrow> (scim_user list \<times> nat) tx" where
  "ListUsers lower io idp attr val offset limit =
     (case user_filter lower idp attr val of
        None \<Rightarrow> tx_fail (ErrInvalid ''cannot filter users'')
      | Some P \<Rightarrow>
          tx_bind (tx_query io ''count scim users'' (\<lambda>d. sql_count P (db_scim_users d))) (\<lambda>total.
          tx_query io ''query scim users'' (\<lambda>d.
            (map scanSCIMUser (page offset limit
               (sort_key su_created_at (sort_key su_id (filter P (db_scim_users d))))), total))))"

definition user_row :: "(string \<Rightarrow> string) \<Rightarrow> string \<Rightarrow> scim_user \<Rightarrow> scim_user_row" where
  "user_row lower idp u =
     \<lparr>su_idp = idp, su_id = u_id u, su_user_name = u_user_name u, su_user_name_lc = lower (u_user_name u),
      su_external_id = u_external_id u, su_display_name = u_display_name u, su_active = boolInt (u_active u),
      su_principal = u_principal u, su_created_at = unix_nano (u_created u), su_updated_at = unix_nano (u_modified u)\<rparr>"

text \<open>The unique constraints of \<^verbatim>\<open>scim_users\<close> besides its primary key.\<close>

definition user_clash :: "scim_user_row \<Rightarrow> scim_user_row \<Rightarrow> bool" where
  "user_clash r x \<longleftrightarrow> su_idp x = su_idp r \<and>
     (su_user_name_lc x = su_user_name_lc r \<or> su_external_id r \<noteq> [] \<and> su_external_id x = su_external_id r)"

definition CreateUser ::
  "(string \<Rightarrow> string) \<Rightarrow> io \<Rightarrow> string \<Rightarrow> bytes \<Rightarrow> scim_user \<Rightarrow> touched \<Rightarrow> (scim_user \<times> touched) tx" where
  "CreateUser lower io idp rnd u0 tch =
     (let u = u0\<lparr>u_id := newSCIMID rnd, u_created := io_now io, u_modified := io_now io\<rparr>;
          r = user_row lower idp u in
      tx_stmt io ''insert scim user'' (\<lambda>d.
        if list_ex (user_clash r) (db_scim_users d) then Inl ErrAlreadyExists
        else (case sql_insert scim_user_key r (db_scim_users d) of
                None \<Rightarrow> Inl ErrAlreadyExists
              | Some t \<Rightarrow> Inr ((u, tch), d\<lparr>db_scim_users := t\<rparr>))))"

definition groups_of_user :: "string \<Rightarrow> string \<Rightarrow> db \<Rightarrow> string list" where
  "groups_of_user idp i d =
     map sm_group_id (filter (\<lambda>m. sm_idp m = idp \<and> sm_user_id m = i) (db_scim_members d))"

definition touch :: "string list \<Rightarrow> touched \<Rightarrow> touched" where
  "touch gs tch = fold List.insert gs tch"

definition touchGroupsOf :: "io \<Rightarrow> string \<Rightarrow> string \<Rightarrow> touched \<Rightarrow> touched tx" where
  "touchGroupsOf io idp i tch =
     tx_query io ''query scim memberships'' (\<lambda>d. touch (groups_of_user idp i d) tch)"

definition update_user :: "io \<Rightarrow> string \<Rightarrow> scim_user_row \<Rightarrow> unit tx" where
  "update_user io idp r =
     tx_stmt io ''update scim user'' (\<lambda>d.
       if list_ex (\<lambda>x. \<not> user_at idp (su_id r) x \<and> user_clash r x) (db_scim_users d) then Inl ErrAlreadyExists
       else Inr ((), d\<lparr>db_scim_users :=
         sql_update (user_at idp (su_id r)) (\<lambda>x. x\<lparr>su_user_name := su_user_name r,
           su_user_name_lc := su_user_name_lc r, su_external_id := su_external_id r,
           su_display_name := su_display_name r, su_active := su_active r, su_principal := su_principal r,
           su_updated_at := su_updated_at r\<rparr>) (db_scim_users d)\<rparr>))"

definition ReplaceUser ::
  "(string \<Rightarrow> string) \<Rightarrow> io \<Rightarrow> string \<Rightarrow> scim_user \<Rightarrow> touched \<Rightarrow> (scim_user \<times> touched) tx" where
  "ReplaceUser lower io idp u0 tch =
     tx_bind (GetUser io idp (u_id u0)) (\<lambda>prev.
     let u = u0\<lparr>u_created := u_created prev, u_modified := io_now io\<rparr> in
     tx_bind (update_user io idp (user_row lower idp u)) (\<lambda>_.
     if u_principal prev \<noteq> u_principal u \<or> u_active prev \<noteq> u_active u
     then tx_bind (touchGroupsOf io idp (u_id u) tch) (\<lambda>tch'. tx_return (u, tch'))
     else tx_return (u, tch)))"

definition DeleteUser :: "io \<Rightarrow> string \<Rightarrow> string \<Rightarrow> touched \<Rightarrow> (unit \<times> touched) tx" where
  "DeleteUser io idp i tch =
     tx_bind (GetUser io idp i) (\<lambda>_.
     tx_bind (touchGroupsOf io idp i tch) (\<lambda>tch'.
     tx_bind (tx_exec io ''delete scim memberships'' (\<lambda>d.
       d\<lparr>db_scim_members := sql_delete (\<lambda>m. sm_idp m = idp \<and> sm_user_id m = i) (db_scim_members d)\<rparr>)) (\<lambda>_.
     tx_bind (tx_exec io ''delete scim user'' (\<lambda>d.
       d\<lparr>db_scim_users := sql_delete (user_at idp i) (db_scim_users d)\<rparr>)) (\<lambda>_.
     tx_return ((), tch')))))"

section \<open>Groups\<close>

definition scim_group_at :: "string \<Rightarrow> string \<Rightarrow> scim_group_row \<Rightarrow> bool" where
  "scim_group_at idp i g \<longleftrightarrow> scim_group_key g = (idp, i)"

definition member_ids :: "string \<Rightarrow> string \<Rightarrow> db \<Rightarrow> string list" where
  "member_ids idp i d =
     sort (map sm_user_id (filter (\<lambda>m. sm_idp m = idp \<and> sm_group_id m = i) (db_scim_members d)))"

definition list_scim_groups ::
  "io \<Rightarrow> string \<Rightarrow> (scim_group_row \<Rightarrow> bool) \<Rightarrow> nat \<Rightarrow> nat \<Rightarrow> bool \<Rightarrow> (scim_group list \<times> nat) tx" where
  "list_scim_groups io idp P offset limit withMembers =
     tx_bind (tx_query io ''count scim groups'' (\<lambda>d. sql_count (\<lambda>g. sg_idp g = idp \<and> P g) (db_scim_groups d))) (\<lambda>total.
     tx_bind (tx_query io ''query scim groups'' (\<lambda>d.
       map scan_scim_group (page offset limit (sort_key sg_created_at (sort_key sg_id
         (filter (\<lambda>g. sg_idp g = idp \<and> P g) (db_scim_groups d))))))) (\<lambda>gs.
     if \<not> withMembers \<or> gs = [] then tx_return (gs, total)
     else tx_query io ''query scim members'' (\<lambda>d.
       (map (\<lambda>g. g\<lparr>sgr_members := member_ids idp (sgr_id g) d\<rparr>) gs, total))))"

definition GetGroup_scim :: "io \<Rightarrow> string \<Rightarrow> string \<Rightarrow> scim_group tx" where
  "GetGroup_scim io idp i =
     tx_bind (list_scim_groups io idp (\<lambda>g. sg_id g = i) 0 1 True) (\<lambda>(gs, _).
     case gs of [] \<Rightarrow> tx_fail ErrNotFound | g # _ \<Rightarrow> tx_return g)"

definition ListGroups_scim ::
  "io \<Rightarrow> string \<Rightarrow> string \<Rightarrow> string \<Rightarrow> nat \<Rightarrow> nat \<Rightarrow> bool \<Rightarrow> (scim_group list \<times> nat) tx" where
  "ListGroups_scim io idp attr val offset limit withMembers =
     (if attr = [] then list_scim_groups io idp (\<lambda>_. True) offset limit withMembers
      else if attr = ''displayName'' then list_scim_groups io idp (\<lambda>g. sg_display_name g = val) offset limit withMembers
      else if attr = ''externalId'' then list_scim_groups io idp (\<lambda>g. sg_external_id g = val) offset limit withMembers
      else tx_fail (ErrInvalid ''cannot filter groups''))"

fun set_members_loop :: "io \<Rightarrow> string \<Rightarrow> string \<Rightarrow> string list \<Rightarrow> unit tx" where
  "set_members_loop io idp gid [] d = Inr ((), d)"
| "set_members_loop io idp gid (u # us) d =
     (case GetUser io idp u d of
        Inl e \<Rightarrow> Inl (if e = ErrNotFound then ErrUnknownMember u else e)
      | Inr (_, d1) \<Rightarrow>
          tx_bind (tx_exec io ''insert scim member'' (\<lambda>d.
            d\<lparr>db_scim_members := snd (sql_insert_ignore scim_member_key
                \<lparr>sm_idp = idp, sm_group_id = gid, sm_user_id = u\<rparr> (db_scim_members d))\<rparr>))
            (\<lambda>_. set_members_loop io idp gid us) d1)"

definition setMembers :: "io \<Rightarrow> string \<Rightarrow> string \<Rightarrow> string list \<Rightarrow> touched \<Rightarrow> (unit \<times> touched) tx" where
  "setMembers io idp gid users tch =
     tx_bind (set_members_loop io idp gid users) (\<lambda>_. tx_return ((), List.insert gid tch))"

definition clear_scim_members :: "string \<Rightarrow> string \<Rightarrow> db \<Rightarrow> db" where
  "clear_scim_members idp gid d =
     d\<lparr>db_scim_members := sql_delete (\<lambda>m. sm_idp m = idp \<and> sm_group_id m = gid) (db_scim_members d)\<rparr>"

definition insert_scim_group :: "io \<Rightarrow> scim_group_row \<Rightarrow> unit tx" where
  "insert_scim_group io r =
     tx_stmt io ''insert scim group'' (\<lambda>d.
       if scim_group_target r \<in> scim_group_target ` set (db_scim_groups d) then Inl (ErrDB ''insert scim group'')
       else (case sql_insert scim_group_key r (db_scim_groups d) of
               None \<Rightarrow> Inl (ErrDB ''insert scim group'')
             | Some t \<Rightarrow> Inr ((), d\<lparr>db_scim_groups := t\<rparr>)))"

definition CreateGroup_scim ::
  "io \<Rightarrow> string \<Rightarrow> bytes \<Rightarrow> scim_group \<Rightarrow> touched \<Rightarrow> (scim_group \<times> touched) tx" where
  "CreateGroup_scim io idp rnd g tch =
     (case ValidateGroupName (sgr_group g) of
        Some e \<Rightarrow> tx_fail e
      | None \<Rightarrow>
          let gid = newSCIMID rnd; now = unix_nano (io_now io) in
          tx_bind (lockDomain io (sgr_domain g)) (\<lambda>_.
          tx_bind (insert_group io \<lparr>g_domain = sgr_domain g, g_name = sgr_group g,
             g_description = ''provisioned by '' @ idp @ '' over SCIM'', g_created_at = now\<rparr>) (\<lambda>_.
          tx_bind (tx_exec io ''clear members'' (clear_members (sgr_domain g) (sgr_group g))) (\<lambda>_.
          tx_bind (insert_scim_group io \<lparr>sg_idp = idp, sg_id = gid, sg_display_name = sgr_display_name g,
             sg_external_id = sgr_external_id g, sg_domain = sgr_domain g, sg_grp = sgr_group g,
             sg_created_at = now, sg_updated_at = now\<rparr>) (\<lambda>_.
          tx_bind (setMembers io idp gid (sgr_members g) tch) (\<lambda>(_, tch').
          tx_bind (GetGroup_scim io idp gid) (\<lambda>r. tx_return (r, tch'))))))))"

definition rename_group :: "io \<Rightarrow> string \<Rightarrow> string \<Rightarrow> string \<Rightarrow> unit tx" where
  "rename_group io dn old new =
     tx_stmt io ''rename group'' (\<lambda>d.
       if (dn, old) \<in> group_key ` set (db_groups d) \<and> (dn, new) \<in> group_key ` set (db_groups d)
       then Inl ErrAlreadyExists
       else Inr ((), d\<lparr>db_groups := sql_update (\<lambda>g. group_key g = (dn, old)) (\<lambda>g. g\<lparr>g_name := new\<rparr>) (db_groups d)\<rparr>))"

definition update_scim_group :: "io \<Rightarrow> string \<Rightarrow> scim_group \<Rightarrow> unit tx" where
  "update_scim_group io idp g =
     tx_stmt io ''update scim group'' (\<lambda>d.
       let t = sql_update (scim_group_at idp (sgr_id g)) (\<lambda>r. r\<lparr>sg_display_name := sgr_display_name g,
             sg_external_id := sgr_external_id g, sg_grp := sgr_group g, sg_updated_at := unix_nano (io_now io)\<rparr>)
             (db_scim_groups d) in
       if distinct (map scim_group_target t) then Inr ((), d\<lparr>db_scim_groups := t\<rparr>)
       else Inl (ErrDB ''update scim group''))"

definition rename_owned :: "io \<Rightarrow> scim_group \<Rightarrow> scim_group \<Rightarrow> unit tx" where
  "rename_owned io prev g =
     (if sgr_group g \<noteq> sgr_group prev then
        (case ValidateGroupName (sgr_group g) of
           Some e \<Rightarrow> tx_fail e
         | None \<Rightarrow>
             tx_bind (rename_group io (sgr_domain prev) (sgr_group prev) (sgr_group g)) (\<lambda>_.
             tx_exec io ''clear members'' (clear_members (sgr_domain prev) (sgr_group prev))))
      else tx_return ())"

definition ReplaceGroup_scim ::
  "io \<Rightarrow> string \<Rightarrow> scim_group \<Rightarrow> touched \<Rightarrow> (scim_group \<times> touched) tx" where
  "ReplaceGroup_scim io idp g tch =
     tx_bind (GetGroup_scim io idp (sgr_id g)) (\<lambda>prev.
     tx_bind (rename_owned io prev g) (\<lambda>_.
     tx_bind (update_scim_group io idp g) (\<lambda>_.
     tx_bind (tx_exec io ''clear scim members'' (clear_scim_members idp (sgr_id g))) (\<lambda>_.
     tx_bind (setMembers io idp (sgr_id g) (sgr_members g) tch) (\<lambda>(_, tch').
     tx_bind (GetGroup_scim io idp (sgr_id g)) (\<lambda>r. tx_return (r, tch')))))))"

fun remove_members_loop :: "io \<Rightarrow> string \<Rightarrow> string \<Rightarrow> string list \<Rightarrow> unit tx" where
  "remove_members_loop io idp gid [] = tx_return ()"
| "remove_members_loop io idp gid (u # us) =
     tx_bind (tx_exec io ''remove scim member'' (\<lambda>d.
       d\<lparr>db_scim_members := sql_delete (\<lambda>m. scim_member_key m = (idp, gid, u)) (db_scim_members d)\<rparr>)) (\<lambda>_.
     remove_members_loop io idp gid us)"

definition PatchMembers ::
  "io \<Rightarrow> string \<Rightarrow> string \<Rightarrow> string list \<Rightarrow> string list \<Rightarrow> touched \<Rightarrow> (unit \<times> touched) tx" where
  "PatchMembers io idp gid add remove tch =
     tx_bind (GetGroup_scim io idp gid) (\<lambda>_.
     tx_bind (remove_members_loop io idp gid remove) (\<lambda>_.
     setMembers io idp gid add (List.insert gid tch)))"

definition RemoveAllMembers :: "io \<Rightarrow> string \<Rightarrow> string \<Rightarrow> touched \<Rightarrow> (unit \<times> touched) tx" where
  "RemoveAllMembers io idp gid tch =
     tx_bind (tx_exec io ''clear scim members'' (clear_scim_members idp gid)) (\<lambda>_.
     tx_return ((), List.insert gid tch))"

definition DeleteGroup_scim :: "io \<Rightarrow> string \<Rightarrow> string \<Rightarrow> touched \<Rightarrow> (unit \<times> touched) tx" where
  "DeleteGroup_scim io idp gid tch =
     tx_bind (GetGroup_scim io idp gid) (\<lambda>g.
     tx_bind (tx_exec io ''delete scim group'' (clear_members (sgr_domain g) (sgr_group g))) (\<lambda>_.
     tx_bind (tx_exec io ''delete scim group'' (delete_group_row (sgr_domain g) (sgr_group g))) (\<lambda>_.
     tx_bind (tx_exec io ''delete scim group'' (clear_scim_members idp gid)) (\<lambda>_.
     tx_bind (tx_exec io ''delete scim group'' (\<lambda>d.
       d\<lparr>db_scim_groups := sql_delete (scim_group_at idp gid) (db_scim_groups d)\<rparr>)) (\<lambda>_.
     tx_return ((), removeAll gid tch))))))"

section \<open>Rebuilding the Omega groups, and the transaction\<close>

text \<open>The principals of the active members of a SCIM group: the SELECT DISTINCT of the rebuild.\<close>

definition active_principals :: "string \<Rightarrow> string \<Rightarrow> db \<Rightarrow> string list" where
  "active_principals idp gid d =
     remdups (concat (map (\<lambda>m. map su_principal (filter (\<lambda>u. user_at (sm_idp m) (sm_user_id m) u \<and> su_active u = 1)
        (db_scim_users d))) (filter (\<lambda>m. sm_idp m = idp \<and> sm_group_id m = gid) (db_scim_members d))))"

definition rebuild_members :: "string \<Rightarrow> string \<Rightarrow> string \<Rightarrow> string \<Rightarrow> db \<Rightarrow> db" where
  "rebuild_members idp gid dn name d =
     d\<lparr>db_members := db_members d @
        map (\<lambda>p. \<lparr>m_domain = dn, m_grp = name, m_principal = p, m_expires_at = 0\<rparr>) (active_principals idp gid d)\<rparr>"

definition syncGroup :: "io \<Rightarrow> string \<Rightarrow> string \<Rightarrow> unit tx" where
  "syncGroup io idp gid d =
     (case GetGroup_scim io idp gid d of
        Inl e \<Rightarrow> if e = ErrNotFound then Inr ((), d) else Inl e
      | Inr (g, d1) \<Rightarrow>
          tx_bind (tx_exec io ''clear members'' (clear_members (sgr_domain g) (sgr_group g))) (\<lambda>_.
          tx_exec io ''rebuild members'' (rebuild_members idp gid (sgr_domain g) (sgr_group g))) d1)"

fun syncGroups :: "io \<Rightarrow> string \<Rightarrow> string list \<Rightarrow> unit tx" where
  "syncGroups io idp [] = tx_return ()"
| "syncGroups io idp (i # is) = tx_bind (syncGroup io idp i) (\<lambda>_. syncGroups io idp is)"

text \<open>
  \<^verbatim>\<open>Store.SCIM\<close>: the function runs with no group touched, the touched groups are
  rebuilt in order, and the event, if it has a kind, is appended, all in one transaction.
\<close>

definition scim_tx ::
  "crypto \<Rightarrow> io \<Rightarrow> store \<Rightarrow> string \<Rightarrow> (touched \<Rightarrow> (audit_event \<times> touched) tx) \<Rightarrow> audit_event tx" where
  "scim_tx cr io s idp fn =
     tx_bind (fn []) (\<lambda>(ev, tch).
     tx_bind (syncGroups io idp (sort tch)) (\<lambda>_.
     if ev_kind ev \<noteq> [] then append_tx cr io s ev else tx_return ev))"

definition SCIM ::
  "crypto \<Rightarrow> io \<Rightarrow> string \<Rightarrow> (touched \<Rightarrow> (audit_event \<times> touched) tx) \<Rightarrow> store \<Rightarrow> (err + audit_event) \<times> store" where
  "SCIM cr io idp fn s =
     (if \<not> IsLeader s then (Inl ErrNotLeader, s)
      else (case run_tx io (scim_tx cr io s idp fn) s of
              (Inl e, s') \<Rightarrow> (Inl e, s')
            | (Inr ev, s') \<Rightarrow> (Inr ev, if ev_kind ev \<noteq> [] then auditCommitted s' else s')))"

definition SCIMManaged :: "io \<Rightarrow> string \<Rightarrow> string \<Rightarrow> store \<Rightarrow> err + (string \<times> bool)" where
  "SCIMManaged io dn name s =
     run_query io ''query scim group'' (\<lambda>d.
       case sql_row (\<lambda>g. sg_domain g = dn \<and> sg_grp g = name) (db_scim_groups d) of
         None \<Rightarrow> ([], False) | Some g \<Rightarrow> (sg_idp g, True)) s"

end
