(* ===== verification/ScimSync.thy ===== *)
theory ScimSync
  imports ScimStore
begin

text \<open>
  What SCIM provisioning promises: outside a transaction, the Omega group a SCIM group owns
  has exactly the principals of its active members, with no expiry.  The handlers of
  \<^verbatim>\<open>internal/server/api/scim.go\<close> run a sequence of \<^verbatim>\<open>SCIMTx\<close> calls, so the
  promise is proved for every sequence of calls.
\<close>

section \<open>Sequences of calls\<close>

datatype scim_call =
    CallCreateUser bytes scim_user
  | CallReplaceUser scim_user
  | CallDeleteUser string
  | CallCreateGroup bytes scim_group
  | CallReplaceGroup scim_group
  | CallPatchMembers string "string list" "string list"
  | CallRemoveAllMembers string
  | CallDeleteGroup string

definition forget :: "('a \<times> touched) tx \<Rightarrow> touched tx" where
  "forget m = tx_bind m (\<lambda>(_, tch). tx_return tch)"

fun run_call :: "(string \<Rightarrow> string) \<Rightarrow> io \<Rightarrow> string \<Rightarrow> scim_call \<Rightarrow> touched \<Rightarrow> touched tx" where
  "run_call lower io idp (CallCreateUser rnd u) tch = forget (CreateUser lower io idp rnd u tch)"
| "run_call lower io idp (CallReplaceUser u) tch = forget (ReplaceUser lower io idp u tch)"
| "run_call lower io idp (CallDeleteUser i) tch = forget (DeleteUser io idp i tch)"
| "run_call lower io idp (CallCreateGroup rnd g) tch = forget (CreateGroup_scim io idp rnd g tch)"
| "run_call lower io idp (CallReplaceGroup g) tch = forget (ReplaceGroup_scim io idp g tch)"
| "run_call lower io idp (CallPatchMembers gid add rm) tch = forget (PatchMembers io idp gid add rm tch)"
| "run_call lower io idp (CallRemoveAllMembers gid) tch = forget (RemoveAllMembers io idp gid tch)"
| "run_call lower io idp (CallDeleteGroup gid) tch = forget (DeleteGroup_scim io idp gid tch)"

fun run_calls :: "(string \<Rightarrow> string) \<Rightarrow> io \<Rightarrow> string \<Rightarrow> scim_call list \<Rightarrow> touched \<Rightarrow> touched tx" where
  "run_calls lower io idp [] tch = tx_return tch"
| "run_calls lower io idp (c # cs) tch =
     tx_bind (run_call lower io idp c tch) (run_calls lower io idp cs)"

definition scim_fn ::
  "(string \<Rightarrow> string) \<Rightarrow> io \<Rightarrow> string \<Rightarrow> scim_call list \<Rightarrow> audit_event \<Rightarrow> touched \<Rightarrow> (audit_event \<times> touched) tx" where
  "scim_fn lower io idp cs ev tch = tx_bind (run_calls lower io idp cs tch) (\<lambda>tch'. tx_return (ev, tch'))"

section \<open>The invariant\<close>

definition scim_refs :: "db \<Rightarrow> bool" where
  "scim_refs d \<longleftrightarrow>
     keyed scim_user_key (db_scim_users d) \<and> keyed scim_group_key (db_scim_groups d)
     \<and> keyed scim_group_target (db_scim_groups d) \<and> keyed scim_member_key (db_scim_members d)
     \<and> (\<forall>m \<in> set (db_scim_members d).
          (sm_idp m, sm_group_id m) \<in> scim_group_key ` set (db_scim_groups d)
          \<and> (sm_idp m, sm_user_id m) \<in> scim_user_key ` set (db_scim_users d))
     \<and> (\<forall>g \<in> set (db_scim_groups d). scim_group_target g \<in> group_key ` set (db_groups d))
     \<and> (\<forall>u \<in> set (db_scim_users d). su_active u = 0 \<or> su_active u = 1)"

definition scim_member_rows :: "scim_group_row \<Rightarrow> db \<Rightarrow> member_row set" where
  "scim_member_rows g d =
     (\<lambda>p. \<lparr>m_domain = sg_domain g, m_grp = sg_grp g, m_principal = p, m_expires_at = 0\<rparr>) `
       set (active_principals (sg_idp g) (sg_id g) d)"

definition synced :: "scim_group_row \<Rightarrow> db \<Rightarrow> bool" where
  "synced g d \<longleftrightarrow> {m \<in> set (db_members d). in_group (sg_domain g) (sg_grp g) m} = scim_member_rows g d"

definition scim_mid :: "string \<Rightarrow> touched \<Rightarrow> db \<Rightarrow> bool" where
  "scim_mid idp tch d \<longleftrightarrow> domain_inv d \<and> scim_refs d \<and>
     (\<forall>g \<in> set (db_scim_groups d). sg_idp g = idp \<and> sg_id g \<in> set tch \<or> synced g d)"

definition scim_inv :: "db \<Rightarrow> bool" where
  "scim_inv d \<longleftrightarrow> domain_inv d \<and> scim_refs d \<and> (\<forall>g \<in> set (db_scim_groups d). synced g d)"

lemma scim_mid_Nil: "scim_mid idp [] d \<longleftrightarrow> scim_inv d"
  by (simp add: scim_mid_def scim_inv_def)

lemma set_active_principals:
  "set (active_principals idp gid d) =
     {p. \<exists>m \<in> set (db_scim_members d). \<exists>u \<in> set (db_scim_users d).
        sm_idp m = idp \<and> sm_group_id m = gid \<and> scim_user_key u = (idp, sm_user_id m) \<and> su_active u = 1
        \<and> su_principal u = p}"
  by (auto simp: active_principals_def user_at_def)

lemma synced_cong:
  assumes "synced g d"
    and "{m \<in> set (db_members d'). in_group (sg_domain g) (sg_grp g) m} =
         {m \<in> set (db_members d). in_group (sg_domain g) (sg_grp g) m}"
    and "set (active_principals (sg_idp g) (sg_id g) d') = set (active_principals (sg_idp g) (sg_id g) d)"
  shows "synced g d'"
  using assms by (simp add: synced_def scim_member_rows_def)

section \<open>Reads inside the transaction\<close>

lemma forget_Inr [tx_simps]:
  "forget m d = Inr (tch, d') \<longleftrightarrow> (\<exists>x. m d = Inr ((x, tch), d'))"
  by (auto simp: forget_def tx_simps split: prod.splits)

lemma GetUser_Inr [tx_simps]:
  "GetUser io idp i d = Inr (u, d') \<longleftrightarrow>
     \<not> io_fails io ''query scim user'' \<and> d' = d
     \<and> (\<exists>r. sql_row (user_at idp i) (db_scim_users d) = Some r \<and> u = scanSCIMUser r)"
  by (auto simp: GetUser_def tx_stmt_def split: option.splits)

definition scim_rows :: "string \<Rightarrow> string \<Rightarrow> db \<Rightarrow> scim_group_row list" where
  "scim_rows idp i d = page 0 1 (sort_key sg_created_at (sort_key sg_id
     (filter (\<lambda>g. sg_idp g = idp \<and> sg_id g = i) (db_scim_groups d))))"

lemma scim_rows_Nil: "scim_rows idp i d = [] \<longleftrightarrow> (\<forall>g \<in> set (db_scim_groups d). \<not> scim_group_at idp i g)"
proof -
  have "scim_rows idp i d = [] \<longleftrightarrow> filter (\<lambda>g. sg_idp g = idp \<and> sg_id g = i) (db_scim_groups d) = []"
    by (simp add: scim_rows_def page_def)
  then show ?thesis by (auto simp: filter_empty_conv scim_group_at_def scim_group_key_def)
qed

lemma scim_rows_Cons:
  assumes "scim_rows idp i d = g # gs"
  shows "g \<in> set (db_scim_groups d) \<and> scim_group_at idp i g"
proof -
  have "g \<in> set (scim_rows idp i d)" using assms by simp
  then have "g \<in> set (filter (\<lambda>g. sg_idp g = idp \<and> sg_id g = i) (db_scim_groups d))"
    unfolding scim_rows_def page_def using set_take_subset by fastforce
  then show ?thesis by (auto simp: scim_group_at_def scim_group_key_def)
qed

lemma list_one_scim_group:
  "list_scim_groups io idp (\<lambda>g. sg_id g = i) 0 (Suc 0) True d =
     (if io_fails io ''count scim groups'' then Inl (ErrDB ''count scim groups'')
      else if io_fails io ''query scim groups'' then Inl (ErrDB ''query scim groups'')
      else if scim_rows idp i d = [] then Inr (([], sql_count (\<lambda>g. sg_idp g = idp \<and> sg_id g = i) (db_scim_groups d)), d)
      else if io_fails io ''query scim members'' then Inl (ErrDB ''query scim members'')
      else Inr ((map (\<lambda>r. (scan_scim_group r)\<lparr>sgr_members := member_ids idp (sg_id r) d\<rparr>) (scim_rows idp i d),
                 sql_count (\<lambda>g. sg_idp g = idp \<and> sg_id g = i) (db_scim_groups d)), d))"
  by (simp add: list_scim_groups_def tx_defs scim_rows_def comp_def) (simp add: scan_scim_group_def)

lemma GetGroup_scim_Inr:
  assumes "GetGroup_scim io idp i d = Inr (g, d')"
  shows "d' = d \<and> (\<exists>r \<in> set (db_scim_groups d). scim_group_at idp i r \<and> sgr_domain g = sg_domain r
           \<and> sgr_group g = sg_grp r \<and> sgr_id g = i)"
proof -
  obtain r rs where r: "scim_rows idp i d = r # rs" and "d' = d"
    "g = (scan_scim_group r)\<lparr>sgr_members := member_ids idp (sg_id r) d\<rparr>"
    using assms
    by (cases "scim_rows idp i d")
       (auto simp: GetGroup_scim_def tx_bind_def list_one_scim_group tx_fail_def tx_return_def split: if_splits)
  with scim_rows_Cons [OF r] show ?thesis
    by (auto simp: scan_scim_group_def scim_group_at_def scim_group_key_def intro!: bexI [of _ r])
qed

lemma GetGroup_scim_NotFound:
  "GetGroup_scim io idp i d = Inl ErrNotFound \<Longrightarrow> \<forall>g \<in> set (db_scim_groups d). \<not> scim_group_at idp i g"
  by (auto simp: GetGroup_scim_def tx_bind_def list_one_scim_group scim_rows_Nil tx_return_def
      split: if_splits list.splits)

section \<open>Changes to users and memberships\<close>

lemma scim_mid_mono: "scim_mid idp tch d \<Longrightarrow> set tch \<subseteq> set tch' \<Longrightarrow> scim_mid idp tch' d"
  by (auto simp: scim_mid_def)

text \<open>
  A change of the user and membership tables keeps the invariant if it keeps the references
  and touches every group whose active principals it changes.
\<close>

lemma scim_tables_mid:
  assumes mid: "scim_mid idp tch d" and refs: "scim_refs (d\<lparr>db_scim_users := us, db_scim_members := ms\<rparr>)"
    and sub: "set tch \<subseteq> set tch'"
    and same: "\<And>g. g \<in> set (db_scim_groups d) \<Longrightarrow> \<not> (sg_idp g = idp \<and> sg_id g \<in> set tch') \<Longrightarrow>
      set (active_principals (sg_idp g) (sg_id g) (d\<lparr>db_scim_users := us, db_scim_members := ms\<rparr>)) =
      set (active_principals (sg_idp g) (sg_id g) d)"
  shows "scim_mid idp tch' (d\<lparr>db_scim_users := us, db_scim_members := ms\<rparr>)"
proof -
  let ?d = "d\<lparr>db_scim_users := us, db_scim_members := ms\<rparr>"
  have "domain_inv ?d" using mid by (simp add: scim_mid_def domain_inv_def)
  moreover have "synced g ?d" if "g \<in> set (db_scim_groups d)" "\<not> (sg_idp g = idp \<and> sg_id g \<in> set tch')" for g
  proof (rule synced_cong)
    show "synced g d" using mid that sub by (auto simp: scim_mid_def)
  qed (use same [OF that] in simp_all)
  ultimately show ?thesis using refs by (auto simp: scim_mid_def)
qed

definition has_membership :: "string \<Rightarrow> string \<Rightarrow> scim_member_row list \<Rightarrow> scim_user_row \<Rightarrow> bool" where
  "has_membership idp gid ms u \<longleftrightarrow>
     (\<exists>m \<in> set ms. sm_idp m = idp \<and> sm_group_id m = gid \<and> scim_user_key u = (idp, sm_user_id m))"

lemma active_principals_image:
  "set (active_principals idp gid d) =
     su_principal ` {u \<in> set (db_scim_users d). su_active u = 1 \<and> has_membership idp gid (db_scim_members d) u}"
  unfolding set_active_principals has_membership_def by blast

lemma image_filter_update:
  assumes "\<And>x. x \<in> A \<Longrightarrow> Q (h x) = Q x"
    and "\<And>x. x \<in> A \<Longrightarrow> Q x \<Longrightarrow> act (h x) = act x \<and> pr (h x) = pr x"
  shows "pr ` {u \<in> h ` A. act u = a \<and> Q u} = pr ` {u \<in> A. act u = a \<and> Q u}"
proof -
  have "{u \<in> h ` A. act u = a \<and> Q u} = h ` {u \<in> A. act u = a \<and> Q u}"
    using assms by auto
  moreover have "pr ` h ` {u \<in> A. act u = a \<and> Q u} = pr ` {u \<in> A. act u = a \<and> Q u}"
    using assms(2) by (simp add: image_image)
  ultimately show ?thesis by simp
qed

lemma keyed_updateE:
  assumes "keyed key t" "\<And>x. key (f x) = key x"
  shows "key ` set (sql_update P f t) = key ` set t"
proof -
  have "key ` set (sql_update P f t) = (\<lambda>r. key (if P r then f r else r)) ` set t"
    unfolding set_sql_update image_image by (rule refl)
  also have "\<dots> = key ` set t" using assms(2) by (intro image_cong) auto
  finally show ?thesis .
qed

lemma CreateUser_mid:
  assumes mid: "scim_mid idp tch d" and c: "CreateUser lower io idp rnd u tch d = Inr ((u', tch'), d')"
  shows "scim_mid idp tch' d'"
proof -
  define r where "r = user_row lower idp (u\<lparr>u_id := newSCIMID rnd, u_created := io_now io, u_modified := io_now io\<rparr>)"
  from c have tch: "tch' = tch"
    and fresh: "scim_user_key r \<notin> scim_user_key ` set (db_scim_users d)"
    and d': "d' = d\<lparr>db_scim_users := db_scim_users d @ [r]\<rparr>"
    by (auto simp: CreateUser_def Let_def tx_stmt_Inr sql_insert_Some r_def [symmetric] split: if_splits option.splits)
  have r: "su_active r = 0 \<or> su_active r = 1" by (simp add: r_def user_row_def boolInt_def)
  have "scim_refs (d\<lparr>db_scim_users := db_scim_users d @ [r], db_scim_members := db_scim_members d\<rparr>)"
    using mid r keyed_snoc [OF _ fresh] by (auto simp: scim_mid_def scim_refs_def)
  moreover have "\<not> has_membership i gid (db_scim_members d) r" for i gid
    using mid fresh by (auto simp: scim_mid_def scim_refs_def has_membership_def)
  then have "{u. (u = r \<or> u \<in> set (db_scim_users d)) \<and> su_active u = 1 \<and> has_membership i gid (db_scim_members d) u} =
        {u \<in> set (db_scim_users d). su_active u = 1 \<and> has_membership i gid (db_scim_members d) u}" for i gid
    by blast
  ultimately have "scim_mid idp tch (d\<lparr>db_scim_users := db_scim_users d @ [r], db_scim_members := db_scim_members d\<rparr>)"
    by (intro scim_tables_mid [OF mid]) (simp_all add: active_principals_image)
  then show ?thesis by (simp add: tch d')
qed

lemma update_user_Inr:
  assumes "update_user io idp r d = Inr (u, d')"
  obtains f where "\<And>x. scim_user_key (f x) = scim_user_key x" "\<And>x. su_active (f x) = su_active r"
    "\<And>x. su_principal (f x) = su_principal r"
    "d' = d\<lparr>db_scim_users := sql_update (user_at idp (su_id r)) f (db_scim_users d)\<rparr>"
proof
  let ?f = "\<lambda>x. x\<lparr>su_user_name := su_user_name r,
           su_user_name_lc := su_user_name_lc r, su_external_id := su_external_id r,
           su_display_name := su_display_name r, su_active := su_active r, su_principal := su_principal r,
           su_updated_at := su_updated_at r\<rparr>"
  show "d' = d\<lparr>db_scim_users := sql_update (user_at idp (su_id r)) ?f (db_scim_users d)\<rparr>"
    using assms by (auto simp: update_user_def tx_stmt_Inr split: if_splits)
qed (simp_all add: scim_user_key_def)

lemma touch_set [simp]: "set (touch gs tch) = set gs \<union> set tch"
  unfolding touch_def by (induction gs arbitrary: tch) auto

lemma set_groups_of_user:
  "gid \<in> set (groups_of_user idp i d) \<longleftrightarrow>
     (\<exists>m \<in> set (db_scim_members d). sm_idp m = idp \<and> sm_user_id m = i \<and> sm_group_id m = gid)"
  by (auto simp: groups_of_user_def)

text \<open>Updating one user, with its groups touched unless principal and activity stay.\<close>

lemma update_user_mid:
  assumes mid: "scim_mid idp tch d" and act: "a = 0 \<or> a = 1" and sub: "set tch \<subseteq> set tch'"
    and f: "\<And>x. scim_user_key (f x) = scim_user_key x" "\<And>x. su_active (f x) = a" "\<And>x. su_principal (f x) = p"
    and row: "r \<in> set (db_scim_users d)" "user_at idp i r"
    and tch: "su_active r = a \<and> su_principal r = p \<or> set (groups_of_user idp i d) \<subseteq> set tch'"
  shows "scim_mid idp tch' (d\<lparr>db_scim_users := sql_update (user_at idp i) f (db_scim_users d)\<rparr>)"
proof -
  let ?us = "sql_update (user_at idp i) f (db_scim_users d)"
  have k: "keyed scim_user_key (db_scim_users d)" using mid by (simp add: scim_mid_def scim_refs_def)
  have "scim_refs (d\<lparr>db_scim_users := ?us, db_scim_members := db_scim_members d\<rparr>)"
    using mid act f keyed_update [OF k f(1)] keyed_updateE [OF k f(1)]
    by (auto simp: scim_mid_def scim_refs_def set_sql_update)
  moreover have "set (active_principals (sg_idp g) (sg_id g) (d\<lparr>db_scim_users := ?us, db_scim_members := db_scim_members d\<rparr>)) =
      set (active_principals (sg_idp g) (sg_id g) d)"
    if g: "\<not> (sg_idp g = idp \<and> sg_id g \<in> set tch')" for g
  proof -
    have eq: "su_active (f x) = su_active x \<and> su_principal (f x) = su_principal x"
      if x: "x \<in> set (db_scim_users d)" "user_at idp i x"
        and mem: "has_membership (sg_idp g) (sg_id g) (db_scim_members d) x" for x
    proof -
      have "x = r" using keyed_inj [OF k x(1) row(1)] x(2) row(2) by (simp add: user_at_def)
      moreover from mem x(2) have "sg_idp g = idp \<and> sg_id g \<in> set (groups_of_user idp i d)"
        by (auto simp: has_membership_def user_at_def set_groups_of_user)
      ultimately show ?thesis using tch f g by auto
    qed
    have key: "has_membership (sg_idp g) (sg_id g) (db_scim_members d) (f x) =
        has_membership (sg_idp g) (sg_id g) (db_scim_members d) x" for x
      by (simp add: has_membership_def f)
    have t: "db_scim_users (d\<lparr>db_scim_users := ?us, db_scim_members := db_scim_members d\<rparr>) = ?us"
      "db_scim_members (d\<lparr>db_scim_users := ?us, db_scim_members := db_scim_members d\<rparr>) = db_scim_members d"
      by simp_all
    show ?thesis
      unfolding active_principals_image t set_sql_update
      by (rule image_filter_update) (use eq key in \<open>auto simp: f\<close>)
  qed
  ultimately have "scim_mid idp tch' (d\<lparr>db_scim_users := ?us, db_scim_members := db_scim_members d\<rparr>)"
    using sub by (intro scim_tables_mid [OF mid]) auto
  then show ?thesis by simp
qed

lemma DeleteUser_mid:
  assumes mid: "scim_mid idp tch d" and c: "DeleteUser io idp i tch d = Inr ((u, tch'), d')"
  shows "scim_mid idp tch' d'"
proof -
  let ?us = "sql_delete (user_at idp i) (db_scim_users d)"
  let ?ms = "sql_delete (\<lambda>m. sm_idp m = idp \<and> sm_user_id m = i) (db_scim_members d)"
  from c have tch: "tch' = touch (groups_of_user idp i d) tch"
    and d': "d' = d\<lparr>db_scim_users := ?us, db_scim_members := ?ms\<rparr>"
    by (auto simp: DeleteUser_def touchGroupsOf_def tx_simps)
  have "scim_refs (d\<lparr>db_scim_users := ?us, db_scim_members := ?ms\<rparr>)"
  proof -
    have img: "scim_user_key ` set ?us = scim_user_key ` set (db_scim_users d) - {(idp, i)}"
      by (auto simp: set_sql_delete user_at_def)
    have "(sm_idp m, sm_user_id m) \<in> scim_user_key ` set ?us" if "m \<in> set ?ms" for m
      using that mid unfolding img by (auto simp: scim_mid_def scim_refs_def set_sql_delete)
    then show ?thesis
      using mid by (simp add: scim_mid_def scim_refs_def keyed_delete) (auto simp: set_sql_delete)
  qed
  moreover have "{u \<in> set ?us. su_active u = 1 \<and> has_membership (sg_idp g) (sg_id g) ?ms u} =
      {u \<in> set (db_scim_users d). su_active u = 1 \<and> has_membership (sg_idp g) (sg_id g) (db_scim_members d) u}"
    if "\<not> (sg_idp g = idp \<and> sg_id g \<in> set tch')" for g
    using that by (auto simp: tch set_groups_of_user has_membership_def set_sql_delete user_at_def)
  ultimately show ?thesis
    unfolding d' by (intro scim_tables_mid [OF mid]) (auto simp: active_principals_image tch)
qed

lemma ReplaceUser_mid:
  assumes mid: "scim_mid idp tch d" and c: "ReplaceUser lower io idp u tch d = Inr ((u', tch'), d')"
  shows "scim_mid idp tch' d'"
proof -
  obtain r where r: "sql_row (user_at idp (u_id u)) (db_scim_users d) = Some r"
    using c by (auto simp: ReplaceUser_def tx_bind_Inr GetUser_Inr)
  define v where "v = u\<lparr>u_created := u_created (scanSCIMUser r), u_modified := io_now io\<rparr>"
  have v: "u_id v = u_id u" "u_principal v = u_principal u" "u_active v = u_active u" by (simp_all add: v_def)
  have scan: "u_principal (scanSCIMUser r) = su_principal r" "u_active (scanSCIMUser r) = (su_active r \<noteq> 0)"
    by (simp_all add: scanSCIMUser_def)
  from c have up: "update_user io idp (user_row lower idp v) d = Inr ((), d')"
    and tch: "tch' = (if su_principal r \<noteq> u_principal u \<or> (su_active r \<noteq> 0) \<noteq> u_active u
       then touch (groups_of_user idp (u_id u) d') tch else tch)"
    by (auto simp: ReplaceUser_def tx_simps r v_def [symmetric] v scan touchGroupsOf_def Let_def split: if_splits)
  note row = sql_row_SomeD [OF r]
  obtain f where f: "\<And>x. scim_user_key (f x) = scim_user_key x" "\<And>x. su_active (f x) = boolInt (u_active u)"
    "\<And>x. su_principal (f x) = u_principal u"
    and d': "d' = d\<lparr>db_scim_users := sql_update (user_at idp (u_id u)) f (db_scim_users d)\<rparr>"
    using update_user_Inr [OF up] by (simp add: user_row_def v) metis
  have act: "su_active r = 0 \<or> su_active r = 1" using mid row by (auto simp: scim_mid_def scim_refs_def)
  have "groups_of_user idp (u_id u) d' = groups_of_user idp (u_id u) d" by (simp add: groups_of_user_def d')
  then have "su_active r = boolInt (u_active u) \<and> su_principal r = u_principal u
      \<or> set (groups_of_user idp (u_id u) d) \<subseteq> set tch'" "set tch \<subseteq> set tch'"
    using act by (auto simp: tch boolInt_def)
  then show ?thesis
    unfolding d' using f row by (intro update_user_mid [OF mid]) (auto simp: boolInt_def)
qed

section \<open>Changes to groups\<close>

text \<open>The rows of one group may change if that group is touched.\<close>

lemma members_mid:
  assumes mid: "scim_mid idp tch d" and refs: "scim_refs (d\<lparr>db_scim_members := ms\<rparr>)"
    and rest: "\<And>m. \<not> (sm_idp m = idp \<and> sm_group_id m = gid) \<Longrightarrow> m \<in> set ms \<longleftrightarrow> m \<in> set (db_scim_members d)"
    and sub: "set tch \<subseteq> set tch'" "gid \<in> set tch'"
  shows "scim_mid idp tch' (d\<lparr>db_scim_members := ms\<rparr>)"
proof -
  have eq: "has_membership (sg_idp g) (sg_id g) ms u = has_membership (sg_idp g) (sg_id g) (db_scim_members d) u"
    if "\<not> (sg_idp g = idp \<and> sg_id g \<in> set tch')" for g u
  proof -
    have "m \<in> set ms \<longleftrightarrow> m \<in> set (db_scim_members d)" if "sm_idp m = sg_idp g" "sm_group_id m = sg_id g" for m
      using rest [of m] that sub(2) \<open>\<not> (sg_idp g = idp \<and> sg_id g \<in> set tch')\<close> by auto
    then show ?thesis unfolding has_membership_def by blast
  qed
  have "scim_mid idp tch' (d\<lparr>db_scim_users := db_scim_users d, db_scim_members := ms\<rparr>)"
  proof (rule scim_tables_mid [OF mid])
    fix g assume "\<not> (sg_idp g = idp \<and> sg_id g \<in> set tch')"
    from eq [OF this] show "set (active_principals (sg_idp g) (sg_id g)
        (d\<lparr>db_scim_users := db_scim_users d, db_scim_members := ms\<rparr>)) =
      set (active_principals (sg_idp g) (sg_id g) d)"
      by (simp add: active_principals_image)
  qed (use refs sub in simp_all)
  then show ?thesis by simp
qed

lemma set_members_loop_Inr:
  assumes "set_members_loop io idp gid us d = Inr (x, d')"
  shows "\<exists>ms. d' = d\<lparr>db_scim_members := ms\<rparr>
           \<and> set ms = set (db_scim_members d) \<union> (\<lambda>u. \<lparr>sm_idp = idp, sm_group_id = gid, sm_user_id = u\<rparr>) ` set us
           \<and> (keyed scim_member_key (db_scim_members d) \<longrightarrow> keyed scim_member_key ms)
           \<and> (\<forall>u \<in> set us. (idp, u) \<in> scim_user_key ` set (db_scim_users d))"
  using assms
proof (induction us arbitrary: d)
  case Nil
  then show ?case by (auto intro!: exI [of _ "db_scim_members d"])
next
  case (Cons u us)
  let ?r = "\<lparr>sm_idp = idp, sm_group_id = gid, sm_user_id = u\<rparr>"
  let ?d = "d\<lparr>db_scim_members := snd (sql_insert_ignore scim_member_key ?r (db_scim_members d))\<rparr>"
  obtain s where s: "GetUser io idp u d = Inr (s, d)"
    using Cons.prems by (auto simp: GetUser_def tx_stmt_def split: if_splits option.splits)
  then have u: "(idp, u) \<in> scim_user_key ` set (db_scim_users d)"
    by (force simp: GetUser_Inr user_at_def dest!: sql_row_SomeD)
  have rest: "set_members_loop io idp gid us ?d = Inr (x, d')"
    using Cons.prems s by (auto simp: tx_bind_Inr tx_exec_Inr)
  have r: "scim_member_key y = (idp, gid, u) \<Longrightarrow> y = ?r" for y
    by (cases y) (simp add: scim_member_key_def)
  have ins: "set (snd (sql_insert_ignore scim_member_key ?r (db_scim_members d))) = insert ?r (set (db_scim_members d))"
  proof (cases "scim_member_key ?r \<in> scim_member_key ` set (db_scim_members d)")
    case True
    then obtain y where "y \<in> set (db_scim_members d)" "scim_member_key y = (idp, gid, u)"
      by (auto simp: scim_member_key_def)
    with r [of y] True show ?thesis by (simp add: snd_sql_insert_ignore insert_absorb)
  qed (simp add: snd_sql_insert_ignore)
  from Cons.IH [OF rest] obtain ms where "d' = ?d\<lparr>db_scim_members := ms\<rparr>"
    "set ms = insert ?r (set (db_scim_members d)) \<union> (\<lambda>u. \<lparr>sm_idp = idp, sm_group_id = gid, sm_user_id = u\<rparr>) ` set us"
    "keyed scim_member_key (snd (sql_insert_ignore scim_member_key ?r (db_scim_members d))) \<longrightarrow> keyed scim_member_key ms"
    "\<forall>u \<in> set us. (idp, u) \<in> scim_user_key ` set (db_scim_users d)"
    by (auto simp: ins)
  then show ?case
    using u keyed_insert_ignore [of scim_member_key "db_scim_members d" ?r] by (intro exI [of _ ms]) auto
qed
lemma setMembers_mid:
  assumes mid: "scim_mid idp tch d" and g: "(idp, gid) \<in> scim_group_key ` set (db_scim_groups d)"
    and c: "setMembers io idp gid us tch d = Inr ((x, tch'), d')"
  shows "scim_mid idp tch' d' \<and> tch' = List.insert gid tch \<and> db_scim_groups d' = db_scim_groups d"
proof -
  from c have loop: "set_members_loop io idp gid us d = Inr ((), d')" and tch: "tch' = List.insert gid tch"
    by (auto simp: setMembers_def tx_simps)
  from set_members_loop_Inr [OF loop] obtain ms where d': "d' = d\<lparr>db_scim_members := ms\<rparr>"
    and ms: "set ms = set (db_scim_members d) \<union> (\<lambda>u. \<lparr>sm_idp = idp, sm_group_id = gid, sm_user_id = u\<rparr>) ` set us"
    "keyed scim_member_key (db_scim_members d) \<longrightarrow> keyed scim_member_key ms"
    "\<forall>u \<in> set us. (idp, u) \<in> scim_user_key ` set (db_scim_users d)" by blast
  have "scim_refs (d\<lparr>db_scim_members := ms\<rparr>)"
    using mid g ms by (auto simp: scim_mid_def scim_refs_def)
  then have "scim_mid idp tch' (d\<lparr>db_scim_members := ms\<rparr>)"
    by (rule members_mid [OF mid, where gid = gid]) (auto simp: ms(1) tch)
  then show ?thesis by (simp add: d' tch)
qed

lemma delete_members_mid:
  assumes mid: "scim_mid idp tch d" and sub: "set tch \<subseteq> set tch'" "gid \<in> set tch'"
    and P: "\<And>m. P m \<Longrightarrow> sm_idp m = idp \<and> sm_group_id m = gid"
  shows "scim_mid idp tch' (d\<lparr>db_scim_members := sql_delete P (db_scim_members d)\<rparr>)"
proof (rule members_mid [OF mid _ _ sub])
  show "scim_refs (d\<lparr>db_scim_members := sql_delete P (db_scim_members d)\<rparr>)"
    using mid by (auto simp: scim_mid_def scim_refs_def keyed_delete set_sql_delete)
qed (use P in \<open>auto simp: set_sql_delete\<close>)

lemma remove_members_mid:
  assumes "scim_mid idp tch d" "gid \<in> set tch" "remove_members_loop io idp gid us d = Inr (x, d')"
  shows "scim_mid idp tch d' \<and> db_scim_groups d' = db_scim_groups d"
  using assms
proof (induction us arbitrary: d)
  case (Cons u us)
  let ?d = "d\<lparr>db_scim_members := sql_delete (\<lambda>m. scim_member_key m = (idp, gid, u)) (db_scim_members d)\<rparr>"
  have "scim_mid idp tch ?d"
    using Cons.prems by (intro delete_members_mid [where gid = gid]) (auto simp: scim_member_key_def)
  moreover have "remove_members_loop io idp gid us ?d = Inr (x, d')"
    using Cons.prems by (auto simp: tx_simps)
  ultimately show ?case using Cons.IH [of ?d] Cons.prems by simp
qed (simp add: tx_simps)

lemma scim_key_image: "scim_group_at idp i r \<Longrightarrow> r \<in> set (db_scim_groups d) \<Longrightarrow> (idp, i) \<in> scim_group_key ` set (db_scim_groups d)"
  by (force simp: scim_group_at_def)

lemma PatchMembers_mid:
  assumes mid: "scim_mid idp tch d" and c: "PatchMembers io idp gid add rm tch d = Inr ((x, tch'), d')"
  shows "scim_mid idp tch' d'"
proof -
  from c obtain g d1 where g: "GetGroup_scim io idp gid d = Inr (g, d)"
    and rm: "remove_members_loop io idp gid rm d = Inr ((), d1)"
    and set: "setMembers io idp gid add (List.insert gid tch) d1 = Inr ((x, tch'), d')"
    by (auto simp: PatchMembers_def tx_bind_Inr dest: GetGroup_scim_Inr)
  have "scim_mid idp (List.insert gid tch) d" using scim_mid_mono [OF mid, of "List.insert gid tch"] by auto
  from remove_members_mid [OF this _ rm] have mid1: "scim_mid idp (List.insert gid tch) d1"
    and eq: "db_scim_groups d1 = db_scim_groups d" by simp_all
  from GetGroup_scim_Inr [OF g] have "(idp, gid) \<in> scim_group_key ` set (db_scim_groups d1)"
    by (auto simp: eq intro: scim_key_image)
  from setMembers_mid [OF mid1 this set] show ?thesis by blast
qed

lemma RemoveAllMembers_mid:
  assumes "scim_mid idp tch d" "RemoveAllMembers io idp gid tch d = Inr ((x, tch'), d')"
  shows "scim_mid idp tch' d'"
  using assms by (auto simp: RemoveAllMembers_def tx_simps clear_scim_members_def intro!: delete_members_mid [where gid = gid])

text \<open>
  Changes of the Omega groups a SCIM group owns: the other SCIM groups own other groups, and
  their rows stay.
\<close>

lemma synced_other:
  assumes "synced g d" "db_scim_users d' = db_scim_users d" "db_scim_members d' = db_scim_members d"
    and "\<And>m. in_group (sg_domain g) (sg_grp g) m \<Longrightarrow> m \<in> set (db_members d') \<longleftrightarrow> m \<in> set (db_members d)"
  shows "synced g d'"
  by (rule synced_cong [OF assms(1)]) (use assms in \<open>auto simp: active_principals_def\<close>)

lemma in_group_clear: "m \<in> set (db_members (clear_members dn name d)) \<longleftrightarrow> m \<in> set (db_members d) \<and> \<not> in_group dn name m"
  by (auto simp: clear_members_def set_sql_delete)

lemma in_group_unique: "in_group dn name m \<Longrightarrow> in_group dn' name' m \<Longrightarrow> (dn, name) = (dn', name')"
  by (simp add: in_group_def)

lemma add_scim_group_mid:
  assumes mid: "scim_mid idp tch d" and dom: "sg_domain r \<in> d_name ` set (db_domains d)"
    and grp: "group_key g = scim_group_target r" "group_key g \<notin> group_key ` set (db_groups d)"
    and key: "scim_group_key r \<notin> scim_group_key ` set (db_scim_groups d)" "sg_idp r = idp"
  shows "scim_mid idp (List.insert (sg_id r) tch) ((clear_members (sg_domain r) (sg_grp r)
           (d\<lparr>db_groups := db_groups d @ [g]\<rparr>))\<lparr>db_scim_groups := db_scim_groups d @ [r]\<rparr>)"
    (is "scim_mid idp ?t (?e\<lparr>db_scim_groups := _\<rparr>)")
proof -
  let ?d = "?e\<lparr>db_scim_groups := db_scim_groups d @ [r]\<rparr>"
  have tgt: "scim_group_target r \<notin> scim_group_target ` set (db_scim_groups d)"
    using mid grp by (auto simp: scim_mid_def scim_refs_def image_subset_iff)
  have gd: "g_domain g \<in> d_name ` set (db_domains d)"
    using dom grp(1) by (simp add: group_key_def scim_group_target_def)
  have "domain_inv (d\<lparr>db_groups := db_groups d @ [g]\<rparr>)"
    using mid add_group_inv [OF _ gd grp(2)] by (simp add: scim_mid_def)
  then have inv: "domain_inv ?d"
    using clear_members_inv domain_inv_cong [of ?d ?e] by simp
  have refs: "scim_refs ?d"
    using mid key(1) tgt grp(1) by (auto simp: scim_mid_def scim_refs_def clear_members_def keyed_snoc)
  have "synced x ?d" if "x \<in> set (db_scim_groups d)" "\<not> (sg_idp x = idp \<and> sg_id x \<in> set ?t)" for x
  proof (rule synced_other)
    show "synced x d" using mid that by (auto simp: scim_mid_def)
    have "scim_group_target x \<noteq> scim_group_target r" using tgt that(1) by (metis image_eqI)
    then show "m \<in> set (db_members ?d) \<longleftrightarrow> m \<in> set (db_members d)" if "in_group (sg_domain x) (sg_grp x) m" for m
      using that by (auto simp: clear_members_def set_sql_delete in_group_def scim_group_target_def)
  qed (simp_all add: clear_members_def)
  then show ?thesis
    unfolding scim_mid_def using inv refs key(2) by (auto simp: clear_members_def)
qed

lemma CreateGroup_mid:
  assumes mid: "scim_mid idp tch d" and c: "CreateGroup_scim io idp rnd g tch d = Inr ((x, tch'), d')"
  shows "scim_mid idp tch' d'"
proof -
  define r where "r = \<lparr>sg_idp = idp, sg_id = newSCIMID rnd, sg_display_name = sgr_display_name g,
     sg_external_id = sgr_external_id g, sg_domain = sgr_domain g, sg_grp = sgr_group g,
     sg_created_at = unix_nano (io_now io), sg_updated_at = unix_nano (io_now io)\<rparr>"
  define og where "og = \<lparr>g_domain = sgr_domain g, g_name = sgr_group g,
     g_description = ''provisioned by '' @ idp @ '' over SCIM'', g_created_at = unix_nano (io_now io)\<rparr>"
  let ?d = "(clear_members (sgr_domain g) (sgr_group g) (d\<lparr>db_groups := db_groups d @ [og]\<rparr>))
              \<lparr>db_scim_groups := db_scim_groups d @ [r]\<rparr>"
  have r: "sg_domain r = sgr_domain g" "sg_grp r = sgr_group g" "sg_idp r = idp" "sg_id r = newSCIMID rnd"
    by (simp_all add: r_def)
  from c obtain y where dom: "sgr_domain g \<in> d_name ` set (db_domains d)"
    and fresh: "group_key og \<notin> group_key ` set (db_groups d)"
      "scim_group_key r \<notin> scim_group_key ` set (db_scim_groups d)"
    and set: "setMembers io idp (newSCIMID rnd) (sgr_members g) tch ?d = Inr ((y, tch'), d')"
    unfolding CreateGroup_scim_def Let_def r_def [symmetric] og_def [symmetric]
    by (auto simp: tx_simps insert_scim_group_def table_simps clear_members_def split: option.splits if_splits
          dest: GetGroup_scim_Inr)
  have "group_key og = scim_group_target r" by (simp add: og_def r_def group_key_def scim_group_target_def)
  from add_scim_group_mid [of idp tch d r og, OF mid _ this fresh r(3)] dom
  have mid1: "scim_mid idp (List.insert (sg_id r) tch) ?d" by (simp add: r)
  have "setMembers io idp (sg_id r) (sgr_members g) (List.insert (sg_id r) tch) ?d = Inr ((y, tch'), d')"
    using set by (auto simp: r setMembers_def tx_simps)
  from setMembers_mid [OF mid1 _ this] show ?thesis by (auto simp: scim_group_key_def r)
qed
lemma image_replace: "a \<in> k ` A \<Longrightarrow> (\<lambda>g. if k g = a then b else k g) ` A = insert b (k ` A - {a})"
  by (auto simp: image_iff)

lemma inj_on_replace: "inj_on k A \<Longrightarrow> b \<notin> k ` A \<Longrightarrow> inj_on (\<lambda>g. if k g = a then b else k g) A"
  unfolding inj_on_def by (metis image_eqI)

definition renamed :: "string \<Rightarrow> string \<Rightarrow> string \<Rightarrow> db \<Rightarrow> db" where
  "renamed dn old new d =
     clear_members dn old (d\<lparr>db_groups := sql_update (\<lambda>g. group_key g = (dn, old)) (\<lambda>g. g\<lparr>g_name := new\<rparr>) (db_groups d)\<rparr>)"

lemma renamed_inv:
  assumes inv: "domain_inv d" and old: "(dn, old) \<in> group_key ` set (db_groups d)"
    and new: "(dn, new) \<notin> group_key ` set (db_groups d)"
  shows "domain_inv (renamed dn old new d)"
    "group_key ` set (db_groups (renamed dn old new d)) = insert (dn, new) (group_key ` set (db_groups d) - {(dn, old)})"
proof -
  let ?h = "\<lambda>g. if group_key g = (dn, old) then g\<lparr>g_name := new\<rparr> else g"
  have k: "keyed group_key (db_groups d)" using inv by (simp add: domain_inv_def)
  have key: "group_key (?h g) = (if group_key g = (dn, old) then (dn, new) else group_key g)" for g
    by (auto simp: group_key_def)
  have gs: "db_groups (renamed dn old new d) = map ?h (db_groups d)"
    by (simp add: renamed_def clear_members_def sql_update_def)
  have "group_key ` set (map ?h (db_groups d)) = (\<lambda>g. if group_key g = (dn, old) then (dn, new) else group_key g) ` set (db_groups d)"
    unfolding set_map image_image key by (rule refl)
  also have "\<dots> = insert (dn, new) (group_key ` set (db_groups d) - {(dn, old)})"
    using old by (rule image_replace)
  finally show img: "group_key ` set (db_groups (renamed dn old new d)) =
      insert (dn, new) (group_key ` set (db_groups d) - {(dn, old)})" by (simp add: gs)
  have "inj_on (\<lambda>g. group_key (?h g)) (set (db_groups d))"
    unfolding key using k new by (intro inj_on_replace) (simp_all add: keyed_def distinct_map)
  then have "keyed group_key (map ?h (db_groups d))"
    using k unfolding keyed_def map_map comp_def by (simp only: distinct_map)
  moreover have "g_domain (?h g) = g_domain g" for g by simp
  then have "\<forall>g \<in> set (map ?h (db_groups d)). g_domain g \<in> d_name ` set (db_domains d)"
    using inv by (auto simp: domain_inv_def)
  moreover have "(m_domain m, m_grp m) \<in> group_key ` set (db_groups (renamed dn old new d))"
    if "m \<in> set (db_members (renamed dn old new d))" for m
    using that inv unfolding img by (auto simp: renamed_def clear_members_def set_sql_delete in_group_def domain_inv_def)
  ultimately show "domain_inv (renamed dn old new d)"
    using inv by (simp add: domain_inv_def gs) (simp add: renamed_def clear_members_def keyed_delete)
qed

lemma replace_row_mid:
  assumes mid: "scim_mid idp tch d" and r: "r \<in> set (db_scim_groups d)" "scim_group_at idp gid r"
    and inv: "domain_inv e"
    and groups: "group_key ` set (db_groups e) =
      insert (sg_domain r, new) (group_key ` set (db_groups d) - {(sg_domain r, sg_grp r)})"
    and rest: "\<And>m. \<not> in_group (sg_domain r) (sg_grp r) m \<Longrightarrow> m \<in> set (db_members e) \<longleftrightarrow> m \<in> set (db_members d)"
    and same: "db_scim_users e = db_scim_users d" "db_scim_members e = db_scim_members d"
      "db_scim_groups e = db_scim_groups d"
    and f: "\<And>x. scim_group_key (f x) = scim_group_key x" "\<And>x. scim_group_target (f x) = (sg_domain x, new)"
    and dist: "distinct (map scim_group_target (sql_update (scim_group_at idp gid) f (db_scim_groups d)))"
    and sub: "set tch \<subseteq> set tch'" "gid \<in> set tch'"
  shows "scim_mid idp tch' (e\<lparr>db_scim_groups := sql_update (scim_group_at idp gid) f (db_scim_groups d)\<rparr>)"
proof -
  let ?t = "sql_update (scim_group_at idp gid) f (db_scim_groups d)"
  have kg: "keyed scim_group_key (db_scim_groups d)" and kt: "keyed scim_group_target (db_scim_groups d)"
    using mid by (auto simp: scim_mid_def scim_refs_def)
  have only: "x = r" if "x \<in> set (db_scim_groups d)" "scim_group_at idp gid x" for x
    using keyed_inj [OF kg that(1) r(1)] that(2) r(2) by (simp add: scim_group_at_def)
  have row: "x \<in> set (db_scim_groups d) \<and> x \<noteq> r \<or> x = f r" if "x \<in> set ?t" for x
  proof -
    obtain y where y: "y \<in> set (db_scim_groups d)" "x = (if scim_group_at idp gid y then f y else y)"
      using \<open>x \<in> set ?t\<close> unfolding set_sql_update by blast
    then show ?thesis using only [OF y(1)] r(2) by (cases "scim_group_at idp gid y") auto
  qed
  have other: "scim_group_target x \<noteq> (sg_domain r, sg_grp r)" if "x \<in> set (db_scim_groups d)" "x \<noteq> r" for x
    using keyed_inj [OF kt that(1) r(1)] that(2) by (auto simp: scim_group_target_def)
  have "scim_group_target x \<in> group_key ` set (db_groups e)" if "x \<in> set ?t" for x
    using row [OF that] other [of x] mid unfolding groups by (auto simp: f scim_mid_def scim_refs_def)
  then have refs: "scim_refs (e\<lparr>db_scim_groups := ?t\<rparr>)"
    using mid keyed_updateE [OF kg f(1)] keyed_update [OF kg f(1)] dist
    by (auto simp: scim_mid_def scim_refs_def same keyed_def)
  have "sg_idp x = idp \<and> sg_id x \<in> set tch' \<or> synced x (e\<lparr>db_scim_groups := ?t\<rparr>)" if "x \<in> set ?t" for x
    using row [OF that]
  proof
    assume "x = f r"
    then show ?thesis using f(1) [of r] r(2) sub by (auto simp: scim_group_key_def scim_group_at_def)
  next
    assume x: "x \<in> set (db_scim_groups d) \<and> x \<noteq> r"
    have "in_group (sg_domain x) (sg_grp x) m \<Longrightarrow> \<not> in_group (sg_domain r) (sg_grp r) m" for m
      using other [of x] x by (auto simp: in_group_def scim_group_target_def)
    then have "synced x d \<Longrightarrow> synced x (e\<lparr>db_scim_groups := ?t\<rparr>)"
      by (rule_tac synced_other) (simp_all add: same rest)
    then show ?thesis using mid x sub by (auto simp: scim_mid_def)
  qed
  then show ?thesis
    using refs domain_inv_cong [of "e\<lparr>db_scim_groups := ?t\<rparr>" e] inv by (auto simp: scim_mid_def)
qed

lemma ReplaceGroup_mid:
  assumes mid: "scim_mid idp tch d" and c: "ReplaceGroup_scim io idp g tch d = Inr ((x, tch'), d')"
  shows "scim_mid idp tch' d'"
proof -
  define f :: "scim_group_row \<Rightarrow> scim_group_row" where "f = (\<lambda>r. r\<lparr>sg_display_name := sgr_display_name g,
       sg_external_id := sgr_external_id g, sg_grp := sgr_group g, sg_updated_at := unix_nano (io_now io)\<rparr>)"
  let ?gid = "sgr_id g"
  let ?t = "\<lambda>e. sql_update (scim_group_at idp ?gid) f (db_scim_groups e)"
  let ?d2 = "\<lambda>e. clear_scim_members idp ?gid (e\<lparr>db_scim_groups := ?t e\<rparr>)"
  from c obtain prev d0 e y d3 where prev0: "GetGroup_scim io idp ?gid d = Inr (prev, d0)"
    and e0: "rename_owned io prev g d0 = Inr ((), e)"
    and dist: "distinct (map scim_group_target (?t e))"
    and set0: "setMembers io idp ?gid (sgr_members g) tch (?d2 e) = Inr ((y, tch'), d3)"
    and last: "GetGroup_scim io idp ?gid d3 = Inr (x, d')"
    unfolding ReplaceGroup_scim_def tx_bind_Inr update_scim_group_def f_def [symmetric] tx_stmt_Inr tx_exec_Inr Let_def
    by (auto split: if_splits simp: tx_simps)
  have d0: "d0 = d" and d3: "d' = d3" using GetGroup_scim_Inr [OF prev0] GetGroup_scim_Inr [OF last] by simp_all
  note prev = prev0 [unfolded d0] and e = e0 [unfolded d0] and set = set0 [folded d3]
  from GetGroup_scim_Inr [OF prev] obtain r where r: "r \<in> set (db_scim_groups d)" "scim_group_at idp ?gid r"
    and p: "sgr_domain prev = sg_domain r" "sgr_group prev = sg_grp r" by blast
  have tgt: "(sg_domain r, sg_grp r) \<in> group_key ` set (db_groups d)" and inv: "domain_inv d"
    using mid r(1) by (auto simp: scim_mid_def scim_refs_def scim_group_target_def)
  let ?e = "if sgr_group g \<noteq> sg_grp r then renamed (sg_domain r) (sg_grp r) (sgr_group g) d else d"
  have e': "e = ?e" "sgr_group g \<noteq> sg_grp r \<Longrightarrow> (sg_domain r, sgr_group g) \<notin> group_key ` set (db_groups d)"
    using e tgt by (auto simp: p tx_simps rename_owned_def rename_group_def renamed_def split: if_splits option.splits)
  have key: "scim_group_key (f z) = scim_group_key z \<and> scim_group_target (f z) = (sg_domain z, sgr_group g)" for z
    by (simp add: f_def scim_group_key_def scim_group_target_def)
  have same: "db_scim_groups e = db_scim_groups d" "db_scim_users e = db_scim_users d" "db_scim_members e = db_scim_members d"
    by (simp_all add: e' renamed_def clear_members_def)
  have "scim_mid idp (List.insert ?gid tch) (e\<lparr>db_scim_groups := sql_update (scim_group_at idp ?gid) f (db_scim_groups d)\<rparr>)"
  proof (rule replace_row_mid [OF mid r])
    show "domain_inv e" "group_key ` set (db_groups e) =
      insert (sg_domain r, sgr_group g) (group_key ` set (db_groups d) - {(sg_domain r, sg_grp r)})"
      using renamed_inv [OF inv tgt e'(2)] inv tgt unfolding e'(1) by auto
    show "m \<in> set (db_members e) \<longleftrightarrow> m \<in> set (db_members d)" if "\<not> in_group (sg_domain r) (sg_grp r) m" for m
      using that by (simp add: e'(1) renamed_def clear_members_def set_sql_delete)
  qed (use key dist same in \<open>simp_all add: subset_insertI\<close>)
  then have "scim_mid idp (List.insert ?gid tch) (?d2 e)"
    unfolding clear_scim_members_def same(1) by (rule delete_members_mid [where gid = ?gid]) auto
  moreover have "(idp, ?gid) \<in> scim_group_key ` set (db_scim_groups (?d2 e))"
    using scim_key_image [OF r(2,1)] mid key
    by (simp add: clear_scim_members_def same scim_mid_def scim_refs_def keyed_updateE [where key = scim_group_key])
  moreover have "setMembers io idp ?gid (sgr_members g) (List.insert ?gid tch) (?d2 e) = Inr ((y, tch'), d')"
    using set by (auto simp: setMembers_def tx_simps)
  ultimately show ?thesis using setMembers_mid by blast
qed

lemma DeleteGroup_mid:
  assumes mid: "scim_mid idp tch d" and c: "DeleteGroup_scim io idp gid tch d = Inr ((x, tch'), d')"
  shows "scim_mid idp tch' d'"
proof -
  from c obtain g where g: "GetGroup_scim io idp gid d = Inr (g, d)" and tch: "tch' = removeAll gid tch"
    and d': "d' = (clear_scim_members idp gid (delete_group_row (sgr_domain g) (sgr_group g)
        (clear_members (sgr_domain g) (sgr_group g) d)))
          \<lparr>db_scim_groups := sql_delete (scim_group_at idp gid) (db_scim_groups d)\<rparr>"
    by (auto simp: DeleteGroup_scim_def tx_simps clear_scim_members_def delete_group_row_def clear_members_def
        dest: GetGroup_scim_Inr)
  from GetGroup_scim_Inr [OF g] obtain r where r: "r \<in> set (db_scim_groups d)" "scim_group_at idp gid r"
    and p: "sgr_domain g = sg_domain r" "sgr_group g = sg_grp r" by blast
  have tabs: "db_groups d' = sql_delete (\<lambda>g. group_key g = (sg_domain r, sg_grp r)) (db_groups d)"
    "db_members d' = sql_delete (in_group (sg_domain r) (sg_grp r)) (db_members d)"
    "db_scim_members d' = sql_delete (\<lambda>m. sm_idp m = idp \<and> sm_group_id m = gid) (db_scim_members d)"
    "db_scim_groups d' = sql_delete (scim_group_at idp gid) (db_scim_groups d)" "db_scim_users d' = db_scim_users d"
    by (simp_all add: d' p clear_scim_members_def delete_group_row_def clear_members_def)
  let ?e = "delete_group_row (sg_domain r) (sg_grp r) (clear_members (sg_domain r) (sg_grp r) d)"
  have kg: "keyed scim_group_key (db_scim_groups d)" and kt: "keyed scim_group_target (db_scim_groups d)"
    using mid by (auto simp: scim_mid_def scim_refs_def)
  have other: "scim_group_target y \<noteq> (sg_domain r, sg_grp r)" if "y \<in> set (db_scim_groups d)" "\<not> scim_group_at idp gid y" for y
    using keyed_inj [OF kt that(1) r(1)] that(2) r(2) by (auto simp: scim_group_target_def)
  have "domain_inv ?e" using mid by (auto simp: scim_mid_def clear_members_inv delete_group_row_inv in_group_clear)
  then have inv: "domain_inv d'"
    using domain_inv_cong [of d' ?e] by (simp add: d' p clear_scim_members_def)
  have "group_key ` set (db_groups d') = group_key ` set (db_groups d) - {(sg_domain r, sg_grp r)}"
    by (auto simp: tabs set_sql_delete)
  moreover have "scim_group_key ` set (db_scim_groups d') = scim_group_key ` set (db_scim_groups d) - {(idp, gid)}"
    by (auto simp: tabs set_sql_delete scim_group_at_def)
  moreover have "scim_group_target y \<in> group_key ` set (db_groups d)" if "y \<in> set (db_scim_groups d)" for y
    using mid that by (auto simp: scim_mid_def scim_refs_def)
  ultimately have refs: "scim_refs d'"
    using mid other unfolding scim_mid_def scim_refs_def
    by (auto simp: tabs set_sql_delete keyed_delete)
  have "synced y d'" if y: "y \<in> set (db_scim_groups d)" "\<not> scim_group_at idp gid y"
    and s: "synced y d" for y
  proof -
    have ig: "in_group (sg_domain y) (sg_grp y) m \<Longrightarrow> \<not> in_group (sg_domain r) (sg_grp r) m" for m
      using other [OF y] by (auto simp: in_group_def scim_group_target_def)
    have "has_membership (sg_idp y) (sg_id y) (db_scim_members d') u = has_membership (sg_idp y) (sg_id y) (db_scim_members d) u" for u
      using y(2) by (auto simp: tabs set_sql_delete has_membership_def scim_group_at_def scim_group_key_def)
    then show ?thesis using s ig
      by (intro synced_cong [OF s]) (auto simp: tabs active_principals_image set_sql_delete)
  qed
  then show ?thesis
    using mid refs inv unfolding scim_mid_def
    by (auto simp: tch) (auto simp: tabs set_sql_delete scim_group_at_def scim_group_key_def)
qed
section \<open>The rebuild\<close>

lemma rebuild_inv:
  assumes mid: "scim_mid idp tch d" and r: "r \<in> set (db_scim_groups d)" "scim_group_at idp i r"
  shows "domain_inv (rebuild_members idp i (sg_domain r) (sg_grp r) (clear_members (sg_domain r) (sg_grp r) d))"
    (is "domain_inv ?d")
proof -
  let ?new = "map (\<lambda>p. \<lparr>m_domain = sg_domain r, m_grp = sg_grp r, m_principal = p, m_expires_at = 0\<rparr>) (active_principals idp i d)"
  let ?old = "sql_delete (in_group (sg_domain r) (sg_grp r)) (db_members d)"
  have inv: "domain_inv d" and tgt: "(sg_domain r, sg_grp r) \<in> group_key ` set (db_groups d)"
    using mid r(1) by (auto simp: scim_mid_def scim_refs_def scim_group_target_def)
  have eq: "?d = d\<lparr>db_members := ?old @ ?new\<rparr>"
    by (simp add: rebuild_members_def clear_members_def active_principals_def)
  have "distinct (map member_key ?new)"
    by (auto simp: distinct_map active_principals_def comp_def member_key_def inj_on_def)
  moreover have "member_key ` set ?old \<inter> member_key ` set ?new = {}"
    by (auto simp: set_sql_delete member_key_def in_group_def)
  moreover have "keyed member_key ?old" using inv by (simp add: domain_inv_def keyed_delete)
  ultimately have "keyed member_key (?old @ ?new)"
    unfolding keyed_def map_append distinct_append set_map by blast
  moreover have "\<forall>m \<in> set (?old @ ?new). (m_domain m, m_grp m) \<in> group_key ` set (db_groups d)"
    using inv tgt by (auto simp: domain_inv_def set_sql_delete)
  ultimately show ?thesis unfolding eq using domain_inv_members [OF inv] by blast
qed

lemma syncGroup_mid:
  assumes mid: "scim_mid idp tch d" and sync: "syncGroup io idp i d = Inr (x, d')"
    and sub: "set tch \<subseteq> insert i (set tch')"
  shows "scim_mid idp tch' d'"
proof (cases "GetGroup_scim io idp i d")
  case (Inl e)
  with sync have "d' = d" "GetGroup_scim io idp i d = Inl ErrNotFound" by (auto simp: syncGroup_def split: if_splits)
  with GetGroup_scim_NotFound [of io idp i d] mid sub show ?thesis
    by (auto simp: scim_mid_def scim_group_at_def scim_group_key_def)
next
  case (Inr res)
  then obtain g where g: "GetGroup_scim io idp i d = Inr (g, d)" using GetGroup_scim_Inr by (cases res) blast
  from GetGroup_scim_Inr [OF g] obtain r where r: "r \<in> set (db_scim_groups d)" "scim_group_at idp i r"
    and p: "sgr_domain g = sg_domain r" "sgr_group g = sg_grp r" by blast
  let ?d = "rebuild_members idp i (sg_domain r) (sg_grp r) (clear_members (sg_domain r) (sg_grp r) d)"
  have d': "d' = ?d" using sync by (auto simp: syncGroup_def g tx_simps p)
  have mem: "m \<in> set (db_members ?d) \<longleftrightarrow> m \<in> set (db_members d) \<and> \<not> in_group (sg_domain r) (sg_grp r) m
      \<or> m \<in> scim_member_rows r d" for m
    using r(2) by (auto simp: rebuild_members_def clear_members_def set_sql_delete scim_member_rows_def active_principals_def
        scim_group_at_def scim_group_key_def)
  have same: "db_scim_users ?d = db_scim_users d" "db_scim_members ?d = db_scim_members d"
    "db_scim_groups ?d = db_scim_groups d" "db_groups ?d = db_groups d"
    by (simp_all add: rebuild_members_def clear_members_def)
  have rows: "in_group (sg_domain r) (sg_grp r) m" if "m \<in> scim_member_rows r d" for m
    using that by (auto simp: scim_member_rows_def in_group_def)
  have "scim_member_rows r ?d = scim_member_rows r d"
    by (simp add: scim_member_rows_def active_principals_def same)
  then have own: "synced r ?d" unfolding synced_def using mem rows by blast
  have "synced g' ?d" if g': "g' \<in> set (db_scim_groups d)" "g' \<noteq> r" "synced g' d" for g'
  proof (rule synced_other [OF g'(3)])
    have "scim_group_target g' \<noteq> scim_group_target r"
      using keyed_inj [of scim_group_target "db_scim_groups d" g' r] mid r(1) g' by (auto simp: scim_mid_def scim_refs_def)
    then show "m \<in> set (db_members ?d) \<longleftrightarrow> m \<in> set (db_members d)" if "in_group (sg_domain g') (sg_grp g') m" for m
      using that mem [of m] rows [of m] by (auto simp: in_group_def scim_group_target_def)
  qed (simp_all add: same)
  moreover have "sg_idp g' = idp \<and> sg_id g' \<in> set tch' \<or> synced g' d" if "g' \<in> set (db_scim_groups d)" "g' \<noteq> r" for g'
  proof -
    have "scim_group_key g' \<noteq> (idp, i)"
      using keyed_inj [of scim_group_key "db_scim_groups d" g' r] mid r that
      by (auto simp: scim_mid_def scim_refs_def scim_group_at_def)
    then show ?thesis using mid that(1) sub by (auto simp: scim_mid_def scim_group_key_def)
  qed
  ultimately have "\<forall>g' \<in> set (db_scim_groups d). sg_idp g' = idp \<and> sg_id g' \<in> set tch' \<or> synced g' ?d"
    using own by blast
  moreover have "scim_refs ?d" using mid by (simp add: scim_mid_def scim_refs_def same)
  ultimately show ?thesis
    unfolding d' scim_mid_def same using rebuild_inv [OF mid r] by simp
qed

lemma syncGroups_mid:
  "scim_mid idp tch d \<Longrightarrow> set tch \<subseteq> set is \<Longrightarrow> syncGroups io idp is d = Inr (x, d') \<Longrightarrow> scim_inv d'"
proof (induction "is" arbitrary: tch d)
  case Nil
  then show ?case by (simp add: tx_simps scim_mid_Nil)
next
  case (Cons i "is")
  then obtain d1 where "syncGroup io idp i d = Inr ((), d1)" "syncGroups io idp is d1 = Inr (x, d')"
    by (auto simp: tx_simps)
  then show ?case using syncGroup_mid [OF Cons.prems(1), of io i _ d1 "is"] Cons.IH [of "is" d1] Cons.prems(2) by simp
qed

lemmas call_mids = CreateUser_mid ReplaceUser_mid DeleteUser_mid CreateGroup_mid ReplaceGroup_mid
  PatchMembers_mid RemoveAllMembers_mid DeleteGroup_mid

lemma run_call_mid: "scim_mid idp tch d \<Longrightarrow> run_call lower io idp c tch d = Inr (tch', d') \<Longrightarrow> scim_mid idp tch' d'"
  by (cases c) (auto simp: forget_Inr intro: call_mids)

lemma run_calls_mid: "scim_mid idp tch d \<Longrightarrow> run_calls lower io idp cs tch d = Inr (tch', d') \<Longrightarrow> scim_mid idp tch' d'"
  by (induction cs arbitrary: tch d) (auto simp: tx_simps dest: run_call_mid)

section \<open>The other writes keep the invariant\<close>

lemma scim_tables_same:
  assumes "other_tables d' = other_tables d"
  shows "db_scim_users d' = db_scim_users d" "db_scim_groups d' = db_scim_groups d" "db_scim_members d' = db_scim_members d"
    "log_tables d' = log_tables d" "db_policies d' = db_policies d" "db_cas d' = db_cas d"
    "db_bundle_seq d' = db_bundle_seq d" "db_once d' = db_once d"
  using assms by (cases d; cases d'; simp add: other_tables_def log_tables_def)+

lemma scim_inv_unmanaged:
  assumes inv: "scim_inv d" and dom: "domain_inv d'" and other: "other_tables d' = other_tables d"
    and own: "\<And>dn name. managed dn name d \<Longrightarrow> (dn, name) \<in> group_key ` set (db_groups d)
      \<Longrightarrow> (dn, name) \<in> group_key ` set (db_groups d')
        \<and> (\<forall>m. in_group dn name m \<longrightarrow> (m \<in> set (db_members d') \<longleftrightarrow> m \<in> set (db_members d)))"
  shows "scim_inv d'"
proof -
  note same = scim_tables_same [OF other]
  have man: "managed (sg_domain g) (sg_grp g) d" "(sg_domain g, sg_grp g) \<in> group_key ` set (db_groups d)"
    if "g \<in> set (db_scim_groups d)" for g
    using that inv by (auto simp: managed_def scim_inv_def scim_refs_def scim_group_target_def)
  have "scim_refs d'"
    using inv own [OF man] unfolding scim_inv_def scim_refs_def same by (simp add: scim_group_target_def)
  moreover have "synced g d'" if "g \<in> set (db_scim_groups d)" for g
  proof (rule synced_other [of g d])
    show "synced g d" using inv that by (simp add: scim_inv_def)
    show "m \<in> set (db_members d') \<longleftrightarrow> m \<in> set (db_members d)" if "in_group (sg_domain g) (sg_grp g) m" for m
      using own [OF man [OF \<open>g \<in> set (db_scim_groups d)\<close>]] that by blast
  qed (rule same)+
  ultimately show ?thesis using dom by (simp add: scim_inv_def same)
qed

lemma scim_inv_kept:
  assumes frame: "tx_fixes other_tables body" and dom: "tx_keeps domain_inv body"
    and own: "\<And>d x d' dn name. body d = Inr (x, d') \<Longrightarrow> managed dn name d \<Longrightarrow> (dn, name) \<in> group_key ` set (db_groups d)
      \<Longrightarrow> (dn, name) \<in> group_key ` set (db_groups d')
        \<and> (\<forall>m. in_group dn name m \<longrightarrow> (m \<in> set (db_members d') \<longleftrightarrow> m \<in> set (db_members d)))"
  shows "tx_keeps scim_inv body"
  unfolding tx_keeps_def
proof (intro allI impI)
  fix d x d' assume inv: "scim_inv d" and b: "body d = Inr (x, d')"
  have "domain_inv d'" using tx_keepsD [OF dom _ b] inv by (simp add: scim_inv_def)
  then show "scim_inv d'" by (rule scim_inv_unmanaged [OF inv _ tx_fixesD [OF frame b] own [OF b]])
qed

lemma domain_ops_scim:
  "ValidateDomainName (dom_name dm) = None \<Longrightarrow> dom_parent dm = ParentOf (dom_name dm) \<Longrightarrow>
     tx_keeps scim_inv (create_domain_tx io dm)"
  "tx_keeps scim_inv (delete_domain_tx io name)"
  "tx_keeps scim_inv (add_admin_tx io dn who)"
  "tx_keeps scim_inv (drop_admin dn who)"
proof -
  show "tx_keeps scim_inv (create_domain_tx io dm)"
    if "ValidateDomainName (dom_name dm) = None" "dom_parent dm = ParentOf (dom_name dm)"
    using create_domain_inv that
    by (intro scim_inv_kept domain_frames) (auto simp: tx_keeps_def dest!: create_domain_tx_Inr)
  show "tx_keeps scim_inv (delete_domain_tx io name)"
    using delete_domain_inv by (intro scim_inv_kept domain_frames) (auto simp: tx_keeps_def dest!: delete_domain_tx_Inr)
  show "tx_keeps scim_inv (add_admin_tx io dn who)"
    by (intro scim_inv_kept domain_frames add_admin_inv) (auto simp: add_admin_tx_def tx_simps case_prod_beta)
  show "tx_keeps scim_inv (drop_admin dn who)"
    using remove_admin_inv by (intro scim_inv_kept domain_frames) (auto simp: drop_admin_def tx_keeps_def)
qed

text \<open>Changing one group leaves the members of every other group.\<close>

lemma member_change_other:
  assumes "\<not> in_group dn name r"
  shows "r \<in> set (db_members (put_member dn name m d)) \<longleftrightarrow> r \<in> set (db_members d)"
    "r \<in> set (db_members (delete_member dn name who d)) \<longleftrightarrow> r \<in> set (db_members d)"
    "r \<in> set (db_members (clear_members dn name d)) \<longleftrightarrow> r \<in> set (db_members d)"
proof -
  have "member_key r \<noteq> member_key \<lparr>m_domain = dn, m_grp = name, m_principal = gm_principal m, m_expires_at = nanos (gm_expires_at m)\<rparr>"
    using assms by (auto simp: in_group_def member_key_def)
  then show "r \<in> set (db_members (put_member dn name m d)) \<longleftrightarrow> r \<in> set (db_members d)"
    unfolding put_member_def by (simp add: sql_upsert_other member_key_def)
qed (use assms in \<open>auto simp: delete_member_def clear_members_def set_sql_delete is_member_def in_group_def\<close>)

lemma group_keys_change [simp]:
  "db_groups (put_member dn name m d) = db_groups d" "db_groups (delete_member dn name who d) = db_groups d"
  "db_groups (clear_members dn name d) = db_groups d" "db_members (delete_group_row dn name d) = db_members d"
  "group_key ` set (db_groups (delete_group_row dn name d)) = group_key ` set (db_groups d) - {(dn, name)}"
  by (auto simp: put_member_def delete_member_def clear_members_def delete_group_row_def set_sql_delete)

lemma scim_inv_kept_other:
  assumes frame: "tx_fixes other_tables body" and dom: "tx_keeps domain_inv body"
    and own: "\<And>d x d'. body d = Inr (x, d') \<Longrightarrow> \<not> managed dn name d"
    and rest: "\<And>d x d'. body d = Inr (x, d') \<Longrightarrow>
      group_key ` set (db_groups d) - {(dn, name)} \<subseteq> group_key ` set (db_groups d')
        \<and> (\<forall>m. \<not> in_group dn name m \<longrightarrow> (m \<in> set (db_members d') \<longleftrightarrow> m \<in> set (db_members d)))"
  shows "tx_keeps scim_inv body"
proof (rule scim_inv_kept [OF frame dom])
  fix d x d' dn' name'
  assume b: "body d = Inr (x, d')" and m: "managed dn' name' d" "(dn', name') \<in> group_key ` set (db_groups d)"
  have ne: "(dn', name') \<noteq> (dn, name)" using own [OF b] m(1) by auto
  then have "in_group dn' name' r \<Longrightarrow> \<not> in_group dn name r" for r by (auto simp: in_group_def)
  with rest [OF b] m(2) ne
  show "(dn', name') \<in> group_key ` set (db_groups d')
        \<and> (\<forall>m. in_group dn' name' m \<longrightarrow> (m \<in> set (db_members d') \<longleftrightarrow> m \<in> set (db_members d)))" by blast
qed

lemma member_ops_scim:
  "tx_keeps scim_inv (put_member_tx io dn name m)"
  "tx_keeps scim_inv (remove_member_tx io dn name who)"
  "tx_keeps scim_inv (swap_member_tx io dn name who expect want)"
proof -
  show "tx_keeps scim_inv (put_member_tx io dn name m)"
    by (rule scim_inv_kept_other [OF group_frames(3) put_member_tx_inv, where dn = dn and name = name])
       (auto simp: member_change_other(1) dest!: put_member_tx_Inr)
  show "tx_keeps scim_inv (remove_member_tx io dn name who)"
    by (rule scim_inv_kept_other [OF group_frames(4) remove_member_inv, where dn = dn and name = name])
       (auto simp: member_change_other(2) dest!: remove_member_tx_Inr)
  show "tx_keeps scim_inv (swap_member_tx io dn name who expect want)"
    by (rule scim_inv_kept_other [OF group_frames(5) swap_member_inv, where dn = dn and name = name])
       (auto simp: member_change_other set_member_def split: option.splits dest!: swap_member_tx_Inr)
qed

lemma group_ops_scim:
  "tx_keeps scim_inv (create_group_tx io g)"
  "tx_keeps scim_inv (delete_group_tx io dn name)"
  "tx_keeps scim_inv (restore_group_tx io g)"
proof -
  show "tx_keeps scim_inv (create_group_tx io g)"
    by (intro scim_inv_kept group_frames create_group_inv)
       (auto simp: in_group_clear in_group_def dest!: create_group_tx_Inr)
  show "tx_keeps scim_inv (delete_group_tx io dn name)"
    by (rule scim_inv_kept_other [OF group_frames(2) delete_group_inv, where dn = dn and name = name])
       (auto simp: delete_group_swap member_change_other(3) dest!: delete_group_tx_Inr)
  show "tx_keeps scim_inv (restore_group_tx io g)"
    by (intro scim_inv_kept group_frames restore_group_inv) (auto simp: in_group_def dest!: restore_group_tx_Inr)
qed
lemma delete_empty_scim: "tx_keeps scim_inv (delete_empty_tx io dn name)"
  unfolding tx_keeps_def
proof (intro allI impI)
  fix d x d' assume inv: "scim_inv d" and b: "delete_empty_tx io dn name d = Inr (x, d')"
  show "scim_inv d'"
  proof (cases x)
    case (Inl u)
    with b have "d' = d" by (auto simp: delete_empty_tx_def tx_simps split: sum.splits if_splits)
    with inv show ?thesis by simp
  next
    case (Inr u)
    with b have un: "\<not> managed dn name d" and none: "\<forall>m \<in> set (db_members d). \<not> in_group dn name m"
      and d': "d' = delete_group_row dn name d" using delete_empty_tx_Inr [of io dn name d u d'] by auto
    show ?thesis
    proof (rule scim_inv_unmanaged [OF inv])
      show "domain_inv d'" using inv none by (simp add: d' scim_inv_def delete_group_row_inv)
      show "other_tables d' = other_tables d" by (simp add: d' other_tables_def delete_group_row_def)
    qed (use un in \<open>auto simp: d'\<close>)
  qed
qed

section \<open>The provisioning transaction\<close>

text \<open>Provisioning touches neither the log nor the domains.\<close>

definition scim_frame :: "db \<Rightarrow> db" where
  "scim_frame d = d\<lparr>db_groups := [], db_members := [], db_scim_users := [], db_scim_groups := [], db_scim_members := []\<rparr>"

lemma scim_frame_log:
  assumes "scim_frame d' = scim_frame d"
  shows "log_tables d' = log_tables d" "db_policies d' = db_policies d" "db_cas d' = db_cas d"
    "db_bundle_seq d' = db_bundle_seq d" "db_once d' = db_once d"
  using assms by (cases d; cases d'; simp add: scim_frame_def log_tables_def)+

lemma read_frames [tx_frames]: "tx_fixes p (GetUser io idp i)" "tx_fixes p (GetGroup_scim io idp i)"
  "tx_fixes p (touchGroupsOf io idp i tch)"
  by (auto simp: tx_fixes_def GetUser_Inr touchGroupsOf_def tx_query_Inr dest: GetGroup_scim_Inr)

lemma stmt_frames [tx_frames]:
  "tx_fixes scim_frame (update_user io idp r)" "tx_fixes scim_frame (insert_group io g)"
  "tx_fixes scim_frame (insert_scim_group io s)" "tx_fixes scim_frame (update_scim_group io idp sg)"
  "tx_fixes scim_frame (rename_group io dn old new)"
  by (auto simp: tx_fixes_def scim_frame_def update_user_def insert_group_Inr insert_scim_group_def update_scim_group_def
      rename_group_def tx_stmt_Inr Let_def split: if_splits option.splits)

lemma scim_frame_change [simp]:
  "scim_frame (clear_members dn name d) = scim_frame d" "scim_frame (clear_scim_members idp gid d) = scim_frame d"
  "scim_frame (delete_group_row dn name d) = scim_frame d" "scim_frame (rebuild_members idp gid dn name d) = scim_frame d"
  "scim_frame (d\<lparr>db_scim_groups := sgs\<rparr>) = scim_frame d" "scim_frame (d\<lparr>db_scim_members := sms\<rparr>) = scim_frame d"
  "scim_frame (d\<lparr>db_scim_users := sus\<rparr>) = scim_frame d"
  by (simp_all add: scim_frame_def clear_members_def clear_scim_members_def delete_group_row_def rebuild_members_def)

lemma loop_frames [tx_frames]:
  "tx_fixes scim_frame (set_members_loop io idp gid us)" "tx_fixes scim_frame (remove_members_loop io idp gid us)"
proof -
  show "tx_fixes scim_frame (set_members_loop io idp gid us)"
    by (auto simp: tx_fixes_def scim_frame_def dest!: set_members_loop_Inr)
  show "tx_fixes scim_frame (remove_members_loop io idp gid us)"
    by (induction us) (auto intro!: tx_frames simp: scim_frame_def)
qed

lemma rename_owned_frame [tx_frames]: "tx_fixes scim_frame (rename_owned io prev g)"
  by (cases "ValidateGroupName (sgr_group g)") (auto simp: rename_owned_def intro!: tx_frames)

lemma setMembers_frame [tx_frames]: "tx_fixes scim_frame (setMembers io idp gid us tch)"
  by (auto simp: setMembers_def intro!: tx_frames)

lemma user_call_frames:
  "tx_fixes scim_frame (CreateUser lower io idp rnd u tch)" "tx_fixes scim_frame (ReplaceUser lower io idp u tch)"
  "tx_fixes scim_frame (DeleteUser io idp i tch)"
proof -
  show "tx_fixes scim_frame (CreateUser lower io idp rnd u tch)"
    by (auto simp: tx_fixes_def CreateUser_def tx_stmt_Inr Let_def scim_frame_def split: if_splits option.splits)
  show "tx_fixes scim_frame (ReplaceUser lower io idp u tch)"
    unfolding ReplaceUser_def Let_def by (intro tx_frames)
  show "tx_fixes scim_frame (DeleteUser io idp i tch)"
    unfolding DeleteUser_def by (intro tx_frames) simp_all
qed

lemma group_call_frames:
  "tx_fixes scim_frame (CreateGroup_scim io idp rnd g tch)" "tx_fixes scim_frame (ReplaceGroup_scim io idp g tch)"
  "tx_fixes scim_frame (PatchMembers io idp gid add rm tch)" "tx_fixes scim_frame (RemoveAllMembers io idp gid tch)"
  "tx_fixes scim_frame (DeleteGroup_scim io idp gid tch)"
proof -
  show "tx_fixes scim_frame (CreateGroup_scim io idp rnd g tch)"
    by (cases "ValidateGroupName (sgr_group g)")
       (auto simp: CreateGroup_scim_def Let_def case_prod_beta intro!: tx_frames)
  show "tx_fixes scim_frame (ReplaceGroup_scim io idp g tch)"
    by (auto simp: ReplaceGroup_scim_def case_prod_beta intro!: tx_frames)
  show "tx_fixes scim_frame (PatchMembers io idp gid add rm tch)" "tx_fixes scim_frame (RemoveAllMembers io idp gid tch)"
    by (auto simp: PatchMembers_def RemoveAllMembers_def intro!: tx_frames)
  show "tx_fixes scim_frame (DeleteGroup_scim io idp gid tch)"
    unfolding DeleteGroup_scim_def by (intro tx_frames) simp_all
qed

lemma forget_frame: "tx_fixes p m \<Longrightarrow> tx_fixes p (forget m)"
  by (auto simp: tx_fixes_def forget_Inr)

lemma run_calls_frame [tx_frames]: "tx_fixes scim_frame (run_calls lower io idp cs tch)"
proof (induction cs arbitrary: tch)
  case (Cons c cs)
  have "tx_fixes scim_frame (run_call lower io idp c tch)"
    by (cases c) (auto intro: forget_frame user_call_frames group_call_frames)
  with Cons show ?case by (auto intro: tx_fixes_bind)
qed (simp add: tx_fixes_return)

lemma syncGroups_frame [tx_frames]: "tx_fixes scim_frame (syncGroups io idp is)"
proof (induction "is")
  case (Cons i "is")
  have "tx_fixes scim_frame (syncGroup io idp i)"
    by (auto simp: tx_fixes_def syncGroup_def tx_simps split: sum.splits if_splits dest!: GetGroup_scim_Inr)
  with Cons show ?case by (auto intro: tx_fixes_bind)
qed (simp add: tx_fixes_return)
interpretation sc: db_write "\<lambda>io. SCIM cr io idp (fn io)" "\<lambda>io s. scim_tx cr io s idp (fn io)" for cr idp fn
proof
  fix io s r s'
  assume run: "SCIM cr io idp (fn io) s = (r, s')"
  show "s' = s \<or> IsLeader s \<and> settings s' = settings s \<and> (\<exists>x. scim_tx cr io s idp (fn io) (st_db s) = Inr (x, st_db s'))
     \<and> (\<forall>e. r = Inl e \<longrightarrow> io_commit io = CommitLost)"
  proof (cases "IsLeader s")
    case True
    obtain r1 s1 where r1: "run_tx io (scim_tx cr io s idp (fn io)) s = (r1, s1)" by fastforce
    with run True have r: "(r, s') = (case r1 of Inl e \<Rightarrow> (Inl e, s1)
        | Inr ev \<Rightarrow> (Inr ev, if ev_kind ev \<noteq> [] then auditCommitted s1 else s1))"
      by (simp add: SCIM_def split: sum.splits)
    have set: "settings (auditCommitted s1) = settings s1" by (simp add: settings_def auditCommitted_def)
    from run_tx_ends [OF r1] r True set show ?thesis
      by (auto split: sum.splits if_splits)
  qed (use run in \<open>auto simp: SCIM_def\<close>)
qed

lemma scim_inv_org: "org_tables d' = org_tables d \<Longrightarrow> scim_inv d' = scim_inv d"
  by (simp add: org_tables_def scim_inv_def domain_inv_def scim_refs_def synced_def scim_member_rows_def active_principals_def)

text \<open>Whatever calls the function makes, the transaction keeps both invariants.\<close>

lemma scim_tx_steps:
  assumes "scim_tx cr io s idp (scim_fn lower io idp cs ev) d = Inr (ev', d')"
  obtains tch d1 d2 where "run_calls lower io idp cs [] d = Inr (tch, d1)" "syncGroups io idp (sort tch) d1 = Inr ((), d2)"
    "if ev_kind ev \<noteq> [] then append_tx cr io s ev d2 = Inr (ev', d') else d' = d2 \<and> ev' = ev"
  using assms by (auto simp: scim_tx_def scim_fn_def tx_bind_Inr tx_return_Inr split: if_splits)

lemma scim_tx_inv: "tx_keeps scim_inv (scim_tx cr io s idp (scim_fn lower io idp cs ev))"
  unfolding tx_keeps_def
proof (intro allI impI)
  fix d ev' d'
  assume inv: "scim_inv d" and tx: "scim_tx cr io s idp (scim_fn lower io idp cs ev) d = Inr (ev', d')"
  obtain tch d1 d2 where calls: "run_calls lower io idp cs [] d = Inr (tch, d1)"
    and sync: "syncGroups io idp (sort tch) d1 = Inr ((), d2)"
    and app: "if ev_kind ev \<noteq> [] then append_tx cr io s ev d2 = Inr (ev', d') else d' = d2 \<and> ev' = ev"
    using scim_tx_steps [OF tx] by metis
  have "scim_mid idp tch d1" using run_calls_mid [OF _ calls] inv by (simp add: scim_mid_Nil)
  then have "scim_inv d2" using syncGroups_mid [OF _ _ sync] by simp
  moreover have "org_tables d' = org_tables d2"
    using app tx_fixesD [OF append_tx_frame(1), of cr io s ev d2 ev' d'] by (auto split: if_splits)
  ultimately show "scim_inv d'" using scim_inv_org by blast
qed

lemma scim_tx_audit: "tx_keeps (audit_inv cr (st_keyring s)) (scim_tx cr io s idp (scim_fn lower io idp cs ev))"
  unfolding tx_keeps_def
proof (intro allI impI)
  fix d ev' d'
  assume inv: "audit_inv cr (st_keyring s) d" and tx: "scim_tx cr io s idp (scim_fn lower io idp cs ev) d = Inr (ev', d')"
  obtain tch d1 d2 where calls: "run_calls lower io idp cs [] d = Inr (tch, d1)"
    and sync: "syncGroups io idp (sort tch) d1 = Inr ((), d2)"
    and app: "if ev_kind ev \<noteq> [] then append_tx cr io s ev d2 = Inr (ev', d') else d' = d2 \<and> ev' = ev"
    using scim_tx_steps [OF tx] by metis
  have "scim_frame d2 = scim_frame d"
    using tx_fixesD [OF run_calls_frame calls] tx_fixesD [OF syncGroups_frame sync] by simp
  then have "audit_inv cr (st_keyring s) d2" using inv audit_inv_log scim_frame_log(1) by blast
  then show "audit_inv cr (st_keyring s) d'"
    using app tx_keepsD [OF append_tx_inv, of cr s d2 io ev ev' d'] by (auto split: if_splits)
qed

end
