(* ===== verification/JsonParse.thy ===== *)
theory JsonParse
  imports Json
begin

text \<open>
  What \<^verbatim>\<open>encoding/json\<close> reads: the scanner and the unquoting of strings that
  \<^verbatim>\<open>json.Unmarshal\<close> applies to an audit payload.  A number with a fraction or an
  exponent is kept as its literal.  Reading back what was marshalled gives the value
  with every invalid UTF-8 byte replaced by U+FFFD.
\<close>

section \<open>Strings\<close>

definition utf8_encode :: "nat \<Rightarrow> string" where
  "utf8_encode n =
     (if n < 128 then [char_of n]
      else if n < 2048 then [char_of (192 + n div 64), char_of (128 + n mod 64)]
      else if n < 65536 then [char_of (224 + n div 4096), char_of (128 + n div 64 mod 64), char_of (128 + n mod 64)]
      else [char_of (240 + n div 262144), char_of (128 + n div 4096 mod 64),
            char_of (128 + n div 64 mod 64), char_of (128 + n mod 64)])"

definition replacement :: string where
  "replacement = [CHR 0xEF, CHR 0xBF, CHR 0xBD]"

text \<open>\<^verbatim>\<open>getu4\<close>: the code unit of an escape \<^verbatim>\<open>uXXXX\<close> and what follows it.\<close>

fun getu4 :: "string \<Rightarrow> nat option" where
  "getu4 (b # u # c1 # c2 # c3 # c4 # _) =
     (if b = CHR 0x5C \<and> u = CHR ''u'' then
        (case (hex_val c1, hex_val c2, hex_val c3, hex_val c4) of
           (Some n1, Some n2, Some n3, Some n4) \<Rightarrow> Some (4096 * n1 + 256 * n2 + 16 * n3 + n4)
         | _ \<Rightarrow> None)
      else None)"
| "getu4 _ = None"

definition surrogate :: "nat \<Rightarrow> bool" where
  "surrogate n \<longleftrightarrow> 0xD800 \<le> n \<and> n < 0xE000"

text \<open>The bytes one escape stands for and how much of the input it takes.\<close>

definition unescape :: "string \<Rightarrow> (string \<times> nat) option" where
  "unescape s =
     (case s of
        _ # c # r \<Rightarrow>
          if c = CHR 0x22 \<or> c = CHR 0x5C \<or> c = CHR ''/'' then Some ([c], 2)
          else if c = CHR ''b'' then Some ([CHR 0x08], 2)
          else if c = CHR ''f'' then Some ([CHR 0x0C], 2)
          else if c = CHR ''n'' then Some ([CHR 0x0A], 2)
          else if c = CHR ''r'' then Some ([CHR 0x0D], 2)
          else if c = CHR ''t'' then Some ([CHR 0x09], 2)
          else if c = CHR ''u'' then
            (case getu4 s of
               None \<Rightarrow> None
             | Some n \<Rightarrow>
                 if surrogate n then
                   (case getu4 (drop 6 s) of
                      Some m \<Rightarrow>
                        if n < 0xDC00 \<and> 0xDC00 \<le> m \<and> m < 0xE000
                        then Some (utf8_encode ((n - 0xD800) * 1024 + (m - 0xDC00) + 0x10000), 12)
                        else Some (replacement, 6)
                    | None \<Rightarrow> Some (replacement, 6))
                 else Some (utf8_encode n, 6))
          else None
      | _ \<Rightarrow> None)"

text \<open>The rest of a string literal after its opening quote, with \<open>k\<close> bytes to skip.\<close>

fun unquote :: "nat \<Rightarrow> string \<Rightarrow> (string \<times> string) option" where
  "unquote k [] = None"
| "unquote (Suc k) (c # s) = unquote k s"
| "unquote 0 (c # s) =
     (if c = CHR 0x22 then Some ([], s)
      else if c = CHR 0x5C then
        (case unescape (c # s) of
           None \<Rightarrow> None
         | Some (bs, n) \<Rightarrow> map_option (map_prod ((@) bs) (\<lambda>r. r)) (unquote (n - 1) s))
      else if (of_char c :: nat) < 32 then None
      else (case utf8_len (c # s) of
              0 \<Rightarrow> map_option (map_prod ((@) replacement) (\<lambda>r. r)) (unquote 0 s)
            | Suc m \<Rightarrow> map_option (map_prod ((@) (c # take m s)) (\<lambda>r. r)) (unquote m s)))"

section \<open>Numbers and values\<close>

definition json_space :: "char \<Rightarrow> bool" where
  "json_space c \<longleftrightarrow> c = CHR 0x20 \<or> c = CHR 0x09 \<or> c = CHR 0x0D \<or> c = CHR 0x0A"

definition skip_ws :: "string \<Rightarrow> string" where
  "skip_ws s = dropWhile json_space s"

definition is_digit :: "char \<Rightarrow> bool" where
  "is_digit c \<longleftrightarrow> 48 \<le> (of_char c :: nat) \<and> (of_char c :: nat) \<le> 57"

definition frac_part :: "string \<Rightarrow> (string \<times> string) option" where
  "frac_part s =
     (case s of
        c # r \<Rightarrow>
          if c = CHR ''.'' then
            (let ds = takeWhile is_digit r in if ds = [] then None else Some (c # ds, dropWhile is_digit r))
          else Some ([], s)
      | [] \<Rightarrow> Some ([], []))"

definition exp_sign :: "string \<Rightarrow> string" where
  "exp_sign r = (case r of c # _ \<Rightarrow> if c = CHR ''+'' \<or> c = CHR ''-'' then [c] else [] | [] \<Rightarrow> [])"

definition exp_part :: "string \<Rightarrow> (string \<times> string) option" where
  "exp_part s =
     (case s of
        c # r \<Rightarrow>
          if c = CHR ''e'' \<or> c = CHR ''E'' then
            (let sg = exp_sign r; r' = drop (length sg) r; ds = takeWhile is_digit r' in
             if ds = [] then None else Some (c # sg @ ds, dropWhile is_digit r'))
          else Some ([], s)
      | [] \<Rightarrow> Some ([], []))"

definition int_value :: "bool \<Rightarrow> string \<Rightarrow> int" where
  "int_value neg ds = (if neg then - int (undec ds) else int (undec ds))"

definition int_digits :: "string \<Rightarrow> string" where
  "int_digits r = (case r of c # _ \<Rightarrow> if c = CHR ''0'' then [c] else takeWhile is_digit r | [] \<Rightarrow> [])"

definition parse_number :: "string \<Rightarrow> (json \<times> string) option" where
  "parse_number s =
     (let neg = (case s of c # _ \<Rightarrow> c = CHR ''-'' | [] \<Rightarrow> False);
          r = (if neg then drop 1 s else s);
          ds = int_digits r;
          r1 = drop (length ds) r in
      if ds = [] then None
      else (case frac_part r1 of
              None \<Rightarrow> None
            | Some (fr, r2) \<Rightarrow>
                (case exp_part r2 of
                   None \<Rightarrow> None
                 | Some (ex, r3) \<Rightarrow>
                     if fr = [] \<and> ex = [] then Some (JInt (int_value neg ds), r3)
                     else Some (JNum ((if neg then ''-'' else []) @ ds @ fr @ ex), r3))))"

text \<open>
  A value, the rest of a list after \<^verbatim>\<open>[\<close> or a comma, and the rest of an object.
  Every two calls read on, so fuel of twice the input is enough.
\<close>

fun parse_value :: "nat \<Rightarrow> string \<Rightarrow> (json \<times> string) option"
  and parse_elems :: "nat \<Rightarrow> string \<Rightarrow> (json list \<times> string) option"
  and parse_members :: "nat \<Rightarrow> string \<Rightarrow> ((string \<times> json) list \<times> string) option" where
  "parse_value 0 s = None"
| "parse_value (Suc n) s =
     (case skip_ws s of
        [] \<Rightarrow> None
      | c # r \<Rightarrow>
          if c = CHR 0x22 then map_option (map_prod JStr (\<lambda>r. r)) (unquote 0 r)
          else if c = CHR ''['' then
            (case skip_ws r of
               d # r' \<Rightarrow> if d = CHR '']'' then Some (JList [], r') else map_option (map_prod JList (\<lambda>r. r)) (parse_elems n r)
             | [] \<Rightarrow> None)
          else if c = CHR ''{'' then
            (case skip_ws r of
               d # r' \<Rightarrow> if d = CHR ''}'' then Some (JObj [], r') else map_option (map_prod JObj (\<lambda>r. r)) (parse_members n r)
             | [] \<Rightarrow> None)
          else if has_prefix (c # r) ''true'' then Some (JBool True, drop 4 (c # r))
          else if has_prefix (c # r) ''false'' then Some (JBool False, drop 5 (c # r))
          else if has_prefix (c # r) ''null'' then Some (JNull, drop 4 (c # r))
          else parse_number (c # r))"
| "parse_elems 0 s = None"
| "parse_elems (Suc n) s =
     (case parse_value n s of
        None \<Rightarrow> None
      | Some (j, r) \<Rightarrow>
          (case skip_ws r of
             c # r' \<Rightarrow>
               if c = CHR '']'' then Some ([j], r')
               else if c = CHR '','' then map_option (map_prod ((#) j) (\<lambda>r. r)) (parse_elems n r')
               else None
           | [] \<Rightarrow> None))"
| "parse_members 0 s = None"
| "parse_members (Suc n) s =
     (case skip_ws s of
        [] \<Rightarrow> None
      | q # r \<Rightarrow>
          if q \<noteq> CHR 0x22 then None
          else (case unquote 0 r of
             None \<Rightarrow> None
           | Some (k, r1) \<Rightarrow>
               (case skip_ws r1 of
                  [] \<Rightarrow> None
                | col # r2 \<Rightarrow>
                    if col \<noteq> CHR '':'' then None
                    else (case parse_value n r2 of
                       None \<Rightarrow> None
                     | Some (v, r3) \<Rightarrow>
                         (case skip_ws r3 of
                            c # r4 \<Rightarrow>
                              if c = CHR ''}'' then Some ([(k, v)], r4)
                              else if c = CHR '','' then map_option (map_prod ((#) (k, v)) (\<lambda>r. r)) (parse_members n r4)
                              else None
                          | [] \<Rightarrow> None)))))"

definition json_unmarshal :: "string \<Rightarrow> json option" where
  "json_unmarshal s =
     (case parse_value (Suc (2 * length s)) s of
        Some (j, r) \<Rightarrow> if skip_ws r = [] then Some j else None
      | None \<Rightarrow> None)"

section \<open>Reading back a string\<close>

fun utf8_fix :: "nat \<Rightarrow> string \<Rightarrow> string" where
  "utf8_fix k [] = []"
| "utf8_fix (Suc k) (c # s) = c # utf8_fix k s"
| "utf8_fix 0 (c # s) =
     (if (of_char c :: nat) < 128 then c # utf8_fix 0 s
      else (case utf8_len (c # s) of
              0 \<Rightarrow> replacement @ utf8_fix 0 s
            | Suc m \<Rightarrow> c # utf8_fix m s))"

lemma skip_take:
  "m \<le> length s \<Longrightarrow> json_chars m s = take m s @ json_chars 0 (drop m s)"
  "m \<le> length s \<Longrightarrow> utf8_fix m s = take m s @ utf8_fix 0 (drop m s)"
  "m \<le> length s \<Longrightarrow> unquote m (take m s @ t) = unquote 0 t"
  by (induction m arbitrary: s; case_tac s; simp)+

lemma utf8_len_le: "utf8_len (c # s) = Suc m \<Longrightarrow> m \<le> length s"
  by (auto simp: utf8_len_def Let_def split: if_splits list.splits)

lemma utf8_len_take: "utf8_len (c # s) = Suc m \<Longrightarrow> utf8_len (c # take m s @ t) = Suc m"
  by (auto simp: utf8_len_def Let_def split: if_splits list.splits)

lemma utf8_len_ascii: "(of_char c :: nat) < 128 \<Longrightarrow> utf8_len (c # s) = 1"
  by (simp add: utf8_len_def)

lemma hex_val_small: "hex_val CHR ''0'' = Some 0" "hex_val CHR ''f'' = Some 15" "hex_val CHR ''d'' = Some 13"
  "hex_val CHR ''2'' = Some 2" "hex_val CHR ''8'' = Some 8" "hex_val CHR ''9'' = Some 9"
  by (simp_all add: hex_val_def)

lemma char_of_bytes: "char_of (239 :: nat) = CHR 0xEF" "char_of (191 :: nat) = CHR 0xBF" "char_of (189 :: nat) = CHR 0xBD"
  "char_of (226 :: nat) = CHR 0xE2" "char_of (128 :: nat) = CHR 0x80" "char_of (168 :: nat) = CHR 0xA8"
  "char_of (169 :: nat) = CHR 0xA9"
  by code_simp+

lemma unquote_5: "unquote 5 (a # b # c # d # e # t) = unquote 0 t"
  by (simp add: numeral_eq_Suc)

lemma unquote_ascii:
  assumes "(of_char c :: nat) < 128"
  shows "unquote 0 (json_ascii c @ t) = map_option (map_prod ((@) [c]) (\<lambda>r. r)) (unquote 0 t)"
proof (cases "json_ascii c = [CHR 0x5C, CHR ''u'', CHR ''0'', CHR ''0''] @ hex_byte c")
  case True
  have "of_char c div 16 < (16 :: nat)" using of_char_lt256 [of c] by (intro less_mult_imp_div_less) simp
  then have "getu4 ([CHR 0x5C, CHR ''u'', CHR ''0'', CHR ''0''] @ hex_byte c @ t) = Some (of_char c)"
    by (simp add: hex_byte_def hex_val_small)
  with assms True show ?thesis
    by (simp add: unescape_def surrogate_def utf8_encode_def hex_byte_def unquote_5)
next
  case False
  then have cs: "json_ascii c = [CHR 0x5C, CHR 0x22] \<and> c = CHR 0x22 \<or> json_ascii c = [CHR 0x5C, CHR 0x5C] \<and> c = CHR 0x5C
    \<or> json_ascii c = [CHR 0x5C, CHR ''b''] \<and> c = CHR 0x08 \<or> json_ascii c = [CHR 0x5C, CHR ''f''] \<and> c = CHR 0x0C
    \<or> json_ascii c = [CHR 0x5C, CHR ''n''] \<and> c = CHR 0x0A \<or> json_ascii c = [CHR 0x5C, CHR ''r''] \<and> c = CHR 0x0D
    \<or> json_ascii c = [CHR 0x5C, CHR ''t''] \<and> c = CHR 0x09
    \<or> json_ascii c = [c] \<and> c \<noteq> CHR 0x22 \<and> c \<noteq> CHR 0x5C \<and> 32 \<le> (of_char c :: nat)"
    unfolding json_ascii_def by (auto split: if_splits)
  then show ?thesis using utf8_len_ascii [OF assms]
    by (elim disjE conjE) (simp_all add: unescape_def)
qed

lemma unquote_json_chars:
  "unquote 0 (json_chars 0 s @ CHR 0x22 # r) = Some (utf8_fix 0 s, r)"
proof (induction "length s" arbitrary: s rule: less_induct)
  case less
  show ?case
  proof (cases s)
    case (Cons c t)
    have IH: "unquote 0 (json_chars 0 (drop n t) @ CHR 0x22 # r) = Some (utf8_fix 0 (drop n t), r)" for n
      using less [of "drop n t"] Cons by simp
    note IH0 = IH [of 0, simplified]
    show ?thesis
    proof (cases "(of_char c :: nat) < 128")
      case True
      then show ?thesis using IH0 unquote_ascii [OF True] by (simp add: Cons)
    next
      case big: False
      then have nq: "c \<noteq> CHR 0x22" "c \<noteq> CHR 0x5C" by auto
      show ?thesis
      proof (cases "utf8_len (c # t)")
        case 0
        have "getu4 ([CHR 0x5C] @ ''ufffd'' @ u) = Some 65533" for u
          by (simp add: hex_val_small)
        then show ?thesis using big 0 IH0
          by (simp add: Cons unescape_def surrogate_def utf8_encode_def replacement_def unquote_5 char_of_bytes)
      next
        case (Suc m)
        have m: "m \<le> length t" using utf8_len_le [OF Suc] .
        have len: "utf8_len (c # take m t @ u) = Suc m" for u using utf8_len_take [OF Suc] .
        have fx: "utf8_fix 0 s = c # take m t @ utf8_fix 0 (drop m t)"
          using big Suc by (simp add: Cons skip_take(2) [OF m])
        consider (ls) "take 3 (c # t) = [CHR 0xE2, CHR 0x80, CHR 0xA8]" | (ps) "take 3 (c # t) = [CHR 0xE2, CHR 0x80, CHR 0xA9]"
          | (other) "take 3 (c # t) \<noteq> [CHR 0xE2, CHR 0x80, CHR 0xA8]" "take 3 (c # t) \<noteq> [CHR 0xE2, CHR 0x80, CHR 0xA9]"
          by blast
        then show ?thesis
        proof cases
          case other
          then have "json_chars 0 s = c # take m t @ json_chars 0 (drop m t)"
            using big Suc by (simp add: Cons skip_take(1) [OF m])
          then show ?thesis
            using IH [of m] nq big len by (simp add: fx skip_take(3) [OF m] m)
        next
          case ls
          then have t: "c = CHR 0xE2" "t = CHR 0x80 # CHR 0xA8 # drop 2 t"
            by (cases t; cases "tl t"; simp add: numeral_eq_Suc)+
          have m2: "m = 2" using Suc unfolding t(1) by (subst (asm) t(2)) (simp add: utf8_len_def byte_in_def)
          have "take m t = [CHR 0x80, CHR 0xA8]" unfolding m2 by (subst t(2)) simp
          then show ?thesis using IH [of 2] ls big Suc fx
            by (simp add: Cons t(1) m2 unescape_def surrogate_def utf8_encode_def unquote_5 char_of_bytes hex_val_small)
        next
          case ps
          then have t: "c = CHR 0xE2" "t = CHR 0x80 # CHR 0xA9 # drop 2 t"
            by (cases t; cases "tl t"; simp add: numeral_eq_Suc)+
          have m2: "m = 2" using Suc unfolding t(1) by (subst (asm) t(2)) (simp add: utf8_len_def byte_in_def)
          have "take m t = [CHR 0x80, CHR 0xA9]" unfolding m2 by (subst t(2)) simp
          then show ?thesis using IH [of 2] ps big Suc fx
            by (simp add: Cons t(1) m2 unescape_def surrogate_def utf8_encode_def unquote_5 char_of_bytes hex_val_small)
        qed
      qed
    qed
  qed simp
qed

section \<open>Reading back a value\<close>

fun json_fix :: "json \<Rightarrow> json" where
  "json_fix (JStr s) = JStr (utf8_fix 0 s)"
| "json_fix (JList js) = JList (map json_fix js)"
| "json_fix (JObj kvs) = JObj (map (\<lambda>(k, v). (utf8_fix 0 k, json_fix v)) kvs)"
| "json_fix j = j"

fun no_literal :: "json \<Rightarrow> bool" where
  "no_literal (JNum _) = False"
| "no_literal (JList js) = list_all no_literal js"
| "no_literal (JObj kvs) = list_all (\<lambda>(_, v). no_literal v) kvs"
| "no_literal _ = True"

definition ends_value :: "string \<Rightarrow> bool" where
  "ends_value r \<longleftrightarrow> r = [] \<or> hd r = CHR '','' \<or> hd r = CHR '']'' \<or> hd r = CHR ''}''"

lemma dec_nat_hd_zero: "hd (dec_nat n) = CHR ''0'' \<Longrightarrow> n = 0"
proof (induction n rule: dec_nat.induct)
  case (1 n)
  show ?case
  proof (cases "n < 10")
    case True
    then have "digit n = CHR ''0''" using 1(2) by (subst (asm) dec_nat.simps) simp
    then have "of_char (digit n) = (48 :: nat)" by simp
    with True show ?thesis by simp
  next
    case False
    then have "hd (dec_nat (n div 10)) = CHR ''0''"
      using 1(2) by (subst (asm) dec_nat.simps) (simp add: hd_append)
    with 1(1) [OF False] False show ?thesis by simp
  qed
qed

lemma dec_nat_is_digit: "\<forall>c \<in> set (dec_nat n). is_digit c"
  by (auto simp: is_digit_def dest: dec_nat_digits)

lemma ends_value_stop:
  assumes "ends_value r"
  shows "takeWhile is_digit r = []" "frac_part r = Some ([], r)" "exp_part r = Some ([], r)"
  using assms by (cases r; auto simp: ends_value_def is_digit_def frac_part_def exp_part_def)+

lemma parse_number_itoa: "ends_value r \<Longrightarrow> parse_number (itoa i @ r) = Some (JInt i, r)"
proof -
  assume r: "ends_value r"
  obtain c cs where n: "dec_nat (nat \<bar>i\<bar>) = c # cs" by (cases "dec_nat (nat \<bar>i\<bar>)") auto
  have dig: "is_digit c" using dec_nat_is_digit [of "nat \<bar>i\<bar>"] by (simp add: n)
  then have neg: "c \<noteq> CHR ''-''" by (auto simp: is_digit_def)
  have tw: "takeWhile is_digit (c # cs @ r) = c # cs"
    using dec_nat_is_digit [of "nat \<bar>i\<bar>"] ends_value_stop(1) [OF r] by (simp add: n)
  have z: "cs = []" if "c = CHR ''0''"
  proof -
    have "nat \<bar>i\<bar> = 0" using dec_nat_hd_zero [of "nat \<bar>i\<bar>"] n that by simp
    then have "dec_nat 0 = c # cs" using n by simp
    then show ?thesis by (subst (asm) dec_nat.simps) simp
  qed
  have ds: "int_digits (c # cs @ r) = c # cs" using tw z by (auto simp: int_digits_def)
  have u: "undec (c # cs) = nat \<bar>i\<bar>" using undec_dec_nat [of "nat \<bar>i\<bar>"] by (simp add: n)
  show ?thesis
  proof (cases "i < 0")
    case True
    then have "itoa i = CHR ''-'' # c # cs" using n by (simp add: itoa_def)
    then show ?thesis using ds u True ends_value_stop(2,3) [OF r]
      by (simp add: parse_number_def int_value_def Let_def)
  next
    case False
    then have "itoa i = c # cs" using n by (simp add: itoa_def)
    then show ?thesis using ds u False neg ends_value_stop(2,3) [OF r]
      by (simp add: parse_number_def int_value_def Let_def)
  qed
qed

lemma itoa_hd: "\<exists>c cs. itoa i = c # cs \<and> (c = CHR ''-'' \<or> is_digit c)"
proof (cases "i < 0")
  case False
  obtain c cs where "dec_nat (nat i) = c # cs" by (cases "dec_nat (nat i)") auto
  then show ?thesis using dec_nat_is_digit [of "nat i"] False by (simp add: itoa_def)
qed (simp add: itoa_def)

lemma marshal_hd:
  assumes "no_literal j"
  shows "\<exists>c cs. json_marshal j = c # cs \<and> \<not> json_space c \<and> c \<noteq> CHR '']'' \<and> c \<noteq> CHR ''}''"
proof (cases j)
  case (JInt i)
  then show ?thesis using itoa_hd [of i] by (auto simp: json_space_def is_digit_def)
qed (use assms in \<open>auto simp: json_string_def json_space_def\<close>)

lemma skip_ws_marshal: "no_literal j \<Longrightarrow> skip_ws (json_marshal j @ r) = json_marshal j @ r"
  using marshal_hd [of j] by (auto simp: skip_ws_def)

lemma skip_ws_cons [simp]: "\<not> json_space c \<Longrightarrow> skip_ws (c # r) = c # r"
  by (simp add: skip_ws_def)

lemma not_space [simp]: "\<not> json_space CHR 0x22" "\<not> json_space CHR '',''" "\<not> json_space CHR '']''"
  "\<not> json_space CHR ''}''" "\<not> json_space CHR '':''" "\<not> json_space CHR ''[''" "\<not> json_space CHR ''{''"
  by (simp_all add: json_space_def)

lemma parse_elems_marshal:
  assumes "\<And>j n r. j \<in> set js \<Longrightarrow> 2 * length (json_marshal j) < n \<Longrightarrow> ends_value r \<Longrightarrow>
      parse_value n (json_marshal j @ r) = Some (json_fix j, r)"
    and "js \<noteq> []" "2 * length (join_with CHR '','' (map json_marshal js)) + 1 < n"
  shows "parse_elems n (join_with CHR '','' (map json_marshal js) @ CHR '']'' # r) = Some (map json_fix js, r)"
  using assms
proof (induction js arbitrary: n)
  case (Cons j js)
  then obtain m where n: "n = Suc m" by (cases n) auto
  show ?case
  proof (cases "js = []")
    case True
    then show ?thesis using Cons.prems(1) [of j m "CHR '']'' # r"] Cons.prems(3) by (simp add: n ends_value_def)
  next
    case False
    let ?rest = "join_with CHR '','' (map json_marshal js) @ CHR '']'' # r"
    have j: "join_with CHR '','' (map json_marshal (j # js)) = json_marshal j @ CHR '','' # join_with CHR '','' (map json_marshal js)"
      using False by (simp add: join_with_Cons)
    have "parse_value m (json_marshal j @ CHR '','' # ?rest) = Some (json_fix j, CHR '','' # ?rest)"
      using Cons.prems(1) [of j m] Cons.prems(3) unfolding j by (simp add: n ends_value_def)
    moreover have "parse_elems m ?rest = Some (map json_fix js, r)"
      using Cons.IH [of m] Cons.prems(1,3) False unfolding j by (simp add: n)
    ultimately show ?thesis unfolding n j by (simp add: json_space_def)
  qed
qed simp

definition json_member :: "string \<times> json \<Rightarrow> string" where
  "json_member = (\<lambda>(k, v). json_string k @ '':'' @ json_marshal v)"

lemma parse_members_marshal:
  assumes "\<And>k v n r. (k, v) \<in> set kvs \<Longrightarrow> 2 * length (json_marshal v) < n \<Longrightarrow> ends_value r \<Longrightarrow>
      parse_value n (json_marshal v @ r) = Some (json_fix v, r)"
    and "kvs \<noteq> []" "2 * length (join_with CHR '','' (map json_member kvs)) + 1 < n"
  shows "parse_members n (join_with CHR '','' (map json_member kvs) @ CHR ''}'' # r) =
    Some (map (\<lambda>(k, v). (utf8_fix 0 k, json_fix v)) kvs, r)"
  using assms
proof (induction kvs arbitrary: n)
  case (Cons kv kvs)
  obtain k v where kv: "kv = (k, v)" by fastforce
  from Cons obtain m where n: "n = Suc m" by (cases n) auto
  have uq: "unquote 0 (json_chars 0 k @ CHR 0x22 # u) = Some (utf8_fix 0 k, u)" for u by (rule unquote_json_chars)
  show ?case
  proof (cases "kvs = []")
    case True
    then show ?thesis using Cons.prems(1) [of k v m "CHR ''}'' # r"] Cons.prems(3) uq
      by (simp add: n kv json_member_def json_string_def ends_value_def)
  next
    case False
    let ?rest = "join_with CHR '','' (map json_member kvs) @ CHR ''}'' # r"
    have j: "join_with CHR '','' (map json_member (kv # kvs)) = json_member kv @ CHR '','' # join_with CHR '','' (map json_member kvs)"
      using False by (simp add: join_with_Cons)
    have "parse_value m (json_marshal v @ CHR '','' # ?rest) = Some (json_fix v, CHR '','' # ?rest)"
      using Cons.prems(1) [of k v m] Cons.prems(3) unfolding j by (simp add: n kv ends_value_def json_member_def)
    moreover have "parse_members m ?rest = Some (map (\<lambda>(k, v). (utf8_fix 0 k, json_fix v)) kvs, r)"
    proof (rule Cons.IH)
      show "parse_value n (json_marshal v @ r) = Some (json_fix v, r)"
        if "(k, v) \<in> set kvs" "2 * length (json_marshal v) < n" "ends_value r" for k v n r
        using Cons.prems(1) [of k v n r] that by simp
      show "2 * length (join_with CHR '','' (map json_member kvs)) + 1 < m"
        using Cons.prems(3) unfolding j n by simp
    qed (rule False)
    ultimately show ?thesis unfolding n j using uq by (simp add: kv json_member_def json_string_def)
  qed
qed simp

lemma parse_value_marshal:
  "no_literal j \<Longrightarrow> 2 * length (json_marshal j) < n \<Longrightarrow> ends_value r \<Longrightarrow>
     parse_value n (json_marshal j @ r) = Some (json_fix j, r)"
proof (induction j arbitrary: n r rule: json.induct)
  case (JStr s)
  then obtain m where "n = Suc m" by (cases n) auto
  then show ?case by (simp add: json_string_def unquote_json_chars)
next
  case (JInt i)
  then obtain m where n: "n = Suc m" by (cases n) auto
  obtain c cs where c: "itoa i = c # cs" "c = CHR ''-'' \<or> is_digit c" using itoa_hd by blast
  then have "c \<noteq> CHR 0x22" "c \<noteq> CHR ''[''" "c \<noteq> CHR ''{''" "c \<noteq> CHR ''t''" "c \<noteq> CHR ''f''" "c \<noteq> CHR ''n''"
    "\<not> json_space c" by (auto simp: is_digit_def json_space_def)
  then show ?case using parse_number_itoa [OF JInt(3), of i] by (simp add: n c(1))
next
  case (JList js)
  then obtain m where n: "n = Suc m" by (cases n) auto
  show ?case
  proof (cases js)
    case (Cons j js')
    let ?body = "join_with CHR '','' (map json_marshal js)"
    have "\<exists>c cs. ?body = c # cs \<and> \<not> json_space c \<and> c \<noteq> CHR '']''"
      using marshal_hd [of j] JList(2) by (cases js') (auto simp: Cons)
    then obtain c cs where body: "?body = c # cs" "\<not> json_space c" "c \<noteq> CHR '']''" by blast
    have "parse_elems m (?body @ CHR '']'' # r) = Some (map json_fix js, r)"
      using JList Cons by (intro parse_elems_marshal) (auto simp: n list_all_iff)
    then show ?thesis using body by (simp add: n)
  qed (simp add: n)
next
  case (JObj kvs)
  then obtain m where n: "n = Suc m" by (cases n) auto
  let ?body = "join_with CHR '','' (map json_member kvs)"
  have mem: "json_marshal (JObj kvs) = ''{'' @ ?body @ ''}''" by (simp add: json_member_def)
  show ?case
  proof (cases kvs)
    case (Cons kv kvs')
    have "\<exists>cs. ?body = CHR 0x22 # cs"
      by (cases kvs'; cases kv) (auto simp: Cons json_member_def json_string_def)
    then obtain cs where body: "?body = CHR 0x22 # cs" by blast
    have "parse_members m (?body @ CHR ''}'' # r) = Some (map (\<lambda>(k, v). (utf8_fix 0 k, json_fix v)) kvs, r)"
    proof (rule parse_members_marshal)
      fix k v n r
      assume kv: "(k, v) \<in> set kvs" and n: "2 * length (json_marshal v) < n" and r: "ends_value r"
      have "no_literal v" using JObj(2) kv by (auto simp: list_all_iff)
      then show "parse_value n (json_marshal v @ r) = Some (json_fix v, r)"
        using JObj(1) [OF kv, of v n r] n r by simp
    next
      show "2 * length ?body + 1 < m" using JObj(3) unfolding n mem by simp
    qed (simp add: Cons)
    then show ?thesis unfolding mem n using body by simp
  qed (simp add: n)
next
  case (JBool b)
  then obtain m where "n = Suc m" by (cases n) auto
  then show ?case by (simp add: json_space_def)
next
  case JNull
  then obtain m where "n = Suc m" by (cases n) auto
  then show ?case by (simp add: json_space_def)
qed simp

theorem unmarshal_marshal: "no_literal j \<Longrightarrow> json_unmarshal (json_marshal j) = Some (json_fix j)"
  using parse_value_marshal [of j "Suc (2 * length (json_marshal j))" "[]"]
  by (simp add: json_unmarshal_def ends_value_def skip_ws_def)

section \<open>Fields of a struct\<close>

text \<open>
  Object keys match the name of a field up to case: \<^verbatim>\<open>foldName\<close>, of which only the
  runes that fold to ASCII letters matter for the lower-case names here.
\<close>

function fold_name :: "string \<Rightarrow> string" where
  "fold_name s =
     (if s = [] then []
      else if has_prefix s [CHR 0xC5, CHR 0xBF] then CHR ''s'' # fold_name (drop 2 s)
      else if has_prefix s [CHR 0xE2, CHR 0x84, CHR 0xAA] then CHR ''k'' # fold_name (drop 3 s)
      else (let n = of_char (hd s) :: nat in
            (if 65 \<le> n \<and> n \<le> 90 then char_of (n + 32) else hd s) # fold_name (tl s)))"
  by auto
termination by (relation "measure length") auto

declare fold_name.simps [simp del]

text \<open>Decoding into a struct with one string field; None stands for the decoding error.\<close>

fun decode_string_field :: "string \<Rightarrow> string \<Rightarrow> (string \<times> json) list \<Rightarrow> string option" where
  "decode_string_field name cur [] = Some cur"
| "decode_string_field name cur ((k, v) # kvs) =
     (if fold_name k = name then
        (case v of
           JStr s \<Rightarrow> decode_string_field name s kvs
         | JNull \<Rightarrow> decode_string_field name cur kvs
         | _ \<Rightarrow> None)
      else decode_string_field name cur kvs)"

definition unmarshal_string_field :: "string \<Rightarrow> string \<Rightarrow> string option" where
  "unmarshal_string_field name s =
     (case json_unmarshal s of
        Some (JObj kvs) \<Rightarrow> decode_string_field name [] kvs
      | Some JNull \<Rightarrow> Some []
      | _ \<Rightarrow> None)"

section \<open>The fuel is enough\<close>

lemma skip_ws_length: "length (skip_ws s) \<le> length s"
  by (simp add: skip_ws_def length_dropWhile_le)

lemma skip_ws_Cons: "skip_ws s = c # r \<Longrightarrow> length r < length s"
  using skip_ws_length [of s] by auto

lemma unquote_length: "unquote k s = Some (t, r) \<Longrightarrow> length r < length s"
proof (induction k s arbitrary: t r rule: unquote.induct)
  case (3 c s)
  then show ?case by (fastforce split: if_splits option.splits prod.splits nat.splits)
qed auto

lemma frac_part_length: "frac_part s = Some (t, r) \<Longrightarrow> length r \<le> length s"
  by (auto simp: frac_part_def Let_def length_dropWhile_le le_SucI split: list.splits if_splits)

lemma exp_part_length: "exp_part s = Some (t, r) \<Longrightarrow> length r \<le> length s"
proof -
  have "length (dropWhile is_digit (drop n u)) \<le> Suc (length u)" for n u
    using length_dropWhile_le [of is_digit "drop n u"] by (simp add: diff_le_self le_SucI le_trans)
  then show "exp_part s = Some (t, r) \<Longrightarrow> length r \<le> length s"
    by (auto simp: exp_part_def Let_def split: list.splits if_splits)
qed

lemma parse_number_length: "parse_number s = Some (j, r) \<Longrightarrow> length r < length s"
proof -
  assume p: "parse_number s = Some (j, r)"
  define u where "u = (if (case s of c # _ \<Rightarrow> c = CHR ''-'' | [] \<Rightarrow> False) then drop 1 s else s)"
  have u: "length u \<le> length s" by (simp add: u_def)
  from p obtain fr r2 ex where ds: "int_digits u \<noteq> []"
    and fr: "frac_part (drop (length (int_digits u)) u) = Some (fr, r2)" and ex: "exp_part r2 = Some (ex, r)"
    by (auto simp: parse_number_def u_def [symmetric] Let_def split: option.splits if_splits)
  have "u \<noteq> []" using ds by (auto simp: int_digits_def)
  then have "length (drop (length (int_digits u)) u) < length u" using ds by simp
  then show ?thesis using frac_part_length [OF fr] exp_part_length [OF ex] u by simp
qed

lemma parse_length:
  "(\<forall>s j r. parse_value n s = Some (j, r) \<longrightarrow> length r < length s)
   \<and> (\<forall>s js r. parse_elems n s = Some (js, r) \<longrightarrow> length r < length s)
   \<and> (\<forall>s kvs r. parse_members n s = Some (kvs, r) \<longrightarrow> length r < length s)"
proof (induction n)
  case (Suc n)
  have v: "length r < length s" if p: "parse_value (Suc n) s = Some (j, r)" for s j r
  proof -
    obtain c u where u: "skip_ws s = c # u" using p by (cases "skip_ws s") auto
    have "length r \<le> length u"
      using p u Suc parse_number_length [of "c # u" j r] skip_ws_length [of u]
      by (auto split: if_splits list.splits dest!: unquote_length) (fastforce dest: less_imp_le_nat skip_ws_Cons)+
    then show ?thesis using skip_ws_Cons [OF u] by simp
  qed
  have e: "length r < length s" if p: "parse_elems (Suc n) s = Some (js, r)" for s js r
  proof -
    obtain j u where u: "parse_value n s = Some (j, u)" using p by (auto split: option.splits)
    obtain c w where w: "skip_ws u = c # w" using p u by (cases "skip_ws u") auto
    have "length r \<le> length w" using p u w Suc by (auto split: if_splits intro!: less_imp_le_nat)
    moreover have "length u < length s" using u Suc by blast
    ultimately show ?thesis using skip_ws_Cons [OF w] by simp
  qed
  have m: "length r < length s" if p: "parse_members (Suc n) s = Some (kvs, r)" for s kvs r
  proof -
    obtain q u where u: "skip_ws s = q # u" using p by (cases "skip_ws s") auto
    obtain k u1 where u1: "unquote 0 u = Some (k, u1)" using p u by (auto split: if_splits option.splits)
    obtain col u2 where u2: "skip_ws u1 = col # u2" using p u u1 by (cases "skip_ws u1") (auto split: if_splits)
    obtain v u3 where u3: "parse_value n u2 = Some (v, u3)" using p u u1 u2 by (auto split: if_splits option.splits)
    obtain c w where w: "skip_ws u3 = c # w" using p u u1 u2 u3 by (cases "skip_ws u3") (auto split: if_splits)
    have "length r \<le> length w" using p u u1 u2 u3 w Suc by (auto split: if_splits intro!: less_imp_le_nat)
    moreover have "length u3 < length u2" using u3 Suc by blast
    ultimately show ?thesis
      using skip_ws_Cons [OF w] skip_ws_Cons [OF u2] skip_ws_Cons [OF u] unquote_length [OF u1] by simp
  qed
  from v e m show ?case by blast
qed simp

lemma parse_more_fuel:
  "(\<forall>s. 2 * length s < n \<longrightarrow> parse_value (Suc n) s = parse_value n s)
   \<and> (\<forall>s. 2 * length s + 1 < n \<longrightarrow> parse_elems (Suc n) s = parse_elems n s)
   \<and> (\<forall>s. 2 * length s + 1 < n \<longrightarrow> parse_members (Suc n) s = parse_members n s)"
proof (induction n)
  case (Suc n)
  have v: "parse_value (Suc (Suc n)) s = parse_value (Suc n) s" if l: "2 * length s < Suc n" for s
  proof (cases "skip_ws s")
    case (Cons c u)
    have "2 * length u + 1 < n" using skip_ws_Cons [OF Cons] l by simp
    then have "parse_elems (Suc n) u = parse_elems n u" "parse_members (Suc n) u = parse_members n u" using Suc by blast+
    then show ?thesis by (simp only: parse_value.simps Cons list.case)
  qed simp
  have e: "parse_elems (Suc (Suc n)) s = parse_elems (Suc n) s" if l: "2 * length s + 1 < Suc n" for s
  proof -
    have 1: "parse_value (Suc n) s = parse_value n s" using Suc l by simp
    have "parse_elems (Suc n) w = parse_elems n w" if "parse_value n s = Some (j, u)" "skip_ws u = c # w" for j u c w
    proof -
      have "length u < length s" using parse_length [of n] that(1) by blast
      then have "2 * length w + 1 < n" using skip_ws_Cons [OF that(2)] l by simp
      then show ?thesis using Suc by blast
    qed
    then show ?thesis by (simp only: parse_elems.simps 1) (auto split: option.splits list.splits)
  qed
  have m: "parse_members (Suc (Suc n)) s = parse_members (Suc n) s" if l: "2 * length s + 1 < Suc n" for s
  proof (cases "skip_ws s")
    case (Cons q u)
    have u: "length u < length s" using skip_ws_Cons [OF Cons] .
    have 1: "parse_value (Suc n) u2 = parse_value n u2" if "unquote 0 u = Some (k, u1)" "skip_ws u1 = c # u2" for k u1 c u2
      using Suc l u unquote_length [OF that(1)] skip_ws_Cons [OF that(2)] by simp
    have 2: "parse_members (Suc n) w = parse_members n w"
      if "unquote 0 u = Some (k, u1)" "skip_ws u1 = c # u2" "parse_value n u2 = Some (v, u3)" "skip_ws u3 = e # w"
      for k u1 c u2 v u3 e w
    proof -
      have "length u3 < length u2" using parse_length [of n] that(3) by blast
      then have "2 * length w + 1 < n"
        using l u unquote_length [OF that(1)] skip_ws_Cons [OF that(2)] skip_ws_Cons [OF that(4)] by simp
      then show ?thesis using Suc by blast
    qed
    note unfold = parse_members.simps(2) [of "Suc n" s] parse_members.simps(2) [of n s] Cons list.case option.case prod.case
    show ?thesis
    proof (cases "unquote 0 u")
      case (Some p)
      obtain k u1 where p: "p = (k, u1)" by fastforce
      note uq = Some [unfolded p]
      show ?thesis
      proof (cases "skip_ws u1")
        case c: (Cons c u2)
        show ?thesis
        proof (cases "parse_value n u2")
          case (Some p3)
          obtain v u3 where p3: "p3 = (v, u3)" by fastforce
          note pv = Some [unfolded p3]
          show ?thesis
          proof (cases "skip_ws u3")
            case e: (Cons e w)
            show ?thesis by (simp only: unfold uq c 1 [OF uq c] pv e 2 [OF uq c pv e])
          qed (simp only: unfold uq c 1 [OF uq c] pv)
        qed (simp only: unfold uq c 1 [OF uq c])
      qed (simp only: unfold uq)
    qed (simp only: unfold)
  qed simp
  from v e m show ?case by blast
qed simp

text \<open>Reading with any larger fuel gives the same result, so none of the input is cut off.\<close>

theorem parse_fuel_enough: "2 * length s < n \<Longrightarrow> parse_value n s = parse_value (Suc (2 * length s)) s"
proof (induction n)
  case (Suc n)
  then show ?case using parse_more_fuel [of n] by (cases "2 * length s = n") auto
qed simp

end
