(* ===== verification/Policies.thy ===== *)
theory Policies
  imports Domains JsonParse "HOL-Library.AList"
begin

text \<open>
  The stored Cedar policies, \<^verbatim>\<open>internal/server/storage/policies.go\<close>: a change and
  its audit row in one transaction, and the digests the audit chain recorded,
  against which the stored texts are checked before they are enforced.
\<close>

section \<open>Policies\<close>

record policy =
  pol_id :: string
  pol_text :: string
  pol_version :: int
  pol_digest :: string
  pol_created_by :: string
  pol_created_at :: gotime
  pol_updated_by :: string
  pol_updated_at :: gotime

definition ValidatePolicyID :: "string \<Rightarrow> err option" where
  "ValidatePolicyID i =
     (if length i > 63 \<or> \<not> domainLabel i then Some (ErrInvalid ''policy id'') else None)"

definition ETag :: "policy \<Rightarrow> string" where
  "ETag p = [CHR 0x22] @ itoa (pol_version p) @ ''-'' @ pol_digest p @ [CHR 0x22]"

definition PolicyDigest :: "crypto \<Rightarrow> string \<Rightarrow> string" where
  "PolicyDigest cr text = hex_encode (sha256 cr text)"

definition scanPolicy :: "crypto \<Rightarrow> policy_row \<Rightarrow> policy" where
  "scanPolicy cr r =
     \<lparr>pol_id = p_id r, pol_text = p_text r, pol_version = p_version r, pol_digest = PolicyDigest cr (p_text r),
      pol_created_by = p_created_by r, pol_created_at = p_created_at r,
      pol_updated_by = p_updated_by r, pol_updated_at = p_updated_at r\<rparr>"

definition ListPolicies :: "crypto \<Rightarrow> io \<Rightarrow> store \<Rightarrow> err + policy list" where
  "ListPolicies cr io s =
     run_query io ''query policies'' (\<lambda>d. map (scanPolicy cr) (sort_key p_id (db_policies d))) s"

definition find_policy :: "crypto \<Rightarrow> string \<Rightarrow> db \<Rightarrow> policy option" where
  "find_policy cr i d = map_option (scanPolicy cr) (sql_row (\<lambda>r. p_id r = i) (db_policies d))"

definition GetPolicy :: "crypto \<Rightarrow> io \<Rightarrow> string \<Rightarrow> store \<Rightarrow> err + policy" where
  "GetPolicy cr io i s =
     (case run_query io ''query policy'' (find_policy cr i) s of
        Inl e \<Rightarrow> Inl e
      | Inr None \<Rightarrow> Inl ErrNotFound
      | Inr (Some p) \<Rightarrow> Inr p)"

section \<open>Changing a policy\<close>

text \<open>
  \<^verbatim>\<open>PolicyChange\<close>: from the row as it is, if any, the row to write (None: delete it) and
  the event to record.
\<close>

type_synonym policy_change = "policy option \<Rightarrow> err + policy option \<times> audit_event"

definition created_policy :: "crypto \<Rightarrow> io \<Rightarrow> string \<Rightarrow> policy \<Rightarrow> policy" where
  "created_policy cr io i nxt =
     \<lparr>pol_id = i, pol_text = pol_text nxt, pol_version = 1, pol_digest = PolicyDigest cr (pol_text nxt),
      pol_created_by = pol_updated_by nxt, pol_created_at = io_now io,
      pol_updated_by = pol_updated_by nxt, pol_updated_at = io_now io\<rparr>"

definition updated_policy :: "crypto \<Rightarrow> io \<Rightarrow> policy \<Rightarrow> policy \<Rightarrow> policy" where
  "updated_policy cr io cur nxt =
     cur\<lparr>pol_text := pol_text nxt, pol_version := wrap64 (pol_version cur + 1),
         pol_digest := PolicyDigest cr (pol_text nxt), pol_updated_by := pol_updated_by nxt,
         pol_updated_at := io_now io\<rparr>"

definition policy_row_of :: "policy \<Rightarrow> policy_row" where
  "policy_row_of w =
     \<lparr>p_id = pol_id w, p_text = pol_text w, p_version = pol_version w, p_created_by = pol_created_by w,
      p_created_at = unix_nano (pol_created_at w), p_updated_by = pol_updated_by w,
      p_updated_at = unix_nano (pol_updated_at w)\<rparr>"

definition insert_policy :: "io \<Rightarrow> policy \<Rightarrow> unit tx" where
  "insert_policy io w =
     tx_stmt io ''insert policy'' (\<lambda>d.
       case sql_insert p_id (policy_row_of w) (db_policies d) of
         None \<Rightarrow> Inl ErrAlreadyExists
       | Some t \<Rightarrow> Inr ((), d\<lparr>db_policies := t\<rparr>))"

definition update_policy :: "io \<Rightarrow> string \<Rightarrow> policy \<Rightarrow> unit tx" where
  "update_policy io i w =
     tx_exec io ''update policy'' (\<lambda>d.
       d\<lparr>db_policies := sql_update (\<lambda>r. p_id r = i) (\<lambda>r. r\<lparr>p_text := pol_text w, p_version := pol_version w,
           p_updated_by := pol_updated_by w, p_updated_at := unix_nano (pol_updated_at w)\<rparr>) (db_policies d)\<rparr>)"

definition delete_policy :: "io \<Rightarrow> string \<Rightarrow> unit tx" where
  "delete_policy io i =
     tx_exec io ''delete policy'' (\<lambda>d. d\<lparr>db_policies := sql_delete (\<lambda>r. p_id r = i) (db_policies d)\<rparr>)"

text \<open>The write the switch selects; the policy it leaves, if any.\<close>

definition write_policy :: "crypto \<Rightarrow> io \<Rightarrow> string \<Rightarrow> policy option \<Rightarrow> policy option \<Rightarrow> policy option tx" where
  "write_policy cr io i cur nxt =
     (case nxt of
        None \<Rightarrow> (case cur of
                   None \<Rightarrow> tx_fail ErrNotFound
                 | Some _ \<Rightarrow> tx_bind (delete_policy io i) (\<lambda>_. tx_return None))
      | Some n \<Rightarrow>
          (case cur of
             None \<Rightarrow> tx_bind (insert_policy io (created_policy cr io i n)) (\<lambda>_.
                     tx_return (Some (created_policy cr io i n)))
           | Some c \<Rightarrow> tx_bind (update_policy io i (updated_policy cr io c n)) (\<lambda>_.
                       tx_return (Some (updated_policy cr io c n)))))"

definition change_policy_tx ::
  "crypto \<Rightarrow> io \<Rightarrow> store \<Rightarrow> string \<Rightarrow> policy_change \<Rightarrow> (policy option \<times> audit_event) tx" where
  "change_policy_tx cr io s i change =
     tx_bind (tx_query io ''query policy'' (find_policy cr i)) (\<lambda>cur.
     case change cur of
       Inl e \<Rightarrow> tx_fail e
     | Inr (nxt, ev) \<Rightarrow>
         if ev_kind ev = [] then tx_fail (ErrInvalid ''policy change: audit kind is required'')
         else tx_bind (write_policy cr io i cur nxt) (\<lambda>w.
              tx_bind (append_tx cr io s ev) (\<lambda>ev'. tx_return (w, ev'))))"

definition ChangePolicy ::
  "crypto \<Rightarrow> io \<Rightarrow> string \<Rightarrow> policy_change \<Rightarrow> store \<Rightarrow> (err + policy option \<times> audit_event) \<times> store" where
  "ChangePolicy cr io i change s =
     (if \<not> IsLeader s then (Inl ErrNotLeader, s)
      else (case run_tx io (change_policy_tx cr io s i change) s of
              (Inl e, s') \<Rightarrow> (Inl e, s')
            | (Inr x, s') \<Rightarrow> (Inr x, auditCommitted s')))"

section \<open>What the audit chain recorded\<close>

text \<open>\<^verbatim>\<open>checkAuditRowMAC\<close>: True when the row verifies.\<close>

definition checkAuditRowMAC :: "crypto \<Rightarrow> audit_event \<Rightarrow> (string \<times> bytes) list \<Rightarrow> bool \<Rightarrow> int \<Rightarrow> bool" where
  "checkAuditRowMAC cr ev keys hasEpoch keyedFrom =
     (if is_unkeyed (ev_key_id ev) then \<not> (hasEpoch \<and> ev_seq ev \<ge> keyedFrom)
      else (case map_of keys (ev_key_id ev) of
              None \<Rightarrow> False
            | Some key \<Rightarrow> hex_decode (ev_hash ev) = Some (macAuditEvent cr ev key)))"

definition policy_kind :: "string \<Rightarrow> bool" where
  "policy_kind k \<longleftrightarrow> k = ''policy.create'' \<or> k = ''policy.update'' \<or> k = ''policy.delete''"

definition policy_audit_row :: "audit_row \<Rightarrow> bool" where
  "policy_audit_row r \<longleftrightarrow> policy_kind (a_kind r) \<and> a_decision r = ''ok''"

fun collect_digests ::
  "(audit_event \<Rightarrow> bool) \<Rightarrow> audit_event list \<Rightarrow> (string \<times> string) list \<Rightarrow> err + (string \<times> string) list" where
  "collect_digests ok [] out = Inr out"
| "collect_digests ok (ev # evs) out =
     (if \<not> ok ev then Inl (ErrAuditRowUnverified (ev_seq ev))
      else (case unmarshal_string_field ''new_digest'' (payload_bytes ev) of
              None \<Rightarrow> Inl (ErrAuditRowUnverified (ev_seq ev))
            | Some dg \<Rightarrow> collect_digests ok evs (AList.update (ev_subject ev) dg out)))"

definition PolicyAuditDigests :: "crypto \<Rightarrow> io \<Rightarrow> store \<Rightarrow> err + (string \<times> string) list" where
  "PolicyAuditDigests cr io s =
     (case (case st_keyring s of
              None \<Rightarrow> Inr (0, False, [])
            | Some kr \<Rightarrow> (case auditKeyedFromSeq io s of
                            Inl e \<Rightarrow> Inl e
                          | Inr (keyedFrom, hasEpoch) \<Rightarrow> Inr (keyedFrom, hasEpoch, Snapshot kr))) of
        Inl e \<Rightarrow> Inl e
      | Inr (keyedFrom, hasEpoch, keys) \<Rightarrow>
          (case run_query io ''query policy audit''
                  (\<lambda>d. map scan_event (sort_key a_seq (filter policy_audit_row (db_audit d)))) s of
             Inl e \<Rightarrow> Inl e
           | Inr evs \<Rightarrow>
               collect_digests (\<lambda>ev. st_keyring s = None \<or> checkAuditRowMAC cr ev keys hasEpoch keyedFrom) evs []))"

text \<open>\<^verbatim>\<open>maps.Equal\<close> on the two maps.\<close>

definition maps_equal :: "(string \<times> string) list \<Rightarrow> (string \<times> string) list \<Rightarrow> bool" where
  "maps_equal a b \<longleftrightarrow> (\<forall>k \<in> set (map fst a) \<union> set (map fst b). map_of a k = map_of b k)"

text \<open>
  \<^verbatim>\<open>PolicySet\<close>.  Its reads are separate, so the store may change between them: the
  \<open>n\<close>-th read sees the service and the store \<open>reads n\<close>.
\<close>

fun policy_set_loop ::
  "crypto \<Rightarrow> (nat \<Rightarrow> io \<times> store) \<Rightarrow> nat \<Rightarrow> nat \<Rightarrow> (string \<times> string) list
   \<Rightarrow> err + policy list \<times> (string \<times> string) list" where
  "policy_set_loop cr reads 0 n before = Inl (ErrInvalid ''stored policies kept changing while being read'')"
| "policy_set_loop cr reads (Suc k) n before =
     (case ListPolicies cr (fst (reads n)) (snd (reads n)) of
        Inl e \<Rightarrow> Inl e
      | Inr items \<Rightarrow>
          (case PolicyAuditDigests cr (fst (reads (n + 1))) (snd (reads (n + 1))) of
             Inl e \<Rightarrow> Inl e
           | Inr after \<Rightarrow>
               if maps_equal before after then Inr (items, after)
               else policy_set_loop cr reads k (n + 2) after))"

definition PolicySet ::
  "crypto \<Rightarrow> (nat \<Rightarrow> io \<times> store) \<Rightarrow> err + policy list \<times> (string \<times> string) list" where
  "PolicySet cr reads =
     (case PolicyAuditDigests cr (fst (reads 0)) (snd (reads 0)) of
        Inl e \<Rightarrow> Inl e
      | Inr before \<Rightarrow> policy_set_loop cr reads 3 1 before)"

section \<open>A change and its record commit together\<close>

interpretation cp: db_write "\<lambda>io. ChangePolicy cr io i change" "\<lambda>io s. change_policy_tx cr io s i change" for cr i change
proof
  fix io s r s'
  assume "ChangePolicy cr io i change s = (r, s')"
  then show "s' = s \<or> IsLeader s \<and> settings s' = settings s \<and> (\<exists>x. change_policy_tx cr io s i change (st_db s) = Inr (x, st_db s'))
     \<and> (\<forall>e. r = Inl e \<longrightarrow> io_commit io = CommitLost)"
    by (auto simp: ChangePolicy_def run_tx_def settings_def auditCommitted_def
        split: if_splits sum.splits commit_outcome.splits)
qed

definition policy_after :: "crypto \<Rightarrow> io \<Rightarrow> string \<Rightarrow> policy option \<Rightarrow> policy option \<Rightarrow> policy option" where
  "policy_after cr io i cur nxt =
     (case nxt of
        None \<Rightarrow> None
      | Some n \<Rightarrow> Some (case cur of None \<Rightarrow> created_policy cr io i n | Some c \<Rightarrow> updated_policy cr io c n))"

definition as_stored :: "policy \<Rightarrow> policy" where
  "as_stored w = w\<lparr>pol_created_at := unix_nano (pol_created_at w), pol_updated_at := unix_nano (pol_updated_at w)\<rparr>"

definition int64_policies :: "db \<Rightarrow> bool" where
  "int64_policies d \<longleftrightarrow> keyed p_id (db_policies d) \<and> (\<forall>r \<in> set (db_policies d). int64 (p_created_at r))"

lemma scan_policy_row: "pol_digest w = PolicyDigest cr (pol_text w) \<Longrightarrow> scanPolicy cr (policy_row_of w) = as_stored w"
  by (simp add: scanPolicy_def policy_row_of_def as_stored_def)

lemma find_policy_Some: "find_policy cr i d = Some p \<Longrightarrow> \<exists>r \<in> set (db_policies d). p_id r = i \<and> p = scanPolicy cr r"
  by (auto simp: find_policy_def dest: sql_row_SomeD)

lemma find_policy_keyed:
  "keyed p_id t \<Longrightarrow> r \<in> set t \<Longrightarrow> p_id r = i \<Longrightarrow> db_policies d = t \<Longrightarrow> find_policy cr i d = Some (scanPolicy cr r)"
  by (simp add: find_policy_def sql_row_keyed)

lemma find_policy_None: "find_policy cr i d = None \<longleftrightarrow> i \<notin> p_id ` set (db_policies d)"
  by (auto simp: find_policy_def sql_row_None)

text \<open>The tables a write leaves: the policy it was asked for, every other policy as it was.\<close>

lemma write_policy_Inr:
  assumes w: "write_policy cr io i (find_policy cr i d) nxt d = Inr (w, d')" and inv: "int64_policies d"
  shows "w = policy_after cr io i (find_policy cr i d) nxt \<and> int64_policies d'
    \<and> d' = d\<lparr>db_policies := db_policies d'\<rparr>
    \<and> (\<forall>j. find_policy cr j d' = (if j = i then map_option as_stored w else find_policy cr j d))"
proof (cases nxt)
  case None
  with w obtain c where c: "find_policy cr i d = Some c" and "w = None"
    and d': "d' = d\<lparr>db_policies := sql_delete (\<lambda>r. p_id r = i) (db_policies d)\<rparr>"
    by (auto simp: write_policy_def delete_policy_def tx_simps split: option.splits)
  moreover have "find_policy cr j d' = (if j = i then None else find_policy cr j d)" for j
    by (simp add: find_policy_def d' sql_row_delete_key)
  ultimately show ?thesis using inv None
    by (auto simp: policy_after_def int64_policies_def keyed_delete set_sql_delete)
next
  case (Some n)
  show ?thesis
  proof (cases "find_policy cr i d")
    case None
    let ?w = "created_policy cr io i n"
    from w Some None have fresh: "i \<notin> p_id ` set (db_policies d)" and "w = Some ?w"
      and d': "d' = d\<lparr>db_policies := db_policies d @ [policy_row_of ?w]\<rparr>"
      by (auto simp: write_policy_def insert_policy_def tx_simps table_simps policy_row_of_def created_policy_def split: option.splits)
    moreover have "find_policy cr j d' = (if j = i then Some (as_stored ?w) else find_policy cr j d)" for j
    proof -
      have "scanPolicy cr (policy_row_of ?w) = as_stored ?w" by (rule scan_policy_row) (simp add: created_policy_def)
      moreover have "p_id (policy_row_of ?w) = i" by (simp add: policy_row_of_def created_policy_def)
      ultimately show ?thesis using None
        by (auto simp: find_policy_def d' sql_row_snoc split: option.splits)
    qed
    ultimately show ?thesis using inv Some None
      by (auto simp: policy_after_def int64_policies_def policy_row_of_def created_policy_def intro: keyed_snoc)
  next
    case c: (Some c)
    let ?w = "updated_policy cr io c n"
    let ?f = "\<lambda>r. r\<lparr>p_text := pol_text ?w, p_version := pol_version ?w,
       p_updated_by := pol_updated_by ?w, p_updated_at := unix_nano (pol_updated_at ?w)\<rparr>"
    from w Some c have "w = Some ?w"
      and d': "d' = d\<lparr>db_policies := sql_update (\<lambda>r. p_id r = i) ?f (db_policies d)\<rparr>"
      by (auto simp: write_policy_def update_policy_def tx_simps)
    obtain r where r: "sql_row (\<lambda>r. p_id r = i) (db_policies d) = Some r" "c = scanPolicy cr r"
      using c by (auto simp: find_policy_def)
    then have "int64 (p_created_at r)" "p_id r = i" using inv sql_row_SomeD [OF r(1)] by (auto simp: int64_policies_def)
    then have fr: "scanPolicy cr (?f r) = as_stored ?w" "p_id r = i"
      by (simp_all add: r(2) scanPolicy_def as_stored_def updated_policy_def)
    define f :: "policy_row \<Rightarrow> policy_row" where "f = ?f"
    have d2: "d' = d\<lparr>db_policies := sql_update (\<lambda>r. p_id r = i) f (db_policies d)\<rparr>" by (simp only: d' f_def)
    have f: "p_id (f x) = p_id x" "p_created_at (f x) = p_created_at x" for x by (simp_all add: f_def)
    have row: "sql_row (\<lambda>r. p_id r = j) (db_policies d') = map_option (\<lambda>r. if p_id r = i then f r else r)
        (sql_row (\<lambda>r. p_id r = j) (db_policies d))" for j
      unfolding d2 by (simp add: sql_row_update_key f)
    have i: "find_policy cr i d' = Some (as_stored ?w)"
      unfolding find_policy_def row r(1) using fr by (simp add: f_def)
    have ni: "find_policy cr j d' = find_policy cr j d" if "j \<noteq> i" for j
    proof (cases "sql_row (\<lambda>r. p_id r = j) (db_policies d)")
      case (Some x)
      then have "p_id x \<noteq> i" using sql_row_SomeD [OF Some] that by simp
      then show ?thesis unfolding find_policy_def row Some by simp
    qed (simp add: find_policy_def row)
    have keys: "keyed p_id (db_policies d')" "\<forall>r \<in> set (db_policies d'). int64 (p_created_at r)"
      using inv unfolding d2 int64_policies_def by (auto simp: set_sql_update f keyed_update)
    then show ?thesis using Some c \<open>w = Some ?w\<close> i ni
      by (simp add: policy_after_def int64_policies_def d2)
  qed
qed

lemma append_payload:
  assumes "append_tx cr io s ev d = Inr (ev', d')"
  shows "\<exists>row. db_audit d' = db_audit d @ [row] \<and> a_kind row = ev_kind ev \<and> a_actor row = ev_actor ev
     \<and> a_subject row = ev_subject ev \<and> a_decision row = ev_decision ev
     \<and> a_payload row = (case ev_payload ev of None \<Rightarrow> ''{}'' | Some p \<Rightarrow> p)"
  using appendAuditTx_effect [OF assms [unfolded append_tx_def]]
  by (auto simp: stored_row_def event_row_def appended_event_def Let_def payload_bytes_def)

definition records :: "audit_event \<Rightarrow> audit_row \<Rightarrow> bool" where
  "records ev row \<longleftrightarrow> a_kind row = ev_kind ev \<and> a_actor row = ev_actor ev \<and> a_subject row = ev_subject ev
     \<and> a_decision row = ev_decision ev \<and> a_payload row = (case ev_payload ev of None \<Rightarrow> ''{}'' | Some p \<Rightarrow> p)"

lemma change_policy_Inr:
  assumes tx: "change_policy_tx cr io s i change d = Inr (x, d')" and inv: "int64_policies d"
  shows "\<exists>nxt ev row. change (find_policy cr i d) = Inr (nxt, ev) \<and> ev_kind ev \<noteq> []
      \<and> fst x = policy_after cr io i (find_policy cr i d) nxt
      \<and> db_audit d' = db_audit d @ [row] \<and> records ev row \<and> int64_policies d' \<and> org_tables d' = org_tables d
      \<and> (\<forall>j. find_policy cr j d' = (if j = i then map_option as_stored (fst x) else find_policy cr j d))"
proof -
  obtain nxt ev w ev' d1 where ch: "change (find_policy cr i d) = Inr (nxt, ev)" "ev_kind ev \<noteq> []"
    and w: "write_policy cr io i (find_policy cr i d) nxt d = Inr (w, d1)"
    and app: "append_tx cr io s ev d1 = Inr (ev', d')" and x: "x = (w, ev')"
    using tx by (auto simp: change_policy_tx_def tx_simps split: sum.splits if_splits)
  note wr = write_policy_Inr [OF w inv]
  obtain row where row: "db_audit d' = db_audit d1 @ [row]" "records ev row"
    using append_payload [OF app] by (auto simp: records_def)
  obtain ps where "d1 = d\<lparr>db_policies := ps\<rparr>" using wr by blast
  then have d1: "db_audit d1 = db_audit d" "org_tables d1 = org_tables d" by (simp_all add: org_tables_def)
  have p: "db_policies d' = db_policies d1" using tx_fixesD [OF append_tx_frame(2) app] .
  then have "find_policy cr j d' = find_policy cr j d1" "int64_policies d' = int64_policies d1" for j
    by (simp_all add: find_policy_def int64_policies_def)
  moreover have "org_tables d' = org_tables d" using tx_fixesD [OF append_tx_frame(1) app] d1 by simp
  ultimately show ?thesis using ch wr row d1 x by auto
qed

text \<open>
  C17. A policy change and its audit row commit together or not at all, whatever the database
  does: after the call either nothing has changed, or the log is one row longer,
  that row records the event the change asked for, and the stored policies differ only in
  the one the change wrote.  A success means the latter, and an error means the
  former unless the answer to the commit was lost.
\<close>
theorem change_policy_together:
  assumes inv: "int64_policies (st_db s)" and run: "ChangePolicy cr io i change s = (r, s')"
  shows "s' = s \<and> (\<exists>e. r = Inl e)
    \<or> (\<forall>e. r = Inl e \<longrightarrow> io_commit io = CommitLost)
      \<and> (\<exists>nxt ev row. change (find_policy cr i (st_db s)) = Inr (nxt, ev)
          \<and> db_audit (st_db s') = db_audit (st_db s) @ [row] \<and> records ev row
          \<and> (\<forall>j. find_policy cr j (st_db s') =
                (if j = i then map_option as_stored (policy_after cr io i (find_policy cr i (st_db s)) nxt)
                 else find_policy cr j (st_db s))))"
proof (cases "s' = s")
  case True
  have "db_audit (st_db s') = db_audit (st_db s) @ [row] \<Longrightarrow> False" for row using True by simp
  moreover have "r = Inr y \<Longrightarrow> \<exists>x. change_policy_tx cr io s i change (st_db s) = Inr (x, st_db s')" for y
    using run by (auto simp: ChangePolicy_def run_tx_def split: if_splits sum.splits commit_outcome.splits)
  ultimately show ?thesis using True change_policy_Inr [OF _ inv] by (cases r) blast+
next
  case False
  with cp.ends [OF run] obtain x where tx: "change_policy_tx cr io s i change (st_db s) = Inr (x, st_db s')"
    and lost: "\<forall>e. r = Inl e \<longrightarrow> io_commit io = CommitLost" by blast
  from change_policy_Inr [OF tx inv] lost show ?thesis by metis
qed

section \<open>The stored policies match the chain\<close>

definition policy_events :: "db \<Rightarrow> audit_event list" where
  "policy_events d = map scan_event (sort_key a_seq (filter policy_audit_row (db_audit d)))"

definition recorded_digest :: "(string \<times> string) list \<Rightarrow> string \<Rightarrow> string" where
  "recorded_digest rec i = (case map_of rec i of None \<Rightarrow> [] | Some dg \<Rightarrow> dg)"

definition stored_digest :: "crypto \<Rightarrow> db \<Rightarrow> string \<Rightarrow> string" where
  "stored_digest cr d i = (case find_policy cr i d of None \<Rightarrow> [] | Some p \<Rightarrow> pol_digest p)"

definition policies_match :: "crypto \<Rightarrow> db \<Rightarrow> bool" where
  "policies_match cr d \<longleftrightarrow>
     (\<exists>rec. collect_digests (\<lambda>_. True) (policy_events d) [] = Inr rec \<and> recorded_digest rec = stored_digest cr d)"

lemma collect_digests_snoc:
  "collect_digests ok (evs @ [e]) out =
     (case collect_digests ok evs out of
        Inl x \<Rightarrow> Inl x
      | Inr rec \<Rightarrow> collect_digests ok [e] rec)"
  by (induction evs arbitrary: out) (auto split: option.splits)

lemma sorted_filter_snoc:
  assumes "sorted_wrt (<) (map a_seq (t @ [row]))"
  shows "sort_key a_seq (filter P (t @ [row])) = sort_key a_seq (filter P t) @ (if P row then [row] else [])"
proof -
  have "sorted (map a_seq (filter P t))" "sorted (map a_seq (filter P (t @ [row])))"
    using assms sorted_wrt_mono_rel [of "map a_seq (t @ [row])" "(<)" "(\<le>)"]
    by (auto simp: sorted_append intro!: sorted_filter)
  then show ?thesis by (simp add: sort_key_id_if_sorted)
qed

lemma policy_events_snoc:
  assumes "audit_inv cr kr d'" "db_audit d' = db_audit d @ [row]"
  shows "policy_events d' = policy_events d @ (if policy_audit_row row then [scan_event row] else [])"
  using assms sorted_filter_snoc [of "db_audit d" row policy_audit_row]
  by (simp add: policy_events_def audit_inv_def)

text \<open>An event of another kind leaves the match, a policy change with the right digest moves it on.\<close>

lemma policies_match_other:
  assumes m: "policies_match cr d" and inv: "audit_inv cr' kr d'" and row: "db_audit d' = db_audit d @ [row]"
    and other: "\<not> policy_audit_row row" and p: "db_policies d' = db_policies d"
  shows "policies_match cr d'"
proof -
  have "policy_events d' = policy_events d" using policy_events_snoc [OF inv row] other by simp
  moreover have "stored_digest cr d' = stored_digest cr d" by (simp add: stored_digest_def find_policy_def p fun_eq_iff)
  ultimately show ?thesis using m by (simp add: policies_match_def)
qed

definition digest_of_change :: "crypto \<Rightarrow> policy option \<Rightarrow> string" where
  "digest_of_change cr nxt = (case nxt of None \<Rightarrow> [] | Some n \<Rightarrow> PolicyDigest cr (pol_text n))"

text \<open>What the policy API makes sure of: the event of a change carries the digest it leaves.\<close>

definition honest_change :: "crypto \<Rightarrow> string \<Rightarrow> policy_change \<Rightarrow> bool" where
  "honest_change cr i change \<longleftrightarrow>
     (\<forall>cur nxt ev. change cur = Inr (nxt, ev) \<longrightarrow>
        policy_kind (ev_kind ev) \<and> ev_decision ev = ''ok'' \<and> ev_subject ev = i
        \<and> (\<exists>p. ev_payload ev = Some p \<and> unmarshal_string_field ''new_digest'' p = Some (digest_of_change cr nxt)))"

lemma policies_match_change:
  assumes m: "policies_match cr d" and inv: "audit_inv cr' kr d'" and row: "db_audit d' = db_audit d @ [row]"
    and rec: "records ev row" and ch: "change cur = Inr (nxt, ev)" "honest_change cr i change"
    and after: "\<And>j. find_policy cr j d' = (if j = i then map_option as_stored (policy_after cr io i cur nxt) else find_policy cr j d)"
  shows "policies_match cr d'"
proof -
  from m obtain rc where rc: "collect_digests (\<lambda>_. True) (policy_events d) [] = Inr rc"
    and dig: "recorded_digest rc = stored_digest cr d" by (auto simp: policies_match_def)
  from ch obtain p where ev: "policy_kind (ev_kind ev)" "ev_decision ev = ''ok''" "ev_subject ev = i"
    "ev_payload ev = Some p" "unmarshal_string_field ''new_digest'' p = Some (digest_of_change cr nxt)"
    unfolding honest_change_def by blast
  have evs: "policy_events d' = policy_events d @ [scan_event row]"
    using policy_events_snoc [OF inv row] rec ev by (simp add: policy_audit_row_def records_def)
  have "payload_bytes (scan_event row) = p" "ev_subject (scan_event row) = i"
    using rec ev by (simp_all add: records_def payload_bytes_def scan_event_def)
  then have rc': "collect_digests (\<lambda>_. True) (policy_events d') [] = Inr (AList.update i (digest_of_change cr nxt) rc)"
    by (simp add: evs collect_digests_snoc rc ev(5))
  have "stored_digest cr d' j = (if j = i then digest_of_change cr nxt else stored_digest cr d j)" for j
    by (auto simp: stored_digest_def after digest_of_change_def policy_after_def as_stored_def created_policy_def
        updated_policy_def split: option.splits)
  moreover have "recorded_digest (AList.update i (digest_of_change cr nxt) rc) j =
      (if j = i then digest_of_change cr nxt else recorded_digest rc j)" for j
    by (simp add: recorded_digest_def update_conv)
  ultimately have "recorded_digest (AList.update i (digest_of_change cr nxt) rc) = stored_digest cr d'"
    using dig by (simp add: fun_eq_iff)
  with rc' show ?thesis by (simp add: policies_match_def)
qed

definition demo_change :: policy_change where
  "demo_change cur = Inr (Some (created_policy demo_crypto (demo_io 5) ''p1'' \<lparr>pol_id = [], pol_text = ''permit'', pol_version = 0,
     pol_digest = [], pol_created_by = [], pol_created_at = 0, pol_updated_by = ''root'', pol_updated_at = 0\<rparr>),
     new_event ''policy.create'' ''root'' ''p1'' ''ok'' None)"

theorem change_policy_together_witness:
  "\<exists>r s'. ChangePolicy demo_crypto (demo_io 9) ''p1'' demo_change demo_empty = (r, s')
     \<and> int64_policies (st_db demo_empty)
     \<and> (s' = demo_empty \<and> (\<exists>e. r = Inl e)
        \<or> (\<forall>e. r = Inl e \<longrightarrow> io_commit (demo_io 9) = CommitLost)
          \<and> (\<exists>nxt ev row. demo_change (find_policy demo_crypto ''p1'' (st_db demo_empty)) = Inr (nxt, ev)
              \<and> db_audit (st_db s') = db_audit (st_db demo_empty) @ [row] \<and> records ev row
              \<and> (\<forall>j. find_policy demo_crypto j (st_db s') =
                    (if j = ''p1'' then map_option as_stored (policy_after demo_crypto (demo_io 9) ''p1''
                         (find_policy demo_crypto ''p1'' (st_db demo_empty)) nxt)
                     else find_policy demo_crypto j (st_db demo_empty)))))"
proof -
  obtain r s' where run: "ChangePolicy demo_crypto (demo_io 9) ''p1'' demo_change demo_empty = (r, s')" by fastforce
  have inv: "int64_policies (st_db demo_empty)"
    by (simp add: demo_empty_def UseAuditKeyring_def open_store_def empty_db_def int64_policies_def)
  show ?thesis
    by (rule exI [of _ r], rule exI [of _ s'], intro conjI run inv change_policy_together [OF inv run])
qed


lemma collect_digests_ok:
  "\<forall>e \<in> set evs. ok e \<Longrightarrow> collect_digests ok evs out = collect_digests (\<lambda>_. True) evs out"
  by (induction evs arbitrary: out) (auto split: option.splits)

lemma clean_row_checks:
  assumes "is_unkeyed (ev_key_id e) \<longrightarrow> \<not> (he \<and> kf \<le> ev_seq e)"
      and "case resolve_key (Some (kr_keys kr)) (ev_key_id e) of None \<Rightarrow> False
         | Some key \<Rightarrow> hex_decode (ev_hash e) = Some (macAuditEvent cr e key)"
  shows "checkAuditRowMAC cr e (Snapshot kr) he kf"
proof (cases "is_unkeyed (ev_key_id e)")
  case True
  then show ?thesis using assms(1) by (simp add: checkAuditRowMAC_def)
next
  case False
  then show ?thesis using assms(2) by (simp add: checkAuditRowMAC_def resolve_key_def Snapshot_def)
qed

text \<open>In a store that satisfies the audit invariant every policy row verifies.\<close>

lemma policy_digests_read:
  assumes inv: "audit_inv cr (st_keyring s) (st_db s)"
    and io: "\<not> io_fails io ''audit: read keying epoch''" "\<not> io_fails io ''query policy audit''"
  shows "PolicyAuditDigests cr io s = collect_digests (\<lambda>_. True) (policy_events (st_db s)) []"
proof (cases "st_keyring s")
  case None
  then show ?thesis using io by (simp add: PolicyAuditDigests_def run_query_def policy_events_def)
next
  case (Some kr)
  define kf where "kf = (case audit_epoch (st_db s) of None \<Rightarrow> 0 | Some v \<Rightarrow> v)"
  define he where "he = (audit_epoch (st_db s) \<noteq> None)"
  have ep: "auditKeyedFromSeq io s = Inr (kf, he)"
    using io by (auto simp: auditKeyedFromSeq_def run_query_def kf_def he_def audit_epoch_def split: option.splits)
  have "checkAuditRowMAC cr e (Snapshot kr) he kf" if "e \<in> set (policy_events (st_db s))" for e
  proof -
    have e: "e \<in> set (audit_walk (st_db s))" using that by (auto simp: policy_events_def audit_walk_def)
    have "chain_clean cr (keys_of (Some kr)) kf he False genesisHash (audit_walk (st_db s))"
      using inv by (simp add: audit_inv_def audit_clean_def Some kf_def he_def)
    from chain_clean_row [OF this e] obtain sk p where "row_clean cr (keys_of (Some kr)) kf he sk p e" by blast
    then have "is_unkeyed (ev_key_id e) \<longrightarrow> \<not> (he \<and> kf \<le> ev_seq e)"
      and "case resolve_key (Some (kr_keys kr)) (ev_key_id e) of None \<Rightarrow> False
         | Some key \<Rightarrow> hex_decode (ev_hash e) = Some (macAuditEvent cr e key)"
      by (simp_all add: row_clean_def keys_of_def)
    then show ?thesis by (rule clean_row_checks)
  qed
  then have "collect_digests (\<lambda>ev. checkAuditRowMAC cr ev (Snapshot kr) he kf) (policy_events (st_db s)) [] =
      collect_digests (\<lambda>_. True) (policy_events (st_db s)) []"
    by (intro collect_digests_ok) blast
  then show ?thesis
    using io Some ep by (simp add: PolicyAuditDigests_def run_query_def policy_events_def)
qed

text \<open>
  Each recorded digest comes from a row of the log that passed the check, whatever the database holds.
\<close>

lemma collect_digests_source:
  "collect_digests ok evs out = Inr rec \<Longrightarrow> map_of rec i = Some dg \<Longrightarrow> map_of out i \<noteq> Some dg \<Longrightarrow>
     \<exists>e \<in> set evs. ok e \<and> ev_subject e = i \<and> unmarshal_string_field ''new_digest'' (payload_bytes e) = Some dg"
proof (induction evs arbitrary: out)
  case (Cons e evs)
  then obtain dg' where ok: "ok e" and dg': "unmarshal_string_field ''new_digest'' (payload_bytes e) = Some dg'"
    and rest: "collect_digests ok evs (AList.update (ev_subject e) dg' out) = Inr rec"
    by (auto split: if_splits option.splits)
  show ?case
  proof (cases "ev_subject e = i \<and> dg' = dg")
    case True
    with ok dg' show ?thesis by auto
  next
    case False
    then have "map_of (AList.update (ev_subject e) dg' out) i \<noteq> Some dg" using Cons.prems(3) by (auto simp: update_conv)
    with Cons.IH [OF rest Cons.prems(2)] show ?thesis by auto
  qed
qed simp

end
