(* ===== verification/UpstreamStore.thy ===== *)
theory UpstreamStore
  imports AuditAppend
begin

text \<open>
  The CAs of external issuers and the SPIFFE bundle sequence,
  \<^verbatim>\<open>internal/server/storage/upstream_ca.go\<close>.  A stored CA becomes a trust anchor, so
  each row carries a MAC under the audit keyring over length-prefixed fields.
\<close>

section \<open>Rows and their MACs\<close>

record upstream_ca =
  uc_der :: bytes
  uc_kept_at :: gotime
  uc_kept_until :: gotime
  uc_saved_at :: gotime

definition Fingerprint :: "crypto \<Rightarrow> upstream_ca \<Rightarrow> string" where
  "Fingerprint cr c = hex_encode (sha256 cr (uc_der c))"

text \<open>What is written into the HMAC: a label and the fields, each after its length.\<close>

definition mac_field :: "bytes \<Rightarrow> bytes" where
  "mac_field f = itoa (int (length f)) @ '':'' @ f"

definition ca_mac_input :: "string \<Rightarrow> string \<Rightarrow> bytes \<Rightarrow> int \<Rightarrow> int \<Rightarrow> int \<Rightarrow> bytes" where
  "ca_mac_input td backend der keptAt until savedAt =
     ''omega-upstream-ca-v1'' @ concat (map mac_field [td, backend, der, itoa keptAt, itoa until, itoa savedAt])"

definition upstreamCAMAC :: "crypto \<Rightarrow> bytes \<Rightarrow> string \<Rightarrow> string \<Rightarrow> bytes \<Rightarrow> int \<Rightarrow> int \<Rightarrow> int \<Rightarrow> string" where
  "upstreamCAMAC cr secret td backend der keptAt until savedAt =
     hex_encode (hmac_sha256 cr secret (ca_mac_input td backend der keptAt until savedAt))"

section \<open>Reading and replacing the set\<close>

definition ca_time :: "int \<Rightarrow> gotime" where
  "ca_time n = (if n \<noteq> 0 then n else zero_time)"

definition ca_row_verifies :: "crypto \<Rightarrow> audit_keyring \<Rightarrow> string \<Rightarrow> string \<Rightarrow> ca_row \<Rightarrow> bool" where
  "ca_row_verifies cr kr td backend r =
     (case lookup_key kr (c_key_id r) of
        None \<Rightarrow> False
      | Some secret \<Rightarrow>
          c_mac r = upstreamCAMAC cr secret td backend (c_der r) (c_kept_at r) (c_kept_until r) (c_saved_at r))"

definition scan_ca :: "ca_row \<Rightarrow> upstream_ca" where
  "scan_ca r = \<lparr>uc_der = c_der r, uc_kept_at = ca_time (c_kept_at r), uc_kept_until = ca_time (c_kept_until r),
     uc_saved_at = c_saved_at r\<rparr>"

definition UpstreamCAs :: "crypto \<Rightarrow> io \<Rightarrow> string \<Rightarrow> string \<Rightarrow> store \<Rightarrow> err + upstream_ca list" where
  "UpstreamCAs cr io td backend s =
     (case st_keyring s of
        None \<Rightarrow> Inr []
      | Some kr \<Rightarrow>
          run_query io ''query upstream cas'' (\<lambda>d.
            map scan_ca (filter (ca_row_verifies cr kr td backend)
              (sort_key c_fingerprint (filter (\<lambda>r. c_trust_domain r = td \<and> c_backend r = backend) (db_cas d))))) s)"

definition ca_row_of :: "crypto \<Rightarrow> string \<Rightarrow> bytes \<Rightarrow> string \<Rightarrow> string \<Rightarrow> int \<Rightarrow> upstream_ca \<Rightarrow> ca_row" where
  "ca_row_of cr keyID secret td backend savedAt c =
     (let keptAt = (if is_zero_time (uc_kept_until c) then 0 else unix_nano (uc_kept_at c));
          until = (if is_zero_time (uc_kept_until c) then 0 else unix_nano (uc_kept_until c)) in
      \<lparr>c_trust_domain = td, c_backend = backend, c_fingerprint = Fingerprint cr c, c_der = uc_der c,
       c_kept_at = keptAt, c_kept_until = until, c_saved_at = savedAt, c_key_id = keyID,
       c_mac = upstreamCAMAC cr secret td backend (uc_der c) keptAt until savedAt\<rparr>)"

fun insert_cas :: "io \<Rightarrow> (upstream_ca \<Rightarrow> ca_row) \<Rightarrow> upstream_ca list \<Rightarrow> unit tx" where
  "insert_cas io row [] = tx_return ()"
| "insert_cas io row (c # cs) =
     (if uc_der c = [] then tx_fail (ErrInvalid ''upstream ca has no certificate'')
      else tx_bind (tx_stmt io ''insert upstream ca'' (\<lambda>d.
             case sql_insert ca_key (row c) (db_cas d) of
               None \<Rightarrow> Inl (ErrDB ''insert upstream ca'')
             | Some t \<Rightarrow> Inr ((), d\<lparr>db_cas := t\<rparr>))) (\<lambda>_.
           insert_cas io row cs))"

definition replace_cas_tx :: "crypto \<Rightarrow> io \<Rightarrow> audit_keyring \<Rightarrow> string \<Rightarrow> string \<Rightarrow> upstream_ca list \<Rightarrow> unit tx" where
  "replace_cas_tx cr io kr td backend cas =
     (let (keyID, secret) = active_key kr in
      tx_bind (tx_exec io ''clear upstream cas'' (\<lambda>d.
        d\<lparr>db_cas := sql_delete (\<lambda>r. c_trust_domain r = td \<and> c_backend r = backend) (db_cas d)\<rparr>)) (\<lambda>_.
      insert_cas io (ca_row_of cr keyID secret td backend (unix_nano (io_now io))) cas))"

definition ReplaceUpstreamCAs ::
  "crypto \<Rightarrow> io \<Rightarrow> string \<Rightarrow> string \<Rightarrow> upstream_ca list \<Rightarrow> store \<Rightarrow> (err + unit) \<times> store" where
  "ReplaceUpstreamCAs cr io td backend cas s =
     (if \<not> IsLeader s then (Inl ErrNotLeader, s)
      else (case st_keyring s of
              None \<Rightarrow> (Inl ErrNoUpstreamCAKey, s)
            | Some kr \<Rightarrow> run_tx io (replace_cas_tx cr io kr td backend cas) s))"

section \<open>The bundle sequence\<close>

definition LoadBundleSequence :: "io \<Rightarrow> string \<Rightarrow> store \<Rightarrow> err + (int \<times> string)" where
  "LoadBundleSequence io td s =
     run_query io ''query bundle sequence'' (\<lambda>d.
       case sql_row (\<lambda>r. b_trust_domain r = td) (db_bundle_seq d) of
         None \<Rightarrow> (0, []) | Some r \<Rightarrow> (b_seq r, b_digest r)) s"

text \<open>The upsert with its WHERE clause: a row with as high a sequence stays as it is.\<close>

definition save_seq :: "string \<Rightarrow> int \<Rightarrow> string \<Rightarrow> int \<Rightarrow> db \<Rightarrow> db" where
  "save_seq td seq digest now d =
     d\<lparr>db_bundle_seq := sql_upsert b_trust_domain
         \<lparr>b_trust_domain = td, b_seq = seq, b_digest = digest, b_updated_at = now\<rparr>
         (\<lambda>r. if b_seq r < seq then r\<lparr>b_seq := seq, b_digest := digest, b_updated_at := now\<rparr> else r)
         (db_bundle_seq d)\<rparr>"

definition SaveBundleSequence :: "io \<Rightarrow> string \<Rightarrow> int \<Rightarrow> string \<Rightarrow> store \<Rightarrow> (err + unit) \<times> store" where
  "SaveBundleSequence io td seq digest s =
     (if \<not> IsLeader s then (Inl ErrNotLeader, s)
      else run_exec io ''save bundle sequence'' (\<lambda>d. ((), save_seq td seq digest (unix_nano (io_now io)) d)) s)"

section \<open>The writes of the store\<close>

interpretation ru: db_write "\<lambda>io. ReplaceUpstreamCAs cr io td backend cas"
  "\<lambda>io s. replace_cas_tx cr io (the (st_keyring s)) td backend cas" for cr td backend cas
  by unfold_locales (auto simp: ReplaceUpstreamCAs_def split: if_splits option.splits dest: run_tx_write)

interpretation sbs: db_write "\<lambda>io. SaveBundleSequence io td seq digest"
  "\<lambda>io s d. Inr ((), save_seq td seq digest (unix_nano (io_now io)) d)" for td seq digest
  by unfold_locales (auto simp: SaveBundleSequence_def run_exec_def split: if_splits)

section \<open>The MAC covers every field\<close>

lemma mac_field_cancel: "mac_field f @ r = mac_field f' @ r' \<Longrightarrow> f = f' \<and> r = r'"
proof -
  assume eq: "mac_field f @ r = mac_field f' @ r'"
  then have "itoa (int (length f)) @ CHR '':'' # (f @ r) = itoa (int (length f')) @ CHR '':'' # (f' @ r')"
    by (simp add: mac_field_def)
  from first_sep_unique [OF this colon_notin_itoa colon_notin_itoa]
  have "length f = length f'" "f @ r = f' @ r'" by simp_all
  then show ?thesis by simp
qed

lemma mac_field_inject: "mac_field f = mac_field f' \<longleftrightarrow> f = f'"
  using mac_field_cancel [of f "[]" f' "[]"] by auto

lemma ca_mac_input_fields:
  assumes "ca_mac_input td backend der keptAt until savedAt = ca_mac_input td' backend' der' keptAt' until' savedAt'"
  shows "td = td' \<and> backend = backend' \<and> der = der' \<and> keptAt = keptAt' \<and> until = until' \<and> savedAt = savedAt'"
proof -
  have "mac_field td @ mac_field backend @ mac_field der @ mac_field (itoa keptAt) @ mac_field (itoa until) @ mac_field (itoa savedAt) =
        mac_field td' @ mac_field backend' @ mac_field der' @ mac_field (itoa keptAt') @ mac_field (itoa until') @ mac_field (itoa savedAt')"
    using assms by (simp add: ca_mac_input_def)
  then show ?thesis by (auto simp: mac_field_inject itoa_inject dest!: mac_field_cancel)
qed

section \<open>The stored sequence only moves forward\<close>

definition stored_seq :: "string \<Rightarrow> db \<Rightarrow> int" where
  "stored_seq td d = (case sql_row (\<lambda>r. b_trust_domain r = td) (db_bundle_seq d) of None \<Rightarrow> 0 | Some r \<Rightarrow> b_seq r)"

lemma sql_row_upsert_key:
  assumes "\<And>x. key (f x) = key x"
  shows "sql_row (\<lambda>x. key x = j) (sql_upsert key r f t) =
    (if j = key r then Some (case sql_row (\<lambda>x. key x = j) t of None \<Rightarrow> r | Some x \<Rightarrow> f x)
     else sql_row (\<lambda>x. key x = j) t)"
proof (cases "key r \<in> key ` set t")
  case True
  then obtain x where x: "sql_row (\<lambda>x. key x = key r) t = Some x"
    using sql_row_None [of "\<lambda>x. key x = key r" t] by fastforce
  have "sql_upsert key r f t = sql_update (\<lambda>x. key x = key r) f t"
    using True by (simp add: sql_upsert_def sql_update_def)
  moreover have "key y = j" if "sql_row (\<lambda>x. key x = j) t = Some y" for y using sql_row_SomeD [OF that] by simp
  ultimately show ?thesis using x by (cases "sql_row (\<lambda>x. key x = j) t") (auto simp: sql_row_update_key assms)
next
  case False
  then have n: "sql_row (\<lambda>x. key x = key r) t = None" unfolding sql_row_None by (metis imageI)
  have "sql_upsert key r f t = t @ [r]" using False by (simp add: sql_upsert_def)
  with n show ?thesis by (auto simp: sql_row_snoc split: option.splits)
qed

lemma save_seq_row:
  "sql_row (\<lambda>r. b_trust_domain r = td') (db_bundle_seq (save_seq td seq dg now d)) =
    (if td' = td then Some (case sql_row (\<lambda>r. b_trust_domain r = td) (db_bundle_seq d) of
        None \<Rightarrow> \<lparr>b_trust_domain = td, b_seq = seq, b_digest = dg, b_updated_at = now\<rparr>
      | Some r \<Rightarrow> if b_seq r < seq then r\<lparr>b_seq := seq, b_digest := dg, b_updated_at := now\<rparr> else r)
     else sql_row (\<lambda>r. b_trust_domain r = td') (db_bundle_seq d))"
  by (simp add: save_seq_def sql_row_upsert_key)

lemma save_seq_mono: "stored_seq td' d \<le> stored_seq td' (save_seq td seq digest now d)" if "0 \<le> seq"
  using that by (auto simp: stored_seq_def save_seq_row split: option.splits)

section \<open>A replaced set is what every replica reads\<close>

text \<open>What is left of a CA after a write and a read: the times a row holds.\<close>

definition ca_as_stored :: "int \<Rightarrow> upstream_ca \<Rightarrow> upstream_ca" where
  "ca_as_stored savedAt c =
     \<lparr>uc_der = uc_der c,
      uc_kept_at = (if is_zero_time (uc_kept_until c) then zero_time else ca_time (unix_nano (uc_kept_at c))),
      uc_kept_until = (if is_zero_time (uc_kept_until c) then zero_time else ca_time (unix_nano (uc_kept_until c))),
      uc_saved_at = savedAt\<rparr>"

lemma ca_row_of_fields [simp]:
  "c_trust_domain (ca_row_of cr k sec td be t c) = td" "c_backend (ca_row_of cr k sec td be t c) = be"
  "c_fingerprint (ca_row_of cr k sec td be t c) = Fingerprint cr c" "c_key_id (ca_row_of cr k sec td be t c) = k"
  by (simp_all add: ca_row_of_def Let_def)

lemma scan_ca_row_of: "scan_ca (ca_row_of cr k sec td be t c) = ca_as_stored t c"
  by (simp add: scan_ca_def ca_row_of_def ca_as_stored_def Let_def ca_time_def)

lemma ca_row_of_verifies:
  "lookup_key kr k = Some sec \<Longrightarrow> ca_row_verifies cr kr td be (ca_row_of cr k sec td be t c)"
  by (simp add: ca_row_verifies_def ca_row_of_def Let_def)

lemma insert_cas_Inr: "insert_cas io row cs d = Inr (u, d') \<Longrightarrow> db_cas d' = db_cas d @ map row cs"
  by (induction cs arbitrary: d)
    (fastforce simp: tx_simps tx_stmt_def sql_insert_Some split: if_splits option.splits)+

lemma replace_cas_tx_Inr:
  assumes "replace_cas_tx cr io kr td be cas d = Inr (u, d')"
  shows "db_cas d' = sql_delete (\<lambda>r. c_trust_domain r = td \<and> c_backend r = be) (db_cas d) @
    map (ca_row_of cr (fst (active_key kr)) (snd (active_key kr)) td be (unix_nano (io_now io))) cas"
  using assms by (auto simp: replace_cas_tx_def tx_simps tx_exec_def split: prod.splits if_splits dest!: insert_cas_Inr)

lemma sort_key_map_row: "(\<And>x. f (g x) = h x) \<Longrightarrow> sort_key f (map g xs) = map g (sort_key h xs)"
proof (induction xs)
  case (Cons x xs)
  have "insort_key f (g x) (map g ys) = map g (insort_key h x ys)" for ys
    by (induction ys) (auto simp: Cons.prems)
  with Cons show ?case by simp
qed simp

lemma filter_deleted: "filter P (sql_delete P t) = []"
  by (simp add: sql_delete_def filter_empty_conv)

lemma filter_deleted_other: "(\<And>x. Q x \<Longrightarrow> \<not> P x) \<Longrightarrow> filter Q (sql_delete P t) = filter Q t"
  by (induction t) (auto simp: sql_delete_def)

text \<open>
  C19. After a replacement that succeeded, every replica with the same keyring reads
  exactly the CAs that were saved, in fingerprint order and with the times as a row holds
  them; the CAs of any other trust domain or backend are read as before.
\<close>
theorem replaced_cas_read_back:
  assumes "ReplaceUpstreamCAs cr io td backend cas s = (Inr (), s')" and "st_keyring s = Some kr"
    and "keyring_ok kr" and "\<not> io_fails io' ''query upstream cas''"
  shows "UpstreamCAs cr io' td backend s' =
           Inr (map (ca_as_stored (unix_nano (io_now io))) (sort_key (Fingerprint cr) cas))
         \<and> ((td', backend') \<noteq> (td, backend) \<longrightarrow>
            UpstreamCAs cr io' td' backend' s' = UpstreamCAs cr io' td' backend' s)"
proof -
  obtain u where tx: "replace_cas_tx cr io kr td backend cas (st_db s) = Inr (u, st_db s')" and kr: "st_keyring s' = Some kr"
    using assms(1,2) by (auto simp: ReplaceUpstreamCAs_def run_tx_Inr split: if_splits)
  define row where "row = ca_row_of cr (fst (active_key kr)) (snd (active_key kr)) td backend (unix_nano (io_now io))"
  have cas: "db_cas (st_db s') =
      sql_delete (\<lambda>r. c_trust_domain r = td \<and> c_backend r = backend) (db_cas (st_db s)) @ map row cas"
    using replace_cas_tx_Inr [OF tx] by (simp add: row_def)
  have lk: "lookup_key kr (fst (active_key kr)) = Some (snd (active_key kr))"
    using keyring_ok_active [OF assms(3)] by (simp add: lookup_key_def)
  have row: "c_trust_domain (row c) = td" "c_backend (row c) = backend" "c_fingerprint (row c) = Fingerprint cr c"
    "ca_row_verifies cr kr td backend (row c)" "scan_ca (row c) = ca_as_stored (unix_nano (io_now io)) c" for c
    using lk by (simp_all add: row_def ca_row_of_verifies scan_ca_row_of)
  have "filter (\<lambda>r. c_trust_domain r = td \<and> c_backend r = backend) (db_cas (st_db s')) = map row cas"
    by (simp add: cas filter_deleted row comp_def)
  moreover have "sort_key c_fingerprint (map row cas) = map row (sort_key (Fingerprint cr) cas)"
    by (rule sort_key_map_row) (simp add: row)
  ultimately have "UpstreamCAs cr io' td backend s' =
      Inr (map (ca_as_stored (unix_nano (io_now io))) (sort_key (Fingerprint cr) cas))"
    using assms(4) by (simp add: UpstreamCAs_def kr run_query_def row comp_def)
  moreover have "filter (\<lambda>r. c_trust_domain r = td' \<and> c_backend r = backend') (db_cas (st_db s')) =
      filter (\<lambda>r. c_trust_domain r = td' \<and> c_backend r = backend') (db_cas (st_db s))"
    if "(td', backend') \<noteq> (td, backend)"
    using that by (auto simp: cas row filter_empty_conv intro!: filter_deleted_other)
  ultimately show ?thesis using assms(2,4) by (simp add: UpstreamCAs_def kr run_query_def)
qed

definition joined_crypto :: crypto where
  "joined_crypto = \<lparr>sha256 = (\<lambda>m. take 4 m), hmac_sha256 = (\<lambda>k m. k @ m)\<rparr>"

definition demo_ca :: upstream_ca where
  "demo_ca = \<lparr>uc_der = ''cert'', uc_kept_at = zero_time, uc_kept_until = zero_time, uc_saved_at = zero_time\<rparr>"

definition demo_ca_row :: ca_row where
  "demo_ca_row = ca_row_of joined_crypto ''k1'' ''0123456789abcdef'' ''t'' ''step'' 7 demo_ca"

definition demo_ca_store :: store where
  "demo_ca_store = UseAuditKeyring (Some demo_keyring)
     (open_store ''omega.db'' (empty_db\<lparr>db_cas := [demo_ca_row, demo_ca_row\<lparr>c_backend := ''vault''\<rparr>]\<rparr>))"

theorem replaced_cas_read_back_witness:
  "fst (ReplaceUpstreamCAs joined_crypto (demo_io 9) ''t'' ''step'' [demo_ca] demo_ca_store) = Inr ()
   \<and> UpstreamCAs joined_crypto (demo_io 9) ''t'' ''step''
        (snd (ReplaceUpstreamCAs joined_crypto (demo_io 9) ''t'' ''step'' [demo_ca] demo_ca_store)) =
        Inr (map (ca_as_stored 9) (sort_key (Fingerprint joined_crypto) [demo_ca]))"
proof -
  let ?r = "ReplaceUpstreamCAs joined_crypto (demo_io 9) ''t'' ''step'' [demo_ca] demo_ca_store"
  have kr: "st_keyring demo_ca_store = Some demo_keyring" and lead: "IsLeader demo_ca_store"
    and rows: "db_cas (st_db demo_ca_store) = [demo_ca_row, demo_ca_row\<lparr>c_backend := ''vault''\<rparr>]"
    by (simp_all add: demo_ca_store_def UseAuditKeyring_def open_store_def IsLeader_def)
  have k: "keyring_ok demo_keyring" by code_simp
  have now: "unix_nano (io_now (demo_io 9)) = 9" by code_simp
  have ok: "fst ?r = Inr ()"
    by (simp add: ReplaceUpstreamCAs_def lead kr run_tx_def demo_io_def replace_cas_tx_def tx_bind_def tx_exec_def tx_stmt_def
        tx_return_def sql_delete_def sql_insert_def ca_key_def rows demo_ca_row_def demo_ca_def split: prod.splits)
  have r: "?r = (Inr (), snd ?r)" using ok by (metis prod.collapse)
  have "\<not> io_fails (demo_io 9) ''query upstream cas''" by (simp add: demo_io_def)
  from conjunct1 [OF replaced_cas_read_back [OF r kr k this]] ok show ?thesis by (simp only: now simp_thms)
qed

section \<open>A stored row cannot be forged\<close>

text \<open>
  The MACs Omega makes for CAs: one per CA of every call of \<^verbatim>\<open>ReplaceUpstreamCAs\<close>, under the
  active secret at the time of the call.  A call is given by the keyring, the clock, the trust
  domain, the backend and the CAs.
\<close>

type_synonym ca_call = "audit_keyring \<times> io \<times> string \<times> string \<times> upstream_ca list"

definition call_rows :: "crypto \<Rightarrow> ca_call \<Rightarrow> ca_row list" where
  "call_rows cr = (\<lambda>(kr, io, td, backend, cas).
     map (ca_row_of cr (fst (active_key kr)) (snd (active_key kr)) td backend (unix_nano (io_now io))) cas)"

definition row_mac_input :: "string \<Rightarrow> string \<Rightarrow> ca_row \<Rightarrow> bytes" where
  "row_mac_input td backend r = ca_mac_input td backend (c_der r) (c_kept_at r) (c_kept_until r) (c_saved_at r)"

definition macs_made :: "crypto \<Rightarrow> ca_call list \<Rightarrow> (bytes \<times> bytes) set" where
  "macs_made cr calls =
     {(snd (active_key kr), row_mac_input td backend r) | kr io td backend cas r.
        (kr, io, td, backend, cas) \<in> set calls \<and> r \<in> set (call_rows cr (kr, io, td, backend, cas))}"

text \<open>Those are the rows the calls insert.\<close>

lemma ReplaceUpstreamCAs_rows:
  assumes "ReplaceUpstreamCAs cr io td backend cas s = (Inr u, s')" "st_keyring s = Some kr"
  shows "set (db_cas (st_db s')) \<subseteq> set (db_cas (st_db s)) \<union> set (call_rows cr (kr, io, td, backend, cas))"
proof -
  obtain u where "replace_cas_tx cr io kr td backend cas (st_db s) = Inr (u, st_db s')"
    using assms by (auto simp: ReplaceUpstreamCAs_def run_tx_Inr split: if_splits)
  from replace_cas_tx_Inr [OF this] show ?thesis by (auto simp: call_rows_def sql_delete_def)
qed

text \<open>The input of a CA's MAC is never one of the audit log, which is made under the same keys.\<close>

lemma itoa_no_letter: "CHR ''o'' \<notin> set (itoa n)"
  by (auto simp: itoa_def dest: dec_nat_digits)

lemma ca_mac_input_not_audit: "ca_mac_input td backend der keptAt until savedAt \<noteq> mac_input ev key"
proof
  assume eq: "ca_mac_input td backend der keptAt until savedAt = mac_input ev key"
  have "hd (itoa (ev_seq ev) @ ''|'' @ x) \<noteq> CHR ''o''" for x
    using itoa_no_letter [of "ev_seq ev"] by (cases "itoa (ev_seq ev)") auto
  moreover have "hd (ca_mac_input td backend der keptAt until savedAt) = CHR ''o''" by (simp add: ca_mac_input_def)
  ultimately show False using eq by (simp add: mac_input_def)
qed

text \<open>
  C18. Whoever can write the database but has no audit key cannot add a trust anchor or
  extend one.  Whatever the table holds, each CA read for a trust domain and backend is one
  that Omega itself was given to store for that trust domain and that backend, with the times
  it stored: a row copied from another trust domain or backend, or with a later end, is
  skipped.  The only way out is a forged MAC: a row of the table whose MAC is right under a
  secret of the keyring although Omega never made a MAC of that input under that secret,
  neither for a CA nor for a row of the audit log.
\<close>
theorem stored_ca_not_forged:
  assumes kr: "st_keyring s = Some kr"
    and res: "UpstreamCAs cr io td backend s = Inr out" and c: "c \<in> set out"
  shows "(\<exists>call \<in> set calls. \<exists>g \<in> set (call_rows cr call). c_trust_domain g = td \<and> c_backend g = backend \<and> c = scan_ca g)
         \<or> (\<exists>r \<in> set (db_cas (st_db s)). \<exists>secret m.
              lookup_key kr (c_key_id r) = Some secret \<and> m = row_mac_input td backend r
              \<and> c_mac r = hex_encode (hmac_sha256 cr secret m)
              \<and> (secret, m) \<notin> macs_made cr calls \<and> m \<notin> range (\<lambda>ev. mac_input ev secret))"
proof -
  obtain r where r: "r \<in> set (db_cas (st_db s))" "ca_row_verifies cr kr td backend r" and cr: "c = scan_ca r"
    using res c by (auto simp: UpstreamCAs_def kr run_query_def split: if_splits)
  then obtain secret where sec: "lookup_key kr (c_key_id r) = Some secret"
    and mr: "c_mac r = hex_encode (hmac_sha256 cr secret (row_mac_input td backend r))"
    by (auto simp: ca_row_verifies_def row_mac_input_def upstreamCAMAC_def split: option.splits)
  have na: "row_mac_input td backend r \<notin> range (\<lambda>ev. mac_input ev secret)"
    using ca_mac_input_not_audit by (auto simp: row_mac_input_def)
  show ?thesis
  proof (cases "(secret, row_mac_input td backend r) \<in> macs_made cr calls")
    case True
    then obtain kr0 io0 td0 backend0 cas0 g where call: "(kr0, io0, td0, backend0, cas0) \<in> set calls"
      and g: "g \<in> set (call_rows cr (kr0, io0, td0, backend0, cas0))"
      and eq: "row_mac_input td backend r = row_mac_input td0 backend0 g"
      unfolding macs_made_def by blast
    have "c_trust_domain g = td0" "c_backend g = backend0" using g by (auto simp: call_rows_def)
    with ca_mac_input_fields [OF eq [unfolded row_mac_input_def]] have "c_trust_domain g = td \<and> c_backend g = backend \<and> c = scan_ca g"
      by (simp add: cr scan_ca_def)
    with call g show ?thesis by blast
  next
    case False
    with r(1) sec mr na show ?thesis by blast
  qed
qed

theorem stored_ca_not_forged_witness:
  "UpstreamCAs joined_crypto (demo_io 9) ''t'' ''step'' demo_ca_store = Inr [scan_ca demo_ca_row]
   \<and> UpstreamCAs joined_crypto (demo_io 9) ''t'' ''vault'' demo_ca_store = Inr []
   \<and> (\<exists>g \<in> set (call_rows joined_crypto (demo_keyring, demo_io 7, ''t'', ''step'', [demo_ca])).
        c_trust_domain g = ''t'' \<and> c_backend g = ''step'' \<and> scan_ca demo_ca_row = scan_ca g)"
proof -
  let ?call = "(demo_keyring, demo_io 7, ''t'', ''step'', [demo_ca])"
  have key: "lookup_key demo_keyring ''k1'' = Some ''0123456789abcdef''" "active_key demo_keyring = (''k1'', ''0123456789abcdef'')"
    and now: "unix_nano (io_now (demo_io 7)) = 7"
    by code_simp+
  have rows: "call_rows joined_crypto ?call = [demo_ca_row]"
    by (simp add: call_rows_def key now demo_ca_row_def)
  have gen: "ca_row_verifies joined_crypto demo_keyring ''t'' ''step'' demo_ca_row"
    using key by (simp add: demo_ca_row_def ca_row_of_verifies)
  have f: "c_trust_domain demo_ca_row = ''t''" "c_backend demo_ca_row = ''step''" "c_key_id demo_ca_row = ''k1''"
    by (simp_all add: demo_ca_row_def)
  have bad: "\<not> ca_row_verifies joined_crypto demo_keyring ''t'' ''vault'' (demo_ca_row\<lparr>c_backend := ''vault''\<rparr>)"
    using key gen f by (auto simp: ca_row_verifies_def upstreamCAMAC_def joined_crypto_def dest!: ca_mac_input_fields)
  have db: "db_cas (st_db demo_ca_store) = [demo_ca_row, demo_ca_row\<lparr>c_backend := ''vault''\<rparr>]"
    and kr: "st_keyring demo_ca_store = Some demo_keyring"
    by (simp_all add: demo_ca_store_def UseAuditKeyring_def open_store_def)
  have a: "UpstreamCAs joined_crypto (demo_io 9) ''t'' ''step'' demo_ca_store = Inr [scan_ca demo_ca_row]"
    and b: "UpstreamCAs joined_crypto (demo_io 9) ''t'' ''vault'' demo_ca_store = Inr []"
    using gen bad by (simp_all add: UpstreamCAs_def kr run_query_def db f demo_io_def)
  have m: "(''0123456789abcdef'', row_mac_input ''t'' ''step'' demo_ca_row) \<in> macs_made joined_crypto [?call]"
    unfolding macs_made_def using rows key by force
  have c: "scan_ca demo_ca_row \<in> set [scan_ca demo_ca_row]" by simp
  have "row_mac_input ''t'' ''step'' (demo_ca_row\<lparr>c_backend := ''vault''\<rparr>) = row_mac_input ''t'' ''step'' demo_ca_row"
    by (simp add: row_mac_input_def)
  with stored_ca_not_forged [OF kr a c, of "[?call]"] m key(1) f db rows a b show ?thesis by auto
qed

end
