(* ===== verification/Reach.thy ===== *)
theory Reach
  imports ScimSync Policies UpstreamStore
begin

text \<open>
  The store as a whole: every method that writes the database as one operation, the
  invariant they all keep, and the stores reachable by any sequence of them with
  failing statements, failing or unanswered commits, elections and restarts.
\<close>

section \<open>The writes of the store\<close>

text \<open>
  Every method of the store that changes the database, with its arguments and what the
  database answers; a SCIM transaction is the list of calls its function makes.
\<close>

datatype store_op =
    Append io audit_event
  | AppendOnce io string audit_event
  | SetForward io string int
  | CreateDom io domain
  | DeleteDom io string
  | AddAdmin io string string
  | RemoveAdmin io string string
  | CreateGrp io group
  | DeleteGrp io string string
  | PutMember io string string group_member
  | RemoveMember io string string string
  | SwapMember io string string string "group_member option" "group_member option"
  | DeleteEmptyGrp io string string
  | RestoreGrp io group
  | Provision io string "scim_call list" audit_event
  | Change io string policy_change
  | ReplaceCAs io string string "upstream_ca list"
  | SaveSequence io string int string

definition outcome :: "('e + 'a) \<times> 's \<Rightarrow> bool \<times> 's" where
  "outcome r = (\<not> isl (fst r), snd r)"

fun exec_op :: "crypto \<Rightarrow> (string \<Rightarrow> string) \<Rightarrow> store_op \<Rightarrow> store \<Rightarrow> bool \<times> store" where
  "exec_op cr lower (Append io ev) s = outcome (AppendAudit cr io ev s)"
| "exec_op cr lower (AppendOnce io key ev) s = outcome (AppendAuditOnce cr io key ev s)"
| "exec_op cr lower (SetForward io name q) s = outcome (SetAuditForwardSeq io name q s)"
| "exec_op cr lower (CreateDom io dm) s = outcome (CreateDomain io dm s)"
| "exec_op cr lower (DeleteDom io name) s = outcome (DeleteDomain io name s)"
| "exec_op cr lower (AddAdmin io dn who) s = outcome (AddDomainAdmin io dn who s)"
| "exec_op cr lower (RemoveAdmin io dn who) s = outcome (RemoveDomainAdmin io dn who s)"
| "exec_op cr lower (CreateGrp io g) s = outcome (CreateGroup io g s)"
| "exec_op cr lower (DeleteGrp io dn name) s = outcome (DeleteGroup io dn name s)"
| "exec_op cr lower (PutMember io dn name m) s = outcome (PutGroupMember io dn name m s)"
| "exec_op cr lower (RemoveMember io dn name who) s = outcome (RemoveGroupMember io dn name who s)"
| "exec_op cr lower (SwapMember io dn name who expect want) s = outcome (SwapGroupMember io dn name who expect want s)"
| "exec_op cr lower (DeleteEmptyGrp io dn name) s = outcome (DeleteEmptyGroup io dn name s)"
| "exec_op cr lower (RestoreGrp io g) s = outcome (RestoreGroup io g s)"
| "exec_op cr lower (Provision io idp cs ev) s = outcome (SCIM cr io idp (scim_fn lower io idp cs ev) s)"
| "exec_op cr lower (Change io i change) s = outcome (ChangePolicy cr io i change s)"
| "exec_op cr lower (ReplaceCAs io td backend cas) s = outcome (ReplaceUpstreamCAs cr io td backend cas s)"
| "exec_op cr lower (SaveSequence io td q dg) s = outcome (SaveBundleSequence io td q dg s)"

text \<open>
  Callers record the change of a policy only through the policy operation, with the digest
  it leaves; no other event says that a policy was changed.
\<close>

definition plain_event :: "audit_event \<Rightarrow> bool" where
  "plain_event ev \<longleftrightarrow> \<not> (policy_kind (ev_kind ev) \<and> ev_decision ev = ''ok'')"

fun op_ok :: "crypto \<Rightarrow> store_op \<Rightarrow> bool" where
  "op_ok cr (Append io ev) \<longleftrightarrow> plain_event ev"
| "op_ok cr (AppendOnce io key ev) \<longleftrightarrow> plain_event ev"
| "op_ok cr (Provision io idp cs ev) \<longleftrightarrow> plain_event ev"
| "op_ok cr (Change io i change) \<longleftrightarrow> honest_change cr i change"
| "op_ok cr _ \<longleftrightarrow> True"

section \<open>The invariant of the store\<close>

definition sys_inv :: "crypto \<Rightarrow> audit_keyring option \<Rightarrow> db \<Rightarrow> bool" where
  "sys_inv cr kr d \<longleftrightarrow> audit_inv cr kr d \<and> scim_inv d \<and> int64_policies d \<and> policies_match cr d"

text \<open>The parts of the database it speaks of.\<close>

definition inv_tables :: "db \<Rightarrow> (audit_row list \<times> int \<times> meta_row list) \<times> policy_row list" where
  "inv_tables d = (log_tables d, db_policies d)"

lemma policies_cong:
  assumes "inv_tables d' = inv_tables d"
  shows "int64_policies d' = int64_policies d" "policies_match cr d' = policies_match cr d"
    "audit_inv cr kr d' = audit_inv cr kr d"
proof -
  have t: "db_policies d' = db_policies d" "db_audit d' = db_audit d" "log_tables d' = log_tables d"
    using assms by (simp_all add: inv_tables_def log_tables_def)
  show "int64_policies d' = int64_policies d" by (simp add: int64_policies_def t(1))
  have "stored_digest cr d' = stored_digest cr d" by (simp add: stored_digest_def find_policy_def t(1) fun_eq_iff)
  then show "policies_match cr d' = policies_match cr d" by (simp add: policies_match_def policy_events_def t(2))
  show "audit_inv cr kr d' = audit_inv cr kr d" by (rule audit_inv_log [OF t(3)])
qed

text \<open>A transaction on domains, groups and provisioned users.\<close>

lemma org_tx_keeps:
  assumes "tx_keeps scim_inv b" "tx_fixes inv_tables b"
  shows "tx_keeps (sys_inv cr kr) b"
  unfolding tx_keeps_def sys_inv_def
  using tx_keepsD [OF assms(1)] policies_cong [OF tx_fixesD [OF assms(2)]] by blast

text \<open>A transaction that touches none of these.\<close>

lemma apart_tx_keeps:
  assumes "tx_fixes org_tables b" "tx_fixes inv_tables b"
  shows "tx_keeps (sys_inv cr kr) b"
  using scim_inv_org [OF tx_fixesD [OF assms(1)]]
  by (intro org_tx_keeps [OF _ assms(2)]) (auto simp: tx_keeps_def)

lemma other_tables_fixed: "tx_fixes other_tables b \<Longrightarrow> tx_fixes inv_tables b"
proof -
  have "inv_tables d = inv_tables (other_tables d)" for d
    by (simp add: inv_tables_def other_tables_def log_tables_def)
  then show "tx_fixes other_tables b \<Longrightarrow> tx_fixes inv_tables b" unfolding tx_fixes_def by metis
qed

lemma append_tx_keeps:
  assumes "plain_event ev"
  shows "tx_keeps (sys_inv cr (st_keyring s)) (append_tx cr io s ev)"
  unfolding tx_keeps_def sys_inv_def
proof (intro allI impI, elim conjE)
  fix d x d' assume d: "append_tx cr io s ev d = Inr (x, d')" and inv: "audit_inv cr (st_keyring s) d"
    "scim_inv d" "int64_policies d" "policies_match cr d"
  have a: "audit_inv cr (st_keyring s) d'" using tx_keepsD [OF append_tx_inv inv(1) d] .
  have p: "db_policies d' = db_policies d" and o: "org_tables d' = org_tables d"
    using tx_fixesD [OF append_tx_frame(2) d] tx_fixesD [OF append_tx_frame(1) d] by simp_all
  obtain row where row: "db_audit d' = db_audit d @ [row]" "a_kind row = ev_kind ev" "a_decision row = ev_decision ev"
    using append_payload [OF d] by blast
  have "\<not> policy_audit_row row" using assms row by (simp add: plain_event_def policy_audit_row_def)
  from policies_match_other [OF inv(4) a row(1) this p] a scim_inv_org [OF o] inv(2,3) p
  show "audit_inv cr (st_keyring s) d' \<and> scim_inv d' \<and> int64_policies d' \<and> policies_match cr d'"
    by (simp add: int64_policies_def)
qed

lemma once_tx_steps:
  assumes "append_once_tx cr io s key ev d = Inr (x, d')"
  obtains t where "d' = d\<lparr>db_once := t\<rparr>"
  | t e e' where "append_tx cr io s e (d\<lparr>db_once := t\<rparr>) = Inr (e', d')" "plain_event ev \<longrightarrow> plain_event e"
proof -
  define t where "t = snd (sql_insert_ignore o_k \<lparr>o_k = key, o_digest = once_digest cr ev, o_created_at = unix_nano (io_now io)\<rparr> (db_once d))"
  have c: "plain_event (conflict_event key seen digest ev)" for seen digest
    by (simp add: plain_event_def conflict_event_def new_event_def)
  have "d' = d\<lparr>db_once := t\<rparr> \<or> (\<exists>e'. append_tx cr io s ev (d\<lparr>db_once := t\<rparr>) = Inr (e', d'))
      \<or> (\<exists>e' seen. append_tx cr io s (conflict_event key seen (once_digest cr ev) ev) (d\<lparr>db_once := t\<rparr>) = Inr (e', d'))"
    using assms unfolding append_once_tx_def Let_def tx_bind_Inr
    by (auto simp: tx_simps tx_stmt_def t_def split: if_splits option.splits prod.splits)
  with that c show thesis by blast
qed

lemma once_tx_keeps:
  assumes "plain_event ev"
  shows "tx_keeps (sys_inv cr (st_keyring s)) (append_once_tx cr io s key ev)"
  unfolding tx_keeps_def
proof (intro allI impI)
  fix d x d' assume inv: "sys_inv cr (st_keyring s) d" and tx: "append_once_tx cr io s key ev d = Inr (x, d')"
  have once: "sys_inv cr (st_keyring s) (d\<lparr>db_once := t\<rparr>)" for t
    using inv policies_cong [of "d\<lparr>db_once := t\<rparr>" d] scim_inv_org [of "d\<lparr>db_once := t\<rparr>" d]
    by (simp add: sys_inv_def inv_tables_def log_tables_def org_tables_def)
  from tx show "sys_inv cr (st_keyring s) d'"
  proof (cases rule: once_tx_steps)
    case (1 t)
    then show ?thesis using once by simp
  next
    case (2 t e e')
    with assms have "plain_event e" by blast
    from tx_keepsD [OF append_tx_keeps [OF this] once 2(1)] show ?thesis .
  qed
qed

lemma provision_keeps:
  assumes "plain_event ev"
  shows "tx_keeps (sys_inv cr (st_keyring s)) (scim_tx cr io s idp (scim_fn lower io idp cs ev))"
  unfolding tx_keeps_def
proof (intro allI impI)
  fix d ev' d' assume inv: "sys_inv cr (st_keyring s) d" and tx: "scim_tx cr io s idp (scim_fn lower io idp cs ev) d = Inr (ev', d')"
  obtain tch d1 d2 where calls: "run_calls lower io idp cs [] d = Inr (tch, d1)"
    and sync: "syncGroups io idp (sort tch) d1 = Inr ((), d2)"
    and app: "if ev_kind ev \<noteq> [] then append_tx cr io s ev d2 = Inr (ev', d') else d' = d2 \<and> ev' = ev"
    using scim_tx_steps [OF tx] by metis
  have "scim_frame d2 = scim_frame d"
    using tx_fixesD [OF run_calls_frame calls] tx_fixesD [OF syncGroups_frame sync] by simp
  moreover have "inv_tables d = inv_tables (scim_frame d)" for d
    by (simp add: inv_tables_def scim_frame_def log_tables_def)
  ultimately have "inv_tables d2 = inv_tables d" by metis
  moreover have "scim_inv d2"
    using syncGroups_mid [OF _ _ sync, of tch] run_calls_mid [OF _ calls] inv by (simp add: scim_mid_Nil sys_inv_def)
  ultimately have "sys_inv cr (st_keyring s) d2" using inv policies_cong [of d2 d] by (simp add: sys_inv_def)
  then show "sys_inv cr (st_keyring s) d'"
    using app tx_keepsD [OF append_tx_keeps [OF assms]] by (auto split: if_splits)
qed

lemma change_tx_keeps:
  assumes "honest_change cr i change"
  shows "tx_keeps (sys_inv cr (st_keyring s)) (change_policy_tx cr io s i change)"
  unfolding tx_keeps_def
proof (intro allI impI)
  fix d x d' assume inv: "sys_inv cr (st_keyring s) d" and tx: "change_policy_tx cr io s i change d = Inr (x, d')"
  have i64: "int64_policies d" using inv by (simp add: sys_inv_def)
  obtain nxt ev row where ch: "change (find_policy cr i d) = Inr (nxt, ev)" "fst x = policy_after cr io i (find_policy cr i d) nxt"
    and row: "db_audit d' = db_audit d @ [row]" "records ev row" "int64_policies d'" "org_tables d' = org_tables d"
    and after: "\<forall>j. find_policy cr j d' = (if j = i then map_option as_stored (fst x) else find_policy cr j d)"
    using change_policy_Inr [OF tx i64] by blast
  have a: "audit_inv cr (st_keyring s) d'"
  proof -
    obtain nxt ev ev' w d1 where w: "write_policy cr io i (find_policy cr i d) nxt d = Inr (w, d1)" and app: "append_tx cr io s ev d1 = Inr (ev', d')"
      using tx by (auto simp: change_policy_tx_def tx_simps split: sum.splits if_splits)
    obtain ps where "d1 = d\<lparr>db_policies := ps\<rparr>" using write_policy_Inr [OF w i64] by blast
    then have "log_tables d1 = log_tables d" by (simp add: log_tables_def)
    then have "audit_inv cr (st_keyring s) d1" using inv audit_inv_log [of d1 d cr] by (simp add: sys_inv_def)
    from tx_keepsD [OF append_tx_inv this app] show ?thesis .
  qed
  moreover have "policies_match cr d'"
    using inv ch(2) after by (intro policies_match_change [OF _ a row(1,2) ch(1) assms]) (auto simp: sys_inv_def)
  ultimately show "sys_inv cr (st_keyring s) d'" using inv row scim_inv_org [OF row(4)] by (simp add: sys_inv_def)
qed

section \<open>Every write keeps it\<close>

context db_write
begin

lemma keeps_system:
  assumes "outcome (op io s) = (b, s')" "sys_inv cr (st_keyring s) (st_db s)" "tx_keeps (sys_inv cr (st_keyring s)) (body io s)"
  shows "sys_inv cr (st_keyring s') (st_db s') \<and> settings s' = settings s"
proof -
  obtain r where run: "op io s = (r, s')" using assms(1) by (cases "op io s") (auto simp: outcome_def)
  have "st_keyring s' = st_keyring s" using same_settings [OF run] by (simp add: settings_def)
  with keeps [OF assms(3,2) run] same_settings [OF run] show ?thesis by simp
qed

lemma safe:
  assumes "outcome (op io s) = (b, s')"
  shows "(\<not> IsLeader s \<longrightarrow> s' = s) \<and> (\<not> b \<longrightarrow> io_commit io \<noteq> CommitLost \<longrightarrow> s' = s)"
proof -
  obtain r where run: "op io s = (r, s')" "b \<longleftrightarrow> \<not> isl r" using assms by (cases "op io s") (auto simp: outcome_def)
  with follower [OF _ run(1)] failure [of io s _ s'] show ?thesis by (cases r) auto
qed

end

lemma CreateDomain_system:
  assumes "outcome (CreateDomain io dm s) = (b, s')" "sys_inv cr (st_keyring s) (st_db s)"
  shows "sys_inv cr (st_keyring s') (st_db s') \<and> settings s' = settings s"
proof (cases "ValidateDomainName (dom_name dm)")
  case None
  then show ?thesis
    by (intro cd.keeps_system [OF assms] org_tx_keeps other_tables_fixed domain_frames domain_ops_scim) simp_all
next
  case (Some e)
  then show ?thesis using assms by (auto simp: CreateDomain_def outcome_def split: if_splits)
qed

lemma insert_cas_frame: "tx_fixes (\<lambda>d. (org_tables d, inv_tables d)) (insert_cas io row cas)"
proof (induction cas)
  case (Cons c cas)
  have "tx_fixes (\<lambda>d. (org_tables d, inv_tables d)) (tx_stmt io l (\<lambda>d.
      case sql_insert ca_key x (db_cas d) of None \<Rightarrow> Inl e | Some t \<Rightarrow> Inr ((), d\<lparr>db_cas := t\<rparr>)))" for l x e
    by (auto simp: tx_fixes_def tx_stmt_def org_tables_def inv_tables_def log_tables_def split: if_splits option.splits)
  note stmt = this
  show ?case
  proof (cases "uc_der c = []")
    case True
    then show ?thesis by (simp add: tx_fixes_def tx_fail_def)
  next
    case False
    then show ?thesis using tx_fixes_bind [OF stmt Cons] by simp
  qed
qed (simp add: tx_fixes_return)

lemma replace_cas_keeps: "tx_keeps (sys_inv cr kr') (replace_cas_tx cr io kr td backend cas)"
proof -
  have "tx_fixes (\<lambda>d. (org_tables d, inv_tables d)) (replace_cas_tx cr io kr td backend cas)"
  proof -
    have "tx_fixes (\<lambda>d. (org_tables d, inv_tables d)) (tx_exec io l (\<lambda>d. d\<lparr>db_cas := f d\<rparr>))" for l f
      by (auto simp: tx_fixes_def tx_simps org_tables_def inv_tables_def log_tables_def)
    then show ?thesis unfolding replace_cas_tx_def
      by (cases "active_key kr") (auto intro: tx_fixes_bind insert_cas_frame)
  qed
  then show ?thesis by (intro apart_tx_keeps) (auto simp: tx_fixes_def)
qed

lemma save_seq_keeps: "tx_keeps (sys_inv cr kr) (\<lambda>d. Inr ((), save_seq td q dg t d))"
  by (rule apart_tx_keeps) (auto simp: tx_fixes_def save_seq_def org_tables_def inv_tables_def log_tables_def)

lemma Once_system:
  assumes "outcome (AppendAuditOnce cr io key ev s) = (b, s')" "sys_inv cr (st_keyring s) (st_db s)" "plain_event ev"
  shows "sys_inv cr (st_keyring s') (st_db s') \<and> st_keyring s' = st_keyring s"
proof -
  obtain r where run: "AppendAuditOnce cr io key ev s = (r, s')"
    using assms(1) by (cases "AppendAuditOnce cr io key ev s") (auto simp: outcome_def)
  have pr: "sys_inv cr kr (st_db (prune_once io s2)) = sys_inv cr kr (st_db s2)" for kr s2
  proof -
    have "inv_tables (st_db (prune_once io s2)) = inv_tables (st_db s2)" "org_tables (st_db (prune_once io s2)) = org_tables (st_db s2)"
      by (simp_all add: inv_tables_def log_tables_def org_tables_def prune_once_def Let_def)
    then show ?thesis using policies_cong scim_inv_org unfolding sys_inv_def by metis
  qed
  have "sys_inv cr (st_keyring s) d" if "append_once_tx cr io s key ev (st_db s) = Inr (x, d)" for x d
    using tx_keepsD [OF once_tx_keeps [OF assms(3)] assms(2) that] .
  with AppendAuditOnce_ends [OF run] assms(2) show ?thesis by (auto simp: pr)
qed

lemma Forward_system:
  assumes "outcome (SetAuditForwardSeq io name q s) = (b, s')" "sys_inv cr (st_keyring s) (st_db s)"
  shows "sys_inv cr (st_keyring s') (st_db s') \<and> st_keyring s' = st_keyring s"
proof -
  have f: "sys_inv cr kr (d\<lparr>db_forward := t\<rparr>) = sys_inv cr kr d" for kr d t
    using policies_cong [of "d\<lparr>db_forward := t\<rparr>" d] scim_inv_org [of "d\<lparr>db_forward := t\<rparr>" d]
    by (simp add: sys_inv_def inv_tables_def log_tables_def org_tables_def)
  from assms show ?thesis
    by (auto simp: outcome_def SetAuditForwardSeq_def run_exec_def f split: if_splits)
qed

lemma exec_system:
  assumes "exec_op cr lower x s = (b, s')" "sys_inv cr (st_keyring s) (st_db s)" "op_ok cr x"
  shows "sys_inv cr (st_keyring s') (st_db s') \<and> st_keyring s' = st_keyring s"
proof -
  have k: "sys_inv cr (st_keyring s') (st_db s') \<and> settings s' = settings s \<Longrightarrow> ?thesis" by (auto simp: settings_def)
  note org = org_tx_keeps [OF _ other_tables_fixed]
  show ?thesis
  proof (cases x)
    case (Append io ev)
    then have a: "outcome (AppendAudit cr io ev s) = (b, s')" "plain_event ev" using assms(1,3) by simp_all
    show ?thesis by (rule k [OF aa.keeps_system [OF a(1) assms(2) append_tx_keeps [OF a(2)]]])
  next
    case (AppendOnce io key ev)
    then have "outcome (AppendAuditOnce cr io key ev s) = (b, s')" "plain_event ev" using assms(1,3) by simp_all
    from Once_system [OF this(1) assms(2) this(2)] show ?thesis .
  next
    case (SetForward io name q)
    then have "outcome (SetAuditForwardSeq io name q s) = (b, s')" using assms(1) by simp
    from Forward_system [OF this assms(2)] show ?thesis .
  next
    case (CreateDom io dm)
    with assms show ?thesis by (intro k CreateDomain_system) simp_all
  next
    case (DeleteDom io name)
    with assms show ?thesis by (intro k dd.keeps_system org domain_ops_scim domain_frames) simp_all
  next
    case (AddAdmin io dn who)
    with assms show ?thesis by (intro k ada.keeps_system org domain_ops_scim domain_frames) simp_all
  next
    case (RemoveAdmin io dn who)
    with assms show ?thesis by (intro k rda.keeps_system org domain_ops_scim domain_frames) simp_all
  next
    case (CreateGrp io g)
    with assms show ?thesis by (intro k cg.keeps_system org group_ops_scim group_frames) simp_all
  next
    case (DeleteGrp io dn name)
    with assms show ?thesis by (intro k dg.keeps_system org group_ops_scim group_frames) simp_all
  next
    case (PutMember io dn name m)
    with assms show ?thesis by (intro k pgm.keeps_system org member_ops_scim group_frames) simp_all
  next
    case (RemoveMember io dn name who)
    with assms show ?thesis by (intro k rgm.keeps_system org member_ops_scim group_frames) simp_all
  next
    case (SwapMember io dn name who expect want)
    with assms show ?thesis by (intro k sgm.keeps_system org member_ops_scim group_frames) simp_all
  next
    case (DeleteEmptyGrp io dn name)
    with assms show ?thesis by (intro k deg.keeps_system org delete_empty_scim delete_empty_frame) simp_all
  next
    case (RestoreGrp io g)
    with assms show ?thesis by (intro k rg.keeps_system org group_ops_scim group_frames) simp_all
  next
    case (Provision io idp cs ev)
    then have a: "outcome (SCIM cr io idp (scim_fn lower io idp cs ev) s) = (b, s')" "plain_event ev" using assms(1,3) by simp_all
    show ?thesis by (rule k [OF sc.keeps_system [where fn = "\<lambda>io. scim_fn lower io idp cs ev", OF a(1) assms(2) provision_keeps [OF a(2)]]])
  next
    case (Change io i change)
    then have a: "outcome (ChangePolicy cr io i change s) = (b, s')" "honest_change cr i change" using assms(1,3) by simp_all
    show ?thesis by (rule k [OF cp.keeps_system [OF a(1) assms(2) change_tx_keeps [OF a(2)]]])
  next
    case (ReplaceCAs io td backend cas)
    then have "outcome (ReplaceUpstreamCAs cr io td backend cas s) = (b, s')" using assms(1) by simp
    from k [OF ru.keeps_system [OF this assms(2) replace_cas_keeps]] show ?thesis .
  next
    case (SaveSequence io td q dg)
    then have "outcome (SaveBundleSequence io td q dg s) = (b, s')" using assms(1) by simp
    from k [OF sbs.keeps_system [OF this assms(2) save_seq_keeps]] show ?thesis .
  qed
qed

section \<open>Reachable stores\<close>

text \<open>
  A store is opened on an empty database with a keyring or without one.  Then any writes
  are made, with any of their statements failing and any commit failing or its answer
  lost; replicas win and lose elections; and processes restart on the database.
\<close>

inductive store_reach :: "crypto \<Rightarrow> (string \<Rightarrow> string) \<Rightarrow> audit_keyring option \<Rightarrow> store \<Rightarrow> bool"
  for cr lower kr where
  opened: "(\<And>k. kr = Some k \<Longrightarrow> keyring_ok k) \<Longrightarrow> store_reach cr lower kr (UseAuditKeyring kr (open_store spec empty_db))"
| wrote: "store_reach cr lower kr s \<Longrightarrow> op_ok cr x \<Longrightarrow> exec_op cr lower x s = (b, s') \<Longrightarrow> store_reach cr lower kr s'"
| elected: "store_reach cr lower kr s \<Longrightarrow> store_reach cr lower kr (s\<lparr>st_leader_enabled := en, st_is_leader := l\<rparr>)"
| restarted: "store_reach cr lower kr s \<Longrightarrow> store_reach cr lower kr (UseAuditKeyring kr (open_store spec (st_db s)))"

inductive_cases store_reachE: "store_reach cr lower kr s"

lemma empty_system: "(\<And>k. kr = Some k \<Longrightarrow> keyring_ok k) \<Longrightarrow> sys_inv cr kr empty_db"
proof -
  assume k: "\<And>k. kr = Some k \<Longrightarrow> keyring_ok k"
  have a: "audit_inv cr kr empty_db"
    using k by (simp add: empty_db_def audit_inv_def audit_clean_def audit_walk_def audit_epoch_def sql_row_def)
  have s: "scim_inv empty_db"
    by (simp add: empty_db_def scim_inv_def domain_inv_def scim_refs_def keyed_def)
  have "policies_match cr empty_db"
    by (simp add: empty_db_def policies_match_def policy_events_def recorded_digest_def stored_digest_def find_policy_def sql_row_def fun_eq_iff)
  with a s show ?thesis by (simp add: sys_inv_def int64_policies_def empty_db_def keyed_def)
qed

lemma store_reach_inv:
  "store_reach cr lower kr s \<Longrightarrow> sys_inv cr kr (st_db s) \<and> st_keyring s = kr"
proof (induction rule: store_reach.induct)
  case (opened spec)
  then show ?case using empty_system by (simp add: UseAuditKeyring_def open_store_def)
next
  case (wrote s x b s')
  then show ?case using exec_system [OF wrote.hyps(3)] by auto
qed (simp_all add: UseAuditKeyring_def open_store_def)

text \<open>
  C3. However the store got here, it is consistent: the audit log verifies with all its
  rows; every domain's parent, every group's domain and every member's group exist; a group
  an identity provider manages has exactly the principals of its active members, none of
  them expiring; and the policies stored are those whose digests the log records last.
\<close>
theorem reachable_store_consistent:
  assumes "store_reach cr lower kr s" "VerifyAudit cr io None s = Inr v"
  shows "av_valid v \<and> av_count v = int (length (db_audit (st_db s)))
    \<and> (\<forall>r \<in> set (db_domains (st_db s)). ParentOf (d_name r) = [] \<or> ParentOf (d_name r) \<in> d_name ` set (db_domains (st_db s)))
    \<and> (\<forall>g \<in> set (db_groups (st_db s)). g_domain g \<in> d_name ` set (db_domains (st_db s)))
    \<and> (\<forall>m \<in> set (db_members (st_db s)). (m_domain m, m_grp m) \<in> group_key ` set (db_groups (st_db s)))
    \<and> (\<forall>g \<in> set (db_scim_groups (st_db s)).
        (\<lambda>m. (m_principal m, m_expires_at m)) ` {m \<in> set (db_members (st_db s)). in_group (sg_domain g) (sg_grp g) m} =
        {(su_principal u, 0) | u. u \<in> set (db_scim_users (st_db s)) \<and> su_active u = 1 \<and> (\<exists>m \<in> set (db_scim_members (st_db s)).
           sm_idp m = sg_idp g \<and> sm_group_id m = sg_id g \<and> scim_user_key u = (sg_idp g, sm_user_id m))})
    \<and> (\<exists>rec. collect_digests (\<lambda>_. True) (policy_events (st_db s)) [] = Inr rec \<and> recorded_digest rec = stored_digest cr (st_db s))"
proof -
  let ?d = "st_db s"
  have inv: "audit_inv cr (st_keyring s) ?d" "scim_inv ?d" "policies_match cr ?d"
    using store_reach_inv [OF assms(1)] by (simp_all add: sys_inv_def)
  have nz: "no_row_zero ?d" using inv(1) by (auto simp: audit_inv_def no_row_zero_def list_all_iff)
  have valid: "av_valid v" using VerifyAudit_valid(1) [OF assms(2) nz] inv(1) by (simp add: audit_inv_def anchor_seen_def)
  have "length (audit_walk ?d) = length (db_audit ?d)" by (simp add: audit_walk_def)
  then have count: "av_count v = int (length (db_audit ?d))" using VerifyAudit_valid(2) [OF assms(2) nz valid] by simp
  have d: "domain_inv ?d" using inv(2) by (simp add: scim_inv_def)
  have groups: "(\<lambda>m. (m_principal m, m_expires_at m)) ` {m \<in> set (db_members ?d). in_group (sg_domain g) (sg_grp g) m} =
      {(su_principal u, 0) | u. u \<in> set (db_scim_users ?d) \<and> su_active u = 1 \<and> (\<exists>m \<in> set (db_scim_members ?d).
         sm_idp m = sg_idp g \<and> sm_group_id m = sg_id g \<and> scim_user_key u = (sg_idp g, sm_user_id m))}"
    if "g \<in> set (db_scim_groups ?d)" for g
  proof -
    have "{m \<in> set (db_members ?d). in_group (sg_domain g) (sg_grp g) m} = scim_member_rows g ?d"
      using inv(2) that by (simp add: scim_inv_def synced_def)
    then show ?thesis by (auto simp: scim_member_rows_def image_image set_active_principals)
  qed
  show ?thesis using valid count d groups inv(3) unfolding domain_inv_def policies_match_def by blast
qed

section \<open>Failures and followers\<close>

fun op_io :: "store_op \<Rightarrow> io" where
  "op_io (Append io ev) = io"
| "op_io (AppendOnce io key ev) = io"
| "op_io (SetForward io name q) = io"
| "op_io (CreateDom io dm) = io"
| "op_io (DeleteDom io name) = io"
| "op_io (AddAdmin io dn who) = io"
| "op_io (RemoveAdmin io dn who) = io"
| "op_io (CreateGrp io g) = io"
| "op_io (DeleteGrp io dn name) = io"
| "op_io (PutMember io dn name m) = io"
| "op_io (RemoveMember io dn name who) = io"
| "op_io (SwapMember io dn name who expect want) = io"
| "op_io (DeleteEmptyGrp io dn name) = io"
| "op_io (RestoreGrp io g) = io"
| "op_io (Provision io idp cs ev) = io"
| "op_io (Change io i change) = io"
| "op_io (ReplaceCAs io td backend cas) = io"
| "op_io (SaveSequence io td q dg) = io"

fun is_forward :: "store_op \<Rightarrow> bool" where
  "is_forward (SetForward io name q) = True"
| "is_forward _ = False"

lemma Once_safe:
  assumes "outcome (AppendAuditOnce cr io key ev s) = (b, s')"
  shows "(\<not> IsLeader s \<longrightarrow> s' = s) \<and> (\<not> b \<longrightarrow> io_commit io \<noteq> CommitLost \<longrightarrow> s' = s)"
proof -
  obtain r where run: "AppendAuditOnce cr io key ev s = (r, s')" "b \<longleftrightarrow> \<not> isl r"
    using assms by (cases "AppendAuditOnce cr io key ev s") (auto simp: outcome_def)
  have "\<not> IsLeader s \<Longrightarrow> s' = s" using run(1) by (simp add: AppendAuditOnce_def)
  moreover have "\<not> b \<Longrightarrow> io_commit io \<noteq> CommitLost \<Longrightarrow> s' = s" using AppendAuditOnce_ends [OF run(1)] run(2) by auto
  ultimately show ?thesis by blast
qed

lemma Forward_safe:
  "outcome (SetAuditForwardSeq io name q s) = (b, s') \<Longrightarrow> \<not> b \<Longrightarrow> io_commit io \<noteq> CommitLost \<Longrightarrow> s' = s"
  by (auto simp: outcome_def SetAuditForwardSeq_def run_exec_def split: if_splits)

text \<open>
  C4. No write has a partial effect: a write that answers with an error has changed nothing
  of the store, unless the answer to its commit was lost; and a replica that is not the
  leader changes nothing at all, but for the watermark of an audit forwarder.
\<close>
theorem failed_write_changes_nothing:
  assumes "exec_op cr lower x s = (b, s')"
  shows "(\<not> b \<longrightarrow> io_commit (op_io x) \<noteq> CommitLost \<longrightarrow> s' = s) \<and> (\<not> IsLeader s \<longrightarrow> \<not> is_forward x \<longrightarrow> s' = s)"
proof (cases x)
  case (Append io ev)
  with assms aa.safe show ?thesis by fastforce
next
  case (AppendOnce io key ev)
  with assms Once_safe [of cr io key ev s b s'] show ?thesis by simp
next
  case (SetForward io name q)
  with assms Forward_safe [of io name q s b s'] show ?thesis by auto
next
  case (CreateDom io dm)
  with assms cd.safe show ?thesis by fastforce
next
  case (DeleteDom io name)
  with assms dd.safe show ?thesis by fastforce
next
  case (AddAdmin io dn who)
  with assms ada.safe show ?thesis by fastforce
next
  case (RemoveAdmin io dn who)
  with assms rda.safe show ?thesis by fastforce
next
  case (CreateGrp io g)
  with assms cg.safe show ?thesis by fastforce
next
  case (DeleteGrp io dn name)
  with assms dg.safe show ?thesis by fastforce
next
  case (PutMember io dn name m)
  with assms pgm.safe show ?thesis by fastforce
next
  case (RemoveMember io dn name who)
  with assms rgm.safe show ?thesis by fastforce
next
  case (SwapMember io dn name who expect want)
  with assms sgm.safe show ?thesis by fastforce
next
  case (DeleteEmptyGrp io dn name)
  with assms deg.safe show ?thesis by fastforce
next
  case (RestoreGrp io g)
  with assms rg.safe show ?thesis by fastforce
next
  case (Provision io idp cs ev)
  with assms sc.safe [where fn = "\<lambda>io. scim_fn lower io idp cs ev", of cr io idp s b s'] show ?thesis by simp
next
  case (Change io i change)
  with assms cp.safe show ?thesis by fastforce
next
  case (ReplaceCAs io td backend cas)
  with assms ru.safe show ?thesis by fastforce
next
  case (SaveSequence io td q dg)
  with assms sbs.safe show ?thesis by fastforce
qed

definition demo_deny :: audit_event where
  "demo_deny = new_event ''policy.create'' ''alice'' ''p1'' ''deny'' None"

definition demo_reached :: store where
  "demo_reached = snd (AppendAudit demo_crypto (demo_io 5) demo_deny demo_empty)"

lemma demo_reach: "store_reach demo_crypto (\<lambda>x. x) (Some demo_keyring) demo_reached"
proof -
  have "keyring_ok demo_keyring" by code_simp
  then have "store_reach demo_crypto (\<lambda>x. x) (Some demo_keyring) demo_empty"
    unfolding demo_empty_def by (intro opened) simp
  moreover have "op_ok demo_crypto (Append (demo_io 5) demo_deny)" by (simp add: plain_event_def demo_deny_def new_event_def)
  moreover have "exec_op demo_crypto (\<lambda>x. x) (Append (demo_io 5) demo_deny) demo_empty =
      (fst (exec_op demo_crypto (\<lambda>x. x) (Append (demo_io 5) demo_deny) demo_empty), demo_reached)"
    by (simp add: demo_reached_def outcome_def)
  ultimately show ?thesis by (rule wrote)
qed

theorem reachable_store_consistent_witness:
  "\<exists>v. VerifyAudit demo_crypto (demo_io 9) None demo_reached = Inr v
     \<and> store_reach demo_crypto (\<lambda>x. x) (Some demo_keyring) demo_reached \<and> av_valid v
     \<and> av_count v = int (length (db_audit (st_db demo_reached))) \<and> length (db_audit (st_db demo_reached)) = 1"
proof -
  have n: "\<not> isl (VerifyAudit demo_crypto (demo_io 9) None demo_reached)" by code_simp
  have l: "length (db_audit (st_db demo_reached)) = 1" by code_simp
  obtain v where v: "VerifyAudit demo_crypto (demo_io 9) None demo_reached = Inr v"
    using n by (cases "VerifyAudit demo_crypto (demo_io 9) None demo_reached") simp_all
  note c = reachable_store_consistent [OF demo_reach v]
  show ?thesis using v demo_reach c [THEN conjunct1] c [THEN conjunct2, THEN conjunct1] l by blast
qed

theorem failed_write_changes_nothing_witness:
  "fst (exec_op demo_crypto (\<lambda>x. x) (DeleteDom (demo_io 5) ''media'') demo_empty) = False
   \<and> snd (exec_op demo_crypto (\<lambda>x. x) (DeleteDom (demo_io 5) ''media'') demo_empty) = demo_empty"
proof -
  have f: "fst (exec_op demo_crypto (\<lambda>x. x) (DeleteDom (demo_io 5) ''media'') demo_empty) = False"
  proof -
    have "isl (fst (DeleteDomain (demo_io 5) ''media'' demo_empty))" by code_simp
    then show ?thesis by (simp add: outcome_def)
  qed
  then have "exec_op demo_crypto (\<lambda>x. x) (DeleteDom (demo_io 5) ''media'') demo_empty =
      (False, snd (exec_op demo_crypto (\<lambda>x. x) (DeleteDom (demo_io 5) ''media'') demo_empty))"
    by (metis prod.collapse)
  from failed_write_changes_nothing [OF this] f show ?thesis by (simp add: demo_io_def)
qed

end
