(* ===== verification/JsonText.thy ===== *)
theory JsonText
  imports JsonParse
begin

text \<open>
  Texts that Go's \<^verbatim>\<open>encoding/json\<close> writes inside a larger value: instants, raw messages and
  objects with optional fields; and the base64 encoding used in URLs.
\<close>

section \<open>Values as text\<close>

text \<open>
  \<^verbatim>\<open>time.Time\<close> in UTC as RFC 3339 with the fraction cut after its last digit that is
  not zero, as \<^verbatim>\<open>MarshalJSON\<close> writes it; a year of more than four digits is an error.
\<close>

definition pad :: "nat \<Rightarrow> nat \<Rightarrow> string" where
  "pad k n = replicate (k - length (dec_nat n)) CHR ''0'' @ dec_nat n"

definition civil :: "int \<Rightarrow> int \<times> nat \<times> nat" where
  "civil days =
     (let z = days + 719468; era = z div 146097; doe = z mod 146097;
          yoe = (doe - doe div 1460 + doe div 36524 - doe div 146096) div 365;
          doy = doe - (365 * yoe + yoe div 4 - yoe div 100);
          mp = (5 * doy + 2) div 153;
          m = (if mp < 10 then mp + 3 else mp - 9) in
      (yoe + era * 400 + (if m \<le> 2 then 1 else 0), nat m, nat (doy - (153 * mp + 2) div 5 + 1)))"

definition fraction :: "nat \<Rightarrow> string" where
  "fraction n = (if n = 0 then [] else ''.'' @ rev (dropWhile (\<lambda>c. c = CHR ''0'') (rev (pad 9 n))))"

definition time_json :: "gotime \<Rightarrow> string option" where
  "time_json t =
     (let (y, m, d) = civil (t div day); s = nat (t mod day div second) in
      if y < 0 \<or> 9999 < y then None
      else Some ([CHR 0x22] @ pad 4 (nat y) @ ''-'' @ pad 2 m @ ''-'' @ pad 2 d @ ''T'' @ pad 2 (s div 3600) @ '':'' @
        pad 2 (s div 60 mod 60) @ '':'' @ pad 2 (s mod 60) @ fraction (nat (t mod second)) @ ''Z'' @ [CHR 0x22]))"

text \<open>
  A \<^verbatim>\<open>json.RawMessage\<close> is written as it is, without the space between its tokens and
  with the HTML characters escaped; what is not valid JSON is an error.
\<close>

fun compact :: "bool \<Rightarrow> string \<Rightarrow> string" where
  "compact q [] = []"
| "compact q (c # s) =
     (if c = CHR ''<'' \<or> c = CHR ''>'' \<or> c = CHR ''&'' then json_ascii c @ compact q s
      else if take 3 (c # s) = [CHR 0xE2, CHR 0x80, CHR 0xA8] then [CHR 0x5C] @ ''u2028'' @ compact q (drop 2 s)
      else if take 3 (c # s) = [CHR 0xE2, CHR 0x80, CHR 0xA9] then [CHR 0x5C] @ ''u2029'' @ compact q (drop 2 s)
      else if \<not> q \<and> json_space c then compact q s
      else if q \<and> c = CHR 0x5C then (case s of [] \<Rightarrow> [c] | e # r \<Rightarrow> c # e # compact q r)
      else c # compact (if c = CHR 0x22 then \<not> q else q) s)"

definition raw_json :: "string \<Rightarrow> string option" where
  "raw_json s = (if json_unmarshal s = None then None else Some (compact False s))"

definition omit_empty :: "string \<Rightarrow> string \<Rightarrow> (string \<times> string) list" where
  "omit_empty k v = (if v = [] then [] else [(k, json_string v)])"

definition object_text :: "(string \<times> string) list \<Rightarrow> string" where
  "object_text ms = ''{'' @ join_with CHR '','' (map (\<lambda>(k, v). json_string k @ '':'' @ v) ms) @ ''}''"

section \<open>Base64 for URLs\<close>

text \<open>
  \<^verbatim>\<open>base64.RawURLEncoding\<close>: no padding; a decoder skips line breaks and ignores the unused
  bits of the last group.
\<close>

definition url_char :: "nat \<Rightarrow> char" where
  "url_char n =
     (if n < 26 then char_of (n + 65) else if n < 52 then char_of (n + 71) else if n < 62 then char_of (n - 4)
      else if n = 62 then CHR ''-'' else CHR ''_'')"

definition url_val :: "char \<Rightarrow> nat option" where
  "url_val c =
     (if c = CHR ''-'' then Some 62 else if c = CHR ''_'' then Some 63
      else if c = CHR ''+'' \<or> c = CHR ''/'' then None else b64_val c)"

fun rawurl_encode :: "bytes \<Rightarrow> string" where
  "rawurl_encode [] = []"
| "rawurl_encode [a] = (let x = of_char a in [url_char (x div 4), url_char (x mod 4 * 16)])"
| "rawurl_encode [a, b] =
     (let x = of_char a; y = of_char b in [url_char (x div 4), url_char (x mod 4 * 16 + y div 16), url_char (y mod 16 * 4)])"
| "rawurl_encode (a # b # c # rest) =
     (let x = of_char a; y = of_char b; z = of_char c in
      url_char (x div 4) # url_char (x mod 4 * 16 + y div 16) # url_char (y mod 16 * 4 + z div 64) # url_char (z mod 64) #
      rawurl_encode rest)"

fun rawurl_groups :: "string \<Rightarrow> bytes option" where
  "rawurl_groups [] = Some []"
| "rawurl_groups [a] = None"
| "rawurl_groups [a, b] =
     (case (url_val a, url_val b) of (Some w, Some x) \<Rightarrow> Some [b64_byte (w * 4 + x div 16)] | _ \<Rightarrow> None)"
| "rawurl_groups [a, b, c] =
     (case (url_val a, url_val b, url_val c) of
        (Some w, Some x, Some y) \<Rightarrow> Some [b64_byte (w * 4 + x div 16), b64_byte (x * 16 + y div 4)]
      | _ \<Rightarrow> None)"
| "rawurl_groups (a # b # c # d # rest) =
     (case (url_val a, url_val b, url_val c, url_val d) of
        (Some w, Some x, Some y, Some z) \<Rightarrow>
          map_option (\<lambda>bs. b64_byte (w * 4 + x div 16) # b64_byte (x * 16 + y div 4) # b64_byte (y * 64 + z) # bs) (rawurl_groups rest)
      | _ \<Rightarrow> None)"

definition rawurl_decode :: "string \<Rightarrow> bytes option" where
  "rawurl_decode s = rawurl_groups (filter (\<lambda>c. c \<noteq> CHR 0x0A \<and> c \<noteq> CHR 0x0D) s)"

lemma char_of_small: "(n :: nat) < 256 \<Longrightarrow> char_of n = c \<longleftrightarrow> n = of_char c"
  by (auto simp: char_of_eq_iff take_bit_eq_mod)

lemma url_val_char: "n < 64 \<Longrightarrow> url_val (url_char n) = Some n"
  by (auto simp: url_char_def url_val_def b64_val_def Let_def char_of_small)

lemma url_char_line: "n < 64 \<Longrightarrow> url_char n \<noteq> CHR 0x0A \<and> url_char n \<noteq> CHR 0x0D"
  by (auto simp: url_char_def char_of_small)

lemma sextets:
  fixes x y z :: nat
  assumes "x < 256" "y < 256" "z < 256"
  shows "x div 4 < 64" "x mod 4 * 16 + y div 16 < 64" "y mod 16 * 4 + z div 64 < 64" "z mod 64 < 64"
    "x mod 4 * 16 < 64" "y mod 16 * 4 < 64"
    "x div 4 * 4 + (x mod 4 * 16 + y div 16) div 16 = x" "x div 4 * 4 + x mod 4 * 16 div 16 = x"
    "((x mod 4 * 16 + y div 16) * 16 + (y mod 16 * 4 + z div 64) div 4) mod 256 = y"
    "((x mod 4 * 16 + y div 16) * 16 + y mod 16 * 4 div 4) mod 256 = y"
    "((y mod 16 * 4 + z div 64) * 64 + z mod 64) mod 256 = z"
proof -
  have d: "x div 4 < 64" "y div 16 < 16" "z div 64 < 4" using assms by (simp_all add: div_less_iff_less_mult)
  have m: "x mod 4 < 4" "y mod 16 < 16" "z mod 64 < 64" by simp_all
  have e: "x div 4 * 4 + x mod 4 = x" "y div 16 * 16 + y mod 16 = y" "z div 64 * 64 + z mod 64 = z" by simp_all
  show "x div 4 < 64" "x mod 4 * 16 + y div 16 < 64" "y mod 16 * 4 + z div 64 < 64" "z mod 64 < 64" "x mod 4 * 16 < 64" "y mod 16 * 4 < 64"
    using d m by linarith+
  have q: "(x mod 4 * 16 + y div 16) div 16 = x mod 4" "(y mod 16 * 4 + z div 64) div 4 = y mod 16" using d by simp_all
  show "x div 4 * 4 + (x mod 4 * 16 + y div 16) div 16 = x" "x div 4 * 4 + x mod 4 * 16 div 16 = x" using e by (simp_all add: q)
  have reg: "(p * 16 + r) * 16 + t = (r * 16 + t) + 256 * p" "(p * 4 + r) * 64 + t = (r * 64 + t) + 256 * p" for p r t :: nat by simp_all
  have "(x mod 4 * 16 + y div 16) * 16 + y mod 16 = y + 256 * (x mod 4)" unfolding reg e by simp
  then show "((x mod 4 * 16 + y div 16) * 16 + (y mod 16 * 4 + z div 64) div 4) mod 256 = y"
    "((x mod 4 * 16 + y div 16) * 16 + y mod 16 * 4 div 4) mod 256 = y" using assms(2) by (simp_all add: q)
  have "(y mod 16 * 4 + z div 64) * 64 + z mod 64 = z + 256 * (y mod 16)" unfolding reg e by simp
  then show "((y mod 16 * 4 + z div 64) * 64 + z mod 64) mod 256 = z" using assms(3) by simp
qed

lemma b64_byte_of: "n mod 256 = of_char c \<Longrightarrow> b64_byte n = c"
  by (metis b64_byte_def char_of_char)

lemma of_char_256: "(of_char c :: nat) < 256"
  using nat_of_char_less_256 [of c] by simp

lemma rawurl_groups_encode: "rawurl_groups (rawurl_encode bs) = Some bs"
proof (induction bs rule: rawurl_encode.induct)
  case (4 a b c rest)
  then show ?case using sextets [OF of_char_256 [of a] of_char_256 [of b] of_char_256 [of c]] by (simp add: Let_def url_val_char b64_byte_of)
next
  case (3 a b)
  then show ?case using sextets [OF of_char_256 [of a] of_char_256 [of b] of_char_256 [of b]] by (simp add: Let_def url_val_char b64_byte_of)
next
  case (2 a)
  then show ?case using sextets [OF of_char_256 [of a] of_char_256 [of a] of_char_256 [of a]] by (simp add: Let_def url_val_char b64_byte_of)
qed simp

lemma rawurl_encode_line: "\<forall>c \<in> set (rawurl_encode bs). c \<noteq> CHR 0x0A \<and> c \<noteq> CHR 0x0D"
proof (induction bs rule: rawurl_encode.induct)
  case (4 a b c rest)
  then show ?case
    using sextets(1-4) [OF of_char_256 [of a] of_char_256 [of b] of_char_256 [of c], THEN url_char_line] by (simp add: Let_def)
next
  case (3 a b)
  then show ?case using sextets(1,2,6) [OF of_char_256 [of a] of_char_256 [of b] of_char_256 [of b], THEN url_char_line] by (simp add: Let_def)
next
  case (2 a)
  then show ?case using sextets(1,5) [OF of_char_256 [of a] of_char_256 [of a] of_char_256 [of a], THEN url_char_line] by (simp add: Let_def)
qed simp

lemma rawurl_decode_encode: "rawurl_decode (rawurl_encode bs) = Some bs"
proof -
  have "filter (\<lambda>c. c \<noteq> CHR 0x0A \<and> c \<noteq> CHR 0x0D) (rawurl_encode bs) = rawurl_encode bs"
    using rawurl_encode_line [of bs] by (simp add: filter_id_conv)
  then show ?thesis by (simp add: rawurl_decode_def rawurl_groups_encode)
qed

end
