(* ===== verification/Forwarders.thy ===== *)
theory Forwarders
  imports Reach JsonText
begin

text \<open>
  The sinks of the audit log, \<^verbatim>\<open>internal/server/audit/webhook.go\<close> and \<^verbatim>\<open>otlp.go\<close>: one HTTP
  request per batch of events.  The locale \<open>forwarder\<close> is the contract of
  \<^verbatim>\<open>forwarder.go\<close>, interpreted on both.
\<close>

section \<open>Requests on the wire\<close>

record http_request =
  hr_url :: string
  hr_headers :: "(string \<times> string) list"
  hr_body :: string

text \<open>What comes back of a request: a transport error, or the status of a response.\<close>

datatype http_answer = NoAnswer | Status int

definition acknowledged :: "http_answer \<Rightarrow> bool" where
  "acknowledged a = (case a of NoAnswer \<Rightarrow> False | Status n \<Rightarrow> 200 \<le> n \<and> n < 300)"

text \<open>The requests a forwarder has sent, in order, each with its answer.\<close>

type_synonym wire = "(http_request \<times> http_answer) list"

text \<open>
  What a send meets: whether the URL parses, and the answer to the request.
\<close>

record send_io =
  so_url_ok :: bool
  so_answer :: http_answer

section \<open>The text of an event\<close>

definition event_json :: "audit_event \<Rightarrow> string option" where
  "event_json ev =
     (case (time_json (ev_ts ev), if payload_bytes ev = [] then Some [] else map_option (\<lambda>v. [(''payload'', v)]) (raw_json (payload_bytes ev))) of
        (Some ts, Some p) \<Rightarrow>
          Some (object_text ([(''seq'', itoa (ev_seq ev)), (''ts'', ts), (''kind'', json_string (ev_kind ev))] @
            omit_empty ''actor'' (ev_actor ev) @ omit_empty ''subject'' (ev_subject ev) @
            omit_empty ''decision'' (ev_decision ev) @ p @
            [(''prev_hash'', json_string (ev_prev_hash ev)), (''hash'', json_string (ev_hash ev))] @
            omit_empty ''key_id'' (ev_key_id ev)))
      | _ \<Rightarrow> None)"

section \<open>The webhook\<close>

record webhook =
  wh_url :: string
  wh_secret :: string
  wh_timeout :: int

definition SignatureHeader :: string where
  "SignatureHeader = ''X-Omega-Signature''"

definition EventCountHeader :: string where
  "EventCountHeader = ''X-Omega-Event-Count''"

definition NewWebhookForwarder :: "webhook \<Rightarrow> err + webhook" where
  "NewWebhookForwarder cfg =
     (if trim_space (wh_url cfg) = [] then Inl (ErrInvalid ''webhook: URL is required'')
      else Inr (cfg\<lparr>wh_timeout := (if wh_timeout cfg \<le> 0 then 10 * second else wh_timeout cfg)\<rparr>))"

definition webhook_body :: "audit_event list \<Rightarrow> string option" where
  "webhook_body evs =
     (if list_all (\<lambda>ev. event_json ev \<noteq> None) evs
      then Some (object_text [(''events'', ''['' @ join_with CHR '','' (map (\<lambda>ev. the (event_json ev)) evs) @ '']'')])
      else None)"

definition Forward_webhook :: "crypto \<Rightarrow> webhook \<Rightarrow> send_io \<Rightarrow> audit_event list \<Rightarrow> wire \<Rightarrow> (err + unit) \<times> wire" where
  "Forward_webhook cr w so evs net =
     (if evs = [] then (Inr (), net)
      else (case webhook_body evs of
         None \<Rightarrow> (Inl (ErrInvalid ''webhook: marshal''), net)
       | Some body \<Rightarrow>
           if \<not> so_url_ok so then (Inl (ErrInvalid ''webhook: new request''), net)
           else
             let req = \<lparr>hr_url = wh_url w,
                        hr_headers = [(''Content-Type'', ''application/json''), (EventCountHeader, itoa (int (length evs)))] @
                          (if wh_secret w \<noteq> [] then [(SignatureHeader, ''sha256='' @ hex_encode (hmac_sha256 cr (wh_secret w) body))] else []),
                        hr_body = body\<rparr>;
                 net' = net @ [(req, so_answer so)] in
             (case so_answer so of
                NoAnswer \<Rightarrow> (Inl (ErrInvalid ''webhook: post''), net')
              | Status n \<Rightarrow> if n < 200 \<or> n \<ge> 300 then (Inl (ErrInvalid ''webhook: status''), net') else (Inr (), net'))))"

section \<open>OpenTelemetry logs\<close>

text \<open>
  The messages of the OTLP schema as far as the forwarder fills them in.  Their encoding is
  the function \<^verbatim>\<open>proto.Marshal\<close> of the protobuf library, an argument here.
\<close>

datatype any_value = StringValue string | IntValue int

type_synonym key_value = "string \<times> any_value"

record log_record =
  lr_time :: int
  lr_observed :: int
  lr_severity :: nat
  lr_severity_text :: string
  lr_body :: any_value
  lr_attributes :: "key_value list"

record export_request =
  er_resource :: "key_value list"
  er_scope :: string
  er_records :: "log_record list"

type_synonym proto_marshal = "export_request \<Rightarrow> string option"

definition strAttr :: "string \<Rightarrow> string \<Rightarrow> key_value" where
  "strAttr k v = (k, StringValue v)"

definition intAttr :: "string \<Rightarrow> int \<Rightarrow> key_value" where
  "intAttr k v = (k, IntValue v)"

definition uint64 :: "int \<Rightarrow> int" where
  "uint64 n = n mod 2 ^ 64"

definition eventToLogRecord :: "gotime \<Rightarrow> audit_event \<Rightarrow> log_record" where
  "eventToLogRecord now ev =
     \<lparr>lr_time = uint64 (unix_nano (ev_ts ev)), lr_observed = uint64 (unix_nano now),
      lr_severity = (if ev_decision ev = ''deny'' then 13 else if ev_decision ev = ''error'' then 17 else 9),
      lr_severity_text = ev_decision ev,
      lr_body = StringValue (if ev_decision ev \<noteq> [] then ev_kind ev @ '' '' @ ev_decision ev else ev_kind ev),
      lr_attributes =
        [intAttr ''omega.audit.seq'' (ev_seq ev), strAttr ''omega.audit.kind'' (ev_kind ev),
         strAttr ''omega.audit.hash'' (ev_hash ev), strAttr ''omega.audit.prev_hash'' (ev_prev_hash ev)] @
        (if ev_actor ev \<noteq> [] then [strAttr ''omega.audit.actor'' (ev_actor ev)] else []) @
        (if ev_subject ev \<noteq> [] then [strAttr ''omega.audit.subject'' (ev_subject ev)] else []) @
        (if ev_decision ev \<noteq> [] then [strAttr ''omega.audit.decision'' (ev_decision ev)] else []) @
        (if payload_bytes ev \<noteq> [] then [strAttr ''omega.audit.payload'' (payload_bytes ev)] else [])\<rparr>"

record otlp_config =
  oc_endpoint :: string
  oc_insecure :: bool
  oc_headers :: "(string \<times> string) list"
  oc_timeout :: int
  oc_service_name :: string

record otlp =
  ot_cfg :: otlp_config
  ot_endpoint :: string
  ot_resource :: "key_value list"

definition trim_prefix :: "string \<Rightarrow> string \<Rightarrow> string" where
  "trim_prefix s p = (if has_prefix s p then drop (length p) s else s)"

definition otlp_url :: "otlp_config \<Rightarrow> string \<Rightarrow> string" where
  "otlp_url cfg ep0 =
     (let ep1 = (if \<not> has_prefix ep0 ''http://'' \<and> \<not> has_prefix ep0 ''https://''
                 then (if oc_insecure cfg then ''http'' else ''https'') @ ''://'' @ ep0 else ep0);
          ep = rev (dropWhile (\<lambda>c. c = CHR ''/'') (rev ep1));
          hostAndPath = trim_prefix (trim_prefix ep ''https://'') ''http://'' in
      if \<not> contains_char CHR ''/'' hostAndPath then ep @ ''/v1/logs'' else ep)"

definition NewOTLPForwarder :: "string \<Rightarrow> otlp_config \<Rightarrow> err + otlp" where
  "NewOTLPForwarder host cfg =
     (let ep = trim_space (oc_endpoint cfg) in
      if ep = [] then Inl (ErrInvalid ''otlp: endpoint is required'')
      else
        let cfg' = cfg\<lparr>oc_timeout := (if oc_timeout cfg \<le> 0 then 10 * second else oc_timeout cfg),
                       oc_service_name := (if oc_service_name cfg = [] then ''omega-server'' else oc_service_name cfg)\<rparr> in
        Inr \<lparr>ot_cfg = cfg', ot_endpoint = otlp_url cfg ep,
             ot_resource = [strAttr ''service.name'' (oc_service_name cfg')] @
               (if host \<noteq> [] then [strAttr ''host.name'' host] else [])\<rparr>)"

definition otlp_request :: "otlp \<Rightarrow> gotime \<Rightarrow> audit_event list \<Rightarrow> export_request" where
  "otlp_request o1 now evs =
     \<lparr>er_resource = ot_resource o1, er_scope = ''github.com/kanywst/omega/audit'', er_records = map (eventToLogRecord now) evs\<rparr>"

definition Forward_otlp ::
  "proto_marshal \<Rightarrow> otlp \<Rightarrow> gotime \<times> send_io \<Rightarrow> audit_event list \<Rightarrow> wire \<Rightarrow> (err + unit) \<times> wire" where
  "Forward_otlp pm o1 c evs net =
     (if evs = [] then (Inr (), net)
      else (case pm (otlp_request o1 (fst c) evs) of
         None \<Rightarrow> (Inl (ErrInvalid ''otlp: marshal''), net)
       | Some body \<Rightarrow>
           if \<not> so_url_ok (snd c) then (Inl (ErrInvalid ''otlp: new request''), net)
           else
             let req = \<lparr>hr_url = ot_endpoint o1,
                        hr_headers = [(''Content-Type'', ''application/x-protobuf''), (''User-Agent'', ''omega-audit-otlp/1'')] @
                          oc_headers (ot_cfg o1),
                        hr_body = body\<rparr>;
                 net' = net @ [(req, so_answer (snd c))] in
             (case so_answer (snd c) of
                NoAnswer \<Rightarrow> (Inl (ErrInvalid ''otlp: post''), net')
              | Status n \<Rightarrow> if n < 200 \<or> n \<ge> 300 then (Inl (ErrInvalid ''otlp: status''), net') else (Inr (), net'))))"

lemma Forward_webhook_cases:
  assumes "Forward_webhook cr w so evs net = (r, net')"
  shows "net' = net \<and> (r = Inr () \<longrightarrow> evs = []) \<or>
    (\<exists>req. net' = net @ [(req, so_answer so)] \<and> webhook_body evs = Some (hr_body req) \<and> (r = Inr () \<longleftrightarrow> acknowledged (so_answer so)))"
  using assms unfolding Forward_webhook_def
  by (auto simp: Let_def acknowledged_def split: if_splits option.splits http_answer.splits)

lemma Forward_otlp_cases:
  assumes "Forward_otlp pm o1 c evs net = (r, net')"
  shows "net' = net \<and> (r = Inr () \<longrightarrow> evs = []) \<or>
    (\<exists>req. net' = net @ [(req, so_answer (snd c))] \<and> pm (otlp_request o1 (fst c) evs) = Some (hr_body req)
      \<and> (r = Inr () \<longleftrightarrow> acknowledged (so_answer (snd c))))"
  using assms unfolding Forward_otlp_def
  by (auto simp: Let_def acknowledged_def split: if_splits option.splits http_answer.splits)

section \<open>What a forwarder promises\<close>

text \<open>An event reached the receiver when a request that carries it was acknowledged.\<close>

definition webhook_received :: "wire \<Rightarrow> audit_event \<Rightarrow> bool" where
  "webhook_received net ev \<longleftrightarrow>
     (\<exists>(req, a) \<in> set net. acknowledged a \<and> (\<exists>evs. ev \<in> set evs \<and> webhook_body evs = Some (hr_body req)))"

definition otlp_received :: "proto_marshal \<Rightarrow> otlp \<Rightarrow> wire \<Rightarrow> audit_event \<Rightarrow> bool" where
  "otlp_received pm o1 net ev \<longleftrightarrow>
     (\<exists>(req, a) \<in> set net. acknowledged a \<and>
        (\<exists>evs now. ev \<in> set evs \<and> pm (otlp_request o1 now evs) = Some (hr_body req)))"

lemma received_mono:
  "set net \<subseteq> set net' \<Longrightarrow> webhook_received net ev \<Longrightarrow> webhook_received net' ev"
  "set net \<subseteq> set net' \<Longrightarrow> otlp_received pm o1 net ev \<Longrightarrow> otlp_received pm o1 net' ev"
  unfolding webhook_received_def otlp_received_def by blast+

locale forwarder =
  fixes send :: "'c \<Rightarrow> audit_event list \<Rightarrow> 'w \<Rightarrow> (err + unit) \<times> 'w"
    and received :: "'w \<Rightarrow> audit_event \<Rightarrow> bool"
  assumes batch_acknowledged: "send c evs w = (Inr (), w') \<Longrightarrow> ev \<in> set evs \<Longrightarrow> received w' ev"
    and received_stays: "send c evs w = (r, w') \<Longrightarrow> received w ev \<Longrightarrow> received w' ev"

interpretation wf: forwarder "Forward_webhook cr w" webhook_received for cr w
proof unfold_locales
  fix c evs net net' ev assume s: "Forward_webhook cr w c evs net = (Inr (), net')" "ev \<in> set evs"
  then show "webhook_received net' ev"
    using Forward_webhook_cases [OF s(1)] by (fastforce simp: webhook_received_def)
next
  fix c evs net r net' ev assume s: "Forward_webhook cr w c evs net = (r, net')" "webhook_received net ev"
  then show "webhook_received net' ev"
    using Forward_webhook_cases [OF s(1)] by (auto intro: received_mono(1) [OF _ s(2)])
qed

interpretation ofw: forwarder "Forward_otlp pm o1" "otlp_received pm o1" for pm o1
proof unfold_locales
  fix c evs net net' ev assume s: "Forward_otlp pm o1 c evs net = (Inr (), net')" "ev \<in> set evs"
  then show "otlp_received pm o1 net' ev"
    using Forward_otlp_cases [OF s(1)] by (fastforce simp: otlp_received_def)
next
  fix c evs net r net' ev assume s: "Forward_otlp pm o1 c evs net = (r, net')" "otlp_received pm o1 net ev"
  then show "otlp_received pm o1 net' ev"
    using Forward_otlp_cases [OF s(1)] by (auto intro: received_mono(2) [OF _ s(2)])
qed

end
