(* ===== verification/AuditPump.thy ===== *)
theory AuditPump
  imports Forwarders
begin

text \<open>
  The pump of \<^verbatim>\<open>internal/server/audit/pump.go\<close>, which hands the rows of the log to a
  forwarder: as one tick, and call by call among the writes and pumps of other replicas.
\<close>

section \<open>The pump\<close>

record pump =
  pu_name :: string
  pu_batch :: int
  pu_poll :: int

definition NewPump :: "string \<Rightarrow> int \<Rightarrow> int \<Rightarrow> pump" where
  "NewPump name batch poll =
     \<lparr>pu_name = name, pu_batch = (if batch \<le> 0 then 100 else batch), pu_poll = (if poll \<le> 0 then second else poll)\<rparr>"

text \<open>
  A tick of one pump with nothing in between, and the same tick call by call: between two
  calls other replicas may write the store, and the process may stop.
\<close>

type_synonym ('c, 'w) send = "'c \<Rightarrow> audit_event list \<Rightarrow> 'w \<Rightarrow> (err + unit) \<times> 'w"

definition tick :: "('c, 'w) send \<Rightarrow> pump \<Rightarrow> io \<Rightarrow> 'c \<Rightarrow> store \<times> 'w \<Rightarrow> store \<times> 'w" where
  "tick send p io c sw =
     (let (s, w) = sw in
      if \<not> IsLeader s then (s, w)
      else (case AuditForwardSeq io (pu_name p) s of
         Inl _ \<Rightarrow> (s, w)
       | Inr since \<Rightarrow>
           (case ListAudit io since (pu_batch p) s of
              Inl _ \<Rightarrow> (s, w)
            | Inr events \<Rightarrow>
                if events = [] then (s, w)
                else (case send c events w of
                   (Inl _, w') \<Rightarrow> (s, w')
                 | (Inr _, w') \<Rightarrow> (snd (SetAuditForwardSeq io (pu_name p) (ev_seq (last events)) s), w')))))"

datatype phase = Idle | Since int | Listed "audit_event list" | Delivered int

fun tick_call :: "('c, 'w) send \<Rightarrow> pump \<Rightarrow> io \<Rightarrow> 'c \<Rightarrow> store \<times> 'w \<Rightarrow> phase \<Rightarrow> (store \<times> 'w) \<times> phase" where
  "tick_call send p io c (s, w) Idle =
     ((s, w), if \<not> IsLeader s then Idle
              else (case AuditForwardSeq io (pu_name p) s of Inl _ \<Rightarrow> Idle | Inr since \<Rightarrow> Since since))"
| "tick_call send p io c (s, w) (Since since) =
     ((s, w), case ListAudit io since (pu_batch p) s of
                Inl _ \<Rightarrow> Idle
              | Inr events \<Rightarrow> if events = [] then Idle else Listed events)"
| "tick_call send p io c (s, w) (Listed events) =
     (case send c events w of
        (Inl _, w') \<Rightarrow> ((s, w'), Idle)
      | (Inr _, w') \<Rightarrow> ((s, w'), Delivered (ev_seq (last events))))"
| "tick_call send p io c (s, w) (Delivered seq) =
     ((snd (SetAuditForwardSeq io (pu_name p) seq s), w), Idle)"

section \<open>The log grows at its end\<close>

text \<open>What a write other than the pump's own may do to the log and the watermarks.\<close>

definition forward_view :: "db \<Rightarrow> audit_row list \<times> int \<times> forward_row list" where
  "forward_view d = (db_audit d, db_audit_seq d, db_forward d)"

definition log_grows :: "db \<Rightarrow> db \<Rightarrow> bool" where
  "log_grows d d' \<longleftrightarrow> db_forward d' = db_forward d \<and> db_audit_seq d \<le> db_audit_seq d'
     \<and> (\<exists>rows. db_audit d' = db_audit d @ rows \<and> (\<forall>r \<in> set rows. db_audit_seq d < a_seq r))"

lemma log_grows_same: "forward_view d' = forward_view d \<Longrightarrow> log_grows d d'"
  by (simp add: forward_view_def log_grows_def)

lemma log_grows_trans: "log_grows a b \<Longrightarrow> log_grows b c \<Longrightarrow> log_grows a c"
  unfolding log_grows_def by fastforce

lemma append_tx_grows: "append_tx cr io s ev d = Inr (ev', d') \<Longrightarrow> log_grows d d'"
  unfolding append_tx_def
  by (drule appendAuditTx_effect) (auto simp: log_grows_def appended_event_def stored_row_def event_row_def Let_def)

lemma fixes_grows: "tx_fixes forward_view b \<Longrightarrow> b d = Inr (x, d') \<Longrightarrow> log_grows d d'"
  by (rule log_grows_same) (rule tx_fixesD)

lemma other_fixes_view: "tx_fixes other_tables b \<Longrightarrow> tx_fixes forward_view b"
proof -
  have "forward_view d = forward_view (other_tables d)" for d by (simp add: forward_view_def other_tables_def)
  then show "tx_fixes other_tables b \<Longrightarrow> tx_fixes forward_view b" unfolding tx_fixes_def by metis
qed

lemma log_grows_once: "log_grows (d\<lparr>db_once := t\<rparr>) d' = log_grows d d'"
  by (simp add: log_grows_def)

lemma once_grows:
  assumes "append_once_tx cr io s key ev d = Inr (x, d')"
  shows "log_grows d d'"
  using assms
proof (cases rule: once_tx_steps)
  case (1 t)
  then show ?thesis by (simp add: log_grows_def)
next
  case (2 t e e')
  from append_tx_grows [OF this(1)] show ?thesis by (simp add: log_grows_once)
qed

lemma provision_grows: "scim_tx cr io s idp (scim_fn lower io idp cs ev) d = Inr (ev', d') \<Longrightarrow> log_grows d d'"
proof -
  assume tx: "scim_tx cr io s idp (scim_fn lower io idp cs ev) d = Inr (ev', d')"
  obtain tch d1 d2 where calls: "run_calls lower io idp cs [] d = Inr (tch, d1)"
    and sync: "syncGroups io idp (sort tch) d1 = Inr ((), d2)"
    and app: "if ev_kind ev \<noteq> [] then append_tx cr io s ev d2 = Inr (ev', d') else d' = d2 \<and> ev' = ev"
    using scim_tx_steps [OF tx] by metis
  have "scim_frame d2 = scim_frame d"
    using tx_fixesD [OF run_calls_frame calls] tx_fixesD [OF syncGroups_frame sync] by simp
  moreover have "forward_view d = forward_view (scim_frame d)" for d
    by (simp add: forward_view_def scim_frame_def)
  ultimately have "forward_view d2 = forward_view d" by metis
  then have "log_grows d d2" by (rule log_grows_same)
  then show ?thesis using app append_tx_grows log_grows_trans by (auto split: if_splits)
qed

lemma write_policy_view: "write_policy cr io i cur nxt d = Inr (x, d') \<Longrightarrow> forward_view d' = forward_view d"
  by (auto simp: write_policy_def delete_policy_def insert_policy_def update_policy_def tx_simps tx_stmt_def forward_view_def Let_def split: option.splits if_splits)

lemma change_grows:
  assumes "change_policy_tx cr io s i change d = Inr (x, d')"
  shows "log_grows d d'"
proof -
  obtain nxt ev ev' w d1 where w: "write_policy cr io i (find_policy cr i d) nxt d = Inr (w, d1)" and app: "append_tx cr io s ev d1 = Inr (ev', d')"
    using assms by (auto simp: change_policy_tx_def tx_simps split: sum.splits if_splits)
  from log_grows_trans [OF log_grows_same [OF write_policy_view [OF w]] append_tx_grows [OF app]] show ?thesis .
qed

lemma replace_cas_view: "tx_fixes forward_view (replace_cas_tx cr io kr td backend cas)"
proof -
  have ins: "tx_fixes forward_view (insert_cas io row cas)" for row
  proof (induction cas)
    case (Cons c cas)
    have "tx_fixes forward_view (tx_stmt io l (\<lambda>d.
        case sql_insert ca_key x (db_cas d) of None \<Rightarrow> Inl e | Some t \<Rightarrow> Inr ((), d\<lparr>db_cas := t\<rparr>)))" for l x e
      by (auto simp: tx_fixes_def tx_stmt_def forward_view_def split: if_splits option.splits)
    from tx_fixes_bind [OF this Cons] show ?case by (simp add: tx_fixes_fail)
  qed (simp add: tx_fixes_return)
  have "tx_fixes forward_view (tx_exec io l (\<lambda>d. d\<lparr>db_cas := f d\<rparr>))" for l f
    by (auto simp: tx_fixes_def tx_simps forward_view_def)
  then show ?thesis unfolding replace_cas_tx_def by (cases "active_key kr") (auto intro: tx_fixes_bind ins)
qed

context db_write
begin

lemma grows:
  assumes "outcome (op io s) = (b, s')" "\<And>x d'. body io s (st_db s) = Inr (x, d') \<Longrightarrow> log_grows (st_db s) d'"
  shows "log_grows (st_db s) (st_db s')"
proof -
  obtain r where "op io s = (r, s')" using assms(1) by (cases "op io s") (auto simp: outcome_def)
  from ends [OF this] assms(2) show ?thesis by (auto simp: log_grows_same)
qed

end

lemma Once_grows:
  assumes "outcome (AppendAuditOnce cr io key ev s) = (b, s')"
  shows "log_grows (st_db s) (st_db s')"
proof -
  obtain r where run: "AppendAuditOnce cr io key ev s = (r, s')"
    using assms by (cases "AppendAuditOnce cr io key ev s") (auto simp: outcome_def)
  have pr: "log_grows d (st_db (prune_once io s2)) = log_grows d (st_db s2)" for d s2
    by (simp add: log_grows_def prune_once_def Let_def)
  show ?thesis
    using AppendAuditOnce_ends [OF run] log_grows_same [OF refl, of "st_db s"] by (auto simp: pr auditCommitted_def dest: once_grows)
qed

lemma save_seq_view: "tx_fixes forward_view (\<lambda>d. Inr ((), save_seq td q dg t d))"
  by (auto simp: tx_fixes_def save_seq_def forward_view_def)

lemma exec_grows:
  assumes "exec_op cr lower x s = (b, s')" "\<not> is_forward x"
  shows "log_grows (st_db s) (st_db s')"
proof (cases x)
  case (Append io ev)
  with assms(1) have "outcome (AppendAudit cr io ev s) = (b, s')" by simp
  from aa.grows [OF this append_tx_grows] show ?thesis .
next
  case (AppendOnce io key ev)
  with assms(1) show ?thesis by (intro Once_grows) simp
next
  case (SetForward io name q)
  with assms(2) show ?thesis by simp
next
  case (CreateDom io dm)
  with assms(1) have "outcome (CreateDomain io dm s) = (b, s')" by simp
  from cd.grows [OF this fixes_grows [OF other_fixes_view [OF domain_frames(1)]]] show ?thesis .
next
  case (DeleteDom io name)
  with assms(1) have "outcome (DeleteDomain io name s) = (b, s')" by simp
  from dd.grows [OF this fixes_grows [OF other_fixes_view [OF domain_frames(2)]]] show ?thesis .
next
  case (AddAdmin io dn who)
  with assms(1) have "outcome (AddDomainAdmin io dn who s) = (b, s')" by simp
  from ada.grows [OF this fixes_grows [OF other_fixes_view [OF domain_frames(3)]]] show ?thesis .
next
  case (RemoveAdmin io dn who)
  with assms(1) have "outcome (RemoveDomainAdmin io dn who s) = (b, s')" by simp
  from rda.grows [OF this fixes_grows [OF other_fixes_view [OF domain_frames(4)]]] show ?thesis .
next
  case (CreateGrp io g)
  with assms(1) have "outcome (CreateGroup io g s) = (b, s')" by simp
  from cg.grows [OF this fixes_grows [OF other_fixes_view [OF group_frames(1)]]] show ?thesis .
next
  case (DeleteGrp io dn name)
  with assms(1) have "outcome (DeleteGroup io dn name s) = (b, s')" by simp
  from dg.grows [OF this fixes_grows [OF other_fixes_view [OF group_frames(2)]]] show ?thesis .
next
  case (PutMember io dn name m)
  with assms(1) have "outcome (PutGroupMember io dn name m s) = (b, s')" by simp
  from pgm.grows [OF this fixes_grows [OF other_fixes_view [OF group_frames(3)]]] show ?thesis .
next
  case (RemoveMember io dn name who)
  with assms(1) have "outcome (RemoveGroupMember io dn name who s) = (b, s')" by simp
  from rgm.grows [OF this fixes_grows [OF other_fixes_view [OF group_frames(4)]]] show ?thesis .
next
  case (SwapMember io dn name who expect want)
  with assms(1) have "outcome (SwapGroupMember io dn name who expect want s) = (b, s')" by simp
  from sgm.grows [OF this fixes_grows [OF other_fixes_view [OF group_frames(5)]]] show ?thesis .
next
  case (DeleteEmptyGrp io dn name)
  with assms(1) have "outcome (DeleteEmptyGroup io dn name s) = (b, s')" by simp
  from deg.grows [OF this fixes_grows [OF other_fixes_view [OF delete_empty_frame]]] show ?thesis .
next
  case (RestoreGrp io g)
  with assms(1) have "outcome (RestoreGroup io g s) = (b, s')" by simp
  from rg.grows [OF this fixes_grows [OF other_fixes_view [OF group_frames(6)]]] show ?thesis .
next
  case (Provision io idp cs ev)
  with assms(1) have "outcome (SCIM cr io idp (scim_fn lower io idp cs ev) s) = (b, s')" by simp
  from sc.grows [where fn = "\<lambda>io. scim_fn lower io idp cs ev", OF this provision_grows] show ?thesis .
next
  case (Change io i change)
  with assms(1) have "outcome (ChangePolicy cr io i change s) = (b, s')" by simp
  from cp.grows [OF this change_grows] show ?thesis .
next
  case (ReplaceCAs io td backend cas)
  with assms(1) have "outcome (ReplaceUpstreamCAs cr io td backend cas s) = (b, s')" by simp
  from ru.grows [OF this fixes_grows [OF replace_cas_view]] show ?thesis .
next
  case (SaveSequence io td q dg)
  with assms(1) have "outcome (SaveBundleSequence io td q dg s) = (b, s')" by simp
  from sbs.grows [OF this fixes_grows [OF save_seq_view]] show ?thesis .
qed

section \<open>Pumps of several replicas\<close>

text \<open>
  The replicas share the database and each runs the pump of a forwarder, call by call;
  between two calls anyone may write, elections may move the leader, and a process may stop.
\<close>

fun foreign :: "pump \<Rightarrow> store_op \<Rightarrow> bool" where
  "foreign p (SetForward io name q) \<longleftrightarrow> name \<noteq> pu_name p"
| "foreign p _ \<longleftrightarrow> True"

definition watermark :: "string \<Rightarrow> db \<Rightarrow> int" where
  "watermark name d = (case sql_row (\<lambda>r. f_name r = name) (db_forward d) of None \<Rightarrow> 0 | Some r \<Rightarrow> f_last_seq r)"

inductive pump_reach ::
  "('c, 'w) send \<Rightarrow> crypto \<Rightarrow> (string \<Rightarrow> string) \<Rightarrow> audit_keyring option \<Rightarrow> pump \<Rightarrow> db \<Rightarrow> 'w \<Rightarrow> (nat \<Rightarrow> phase) \<Rightarrow> bool"
  for send cr lower kr p where
  pump_start: "store_reach cr lower kr s \<Longrightarrow> \<forall>r \<in> set (db_forward (st_db s)). f_name r \<noteq> pu_name p \<Longrightarrow>
    pump_reach send cr lower kr p (st_db s) w (\<lambda>_. Idle)"
| pump_write: "pump_reach send cr lower kr p (st_db s) w ps \<Longrightarrow> st_keyring s = kr \<Longrightarrow> op_ok cr x \<Longrightarrow> foreign p x \<Longrightarrow>
    exec_op cr lower x s = (b, s') \<Longrightarrow> pump_reach send cr lower kr p (st_db s') w ps"
| pump_call: "pump_reach send cr lower kr p (st_db s) w ps \<Longrightarrow> st_keyring s = kr \<Longrightarrow>
    tick_call send p io c (s, w) (ps i) = ((s', w'), ph) \<Longrightarrow> pump_reach send cr lower kr p (st_db s') w' (ps(i := ph))"
| pump_stop: "pump_reach send cr lower kr p d w ps \<Longrightarrow> pump_reach send cr lower kr p d w (ps(i := Idle))"

lemma AuditForwardSeq_Inr: "AuditForwardSeq io name s = Inr n \<Longrightarrow> n = watermark name (st_db s)"
  by (auto simp: AuditForwardSeq_def run_query_def watermark_def split: if_splits)

lemma sql_row_upsert_name:
  assumes "\<And>x. f_name (f x) = f_name x"
  shows "sql_row (\<lambda>x. f_name x = n) (sql_upsert f_name r f t) =
    (if n = f_name r then Some (case sql_row (\<lambda>x. f_name x = n) t of None \<Rightarrow> r | Some x \<Rightarrow> f x) else sql_row (\<lambda>x. f_name x = n) t)"
proof (cases "n = f_name r")
  case False
  then have "filter (\<lambda>x. f_name x = n) (map (\<lambda>x. if f_name x = f_name r then f x else x) t) = filter (\<lambda>x. f_name x = n) t"
    using assms by (induction t) auto
  with False show ?thesis by (auto simp: sql_row_def sql_upsert_def)
qed (use assms in \<open>simp add: sql_row_upsert\<close>)

lemma SetAuditForwardSeq_effect:
  assumes "SetAuditForwardSeq io name q s = (r, s')"
  shows "s' = s \<or> (\<exists>t. s' = s\<lparr>st_db := (st_db s)\<lparr>db_forward := t\<rparr>\<rparr> \<and> watermark name (st_db s') = q
     \<and> (\<forall>n. n \<noteq> name \<longrightarrow> watermark n (st_db s') = watermark n (st_db s)))"
proof -
  define row where "row = \<lparr>f_name = name, f_last_seq = q, f_updated_at = unix_nano (io_now io)\<rparr>"
  define t where "t = sql_upsert f_name row (\<lambda>r. r\<lparr>f_last_seq := q, f_updated_at := unix_nano (io_now io)\<rparr>) (db_forward (st_db s))"
  have "s' = s \<or> s' = s\<lparr>st_db := (st_db s)\<lparr>db_forward := t\<rparr>\<rparr>"
    using assms by (auto simp: SetAuditForwardSeq_def run_exec_def t_def row_def split: if_splits)
  moreover have "watermark name ((st_db s)\<lparr>db_forward := t\<rparr>) = q"
    "n \<noteq> name \<Longrightarrow> watermark n ((st_db s)\<lparr>db_forward := t\<rparr>) = watermark n (st_db s)" for n
    by (auto simp: watermark_def t_def row_def sql_row_upsert_name split: option.splits)
  ultimately show ?thesis by auto
qed

lemma settings_keyring_forward: "SetAuditForwardSeq io name q s = (r, s') \<Longrightarrow> st_keyring s' = st_keyring s"
  by (drule SetAuditForwardSeq_effect) auto

lemma foreign_write:
  assumes "exec_op cr lower x s = (b, s')" "foreign p x"
  shows "watermark (pu_name p) (st_db s') = watermark (pu_name p) (st_db s)
    \<and> (\<exists>t. log_grows ((st_db s)\<lparr>db_forward := t\<rparr>) (st_db s'))"
proof (cases "is_forward x")
  case True
  then obtain io name q where x: "x = SetForward io name q" by (cases x) auto
  obtain r where "SetAuditForwardSeq io name q s = (r, s')" using assms(1) x by (cases "SetAuditForwardSeq io name q s") (auto simp: outcome_def)
  from SetAuditForwardSeq_effect [OF this] assms(2) x show ?thesis by (auto intro!: exI log_grows_same simp: forward_view_def)
next
  case False
  from exec_grows [OF assms(1) this] show ?thesis
    by (auto simp: watermark_def log_grows_def intro: exI [of _ "db_forward (st_db s')"])
qed

text \<open>The rows an offset leaves over, in order, and the part of them a batch takes.\<close>

definition backlog :: "string \<Rightarrow> db \<Rightarrow> audit_event list" where
  "backlog name d = map scan_event (filter (\<lambda>r. a_seq r > watermark name d) (db_audit d))"

definition batch_size :: "pump \<Rightarrow> nat" where
  "batch_size p = nat (if pu_batch p \<le> 0 then 100 else if pu_batch p > 1000 then 1000 else pu_batch p)"

lemma ListAudit_Inr:
  assumes "ListAudit io n (pu_batch p) s = Inr evs" "sorted_wrt (<) (map a_seq (db_audit (st_db s)))"
  shows "evs = map scan_event (take (batch_size p) (filter (\<lambda>r. a_seq r > n) (db_audit (st_db s))))"
proof -
  have "sorted_wrt (<) (map a_seq (filter (\<lambda>r. a_seq r > n) (db_audit (st_db s))))"
    using assms(2) by (simp add: sorted_wrt_map sorted_wrt_filter)
  then have "sorted (map a_seq (filter (\<lambda>r. a_seq r > n) (db_audit (st_db s))))" by (rule strict_sorted_imp_sorted)
  then have "sort_key a_seq (filter (\<lambda>r. a_seq r > n) (db_audit (st_db s))) = filter (\<lambda>r. a_seq r > n) (db_audit (st_db s))"
    by (rule sort_key_id_if_sorted)
  with assms(1) show ?thesis by (auto simp: ListAudit_def run_query_def batch_size_def Let_def split: if_splits)
qed

lemma sorted_take_last:
  fixes f :: "'a \<Rightarrow> 'b::linorder"
  assumes "sorted_wrt (<) (map f xs)" "x \<in> set xs" "f x \<le> f (last (take k xs))" "take k xs \<noteq> []"
  shows "x \<in> set (take k xs)"
proof (rule ccontr)
  assume "x \<notin> set (take k xs)"
  with assms(2) have "x \<in> set (drop k xs)" by (metis UnE append_take_drop_id set_append)
  moreover have "sorted_wrt (<) (map f (take k xs) @ map f (drop k xs))"
    using assms(1) by (metis append_take_drop_id map_append)
  ultimately have "f (last (take k xs)) < f x" using assms(4) by (auto simp: sorted_wrt_append)
  with assms(3) show False by simp
qed

section \<open>What was marked was delivered\<close>

lemma log_grows_old:
  "log_grows (d\<lparr>db_forward := t\<rparr>) d' \<Longrightarrow> r \<in> set (db_audit d') \<Longrightarrow> a_seq r \<le> n \<Longrightarrow> n \<le> db_audit_seq d \<Longrightarrow> r \<in> set (db_audit d)"
  by (force simp: log_grows_def)

lemma log_grows_seq: "log_grows (d\<lparr>db_forward := t\<rparr>) d' \<Longrightarrow> n \<le> db_audit_seq d \<Longrightarrow> n \<le> db_audit_seq d'"
  by (simp add: log_grows_def)

context forwarder
begin

definition delivered_upto :: "db \<Rightarrow> 'w \<Rightarrow> int \<Rightarrow> bool" where
  "delivered_upto d w n \<longleftrightarrow> n \<le> db_audit_seq d \<and> (\<forall>r \<in> set (db_audit d). a_seq r \<le> n \<longrightarrow> received w (scan_event r))"

fun phase_ok :: "db \<Rightarrow> 'w \<Rightarrow> phase \<Rightarrow> bool" where
  "phase_ok d w Idle \<longleftrightarrow> True"
| "phase_ok d w (Since n) \<longleftrightarrow> delivered_upto d w n"
| "phase_ok d w (Listed evs) \<longleftrightarrow> evs \<noteq> [] \<and> ev_seq (last evs) \<le> db_audit_seq d \<and>
     (\<forall>r \<in> set (db_audit d). a_seq r \<le> ev_seq (last evs) \<longrightarrow> received w (scan_event r) \<or> scan_event r \<in> set evs)"
| "phase_ok d w (Delivered n) \<longleftrightarrow> delivered_upto d w n"

definition pump_inv :: "crypto \<Rightarrow> audit_keyring option \<Rightarrow> string \<Rightarrow> db \<Rightarrow> 'w \<Rightarrow> (nat \<Rightarrow> phase) \<Rightarrow> bool" where
  "pump_inv cr kr name d w ps \<longleftrightarrow> sys_inv cr kr d \<and> delivered_upto d w (watermark name d) \<and> (\<forall>i. phase_ok d w (ps i))"

lemma delivered_grows: "log_grows (d\<lparr>db_forward := t\<rparr>) d' \<Longrightarrow> delivered_upto d w n \<Longrightarrow> delivered_upto d' w n"
  by (auto simp: delivered_upto_def log_grows_seq dest: log_grows_old)

lemma phase_grows: "log_grows (d\<lparr>db_forward := t\<rparr>) d' \<Longrightarrow> phase_ok d w ph \<Longrightarrow> phase_ok d' w ph"
  by (cases ph) (auto simp: delivered_grows log_grows_seq dest: log_grows_old)

lemma sent_keeps:
  assumes "send c evs w = (r, w')"
  shows "delivered_upto d w n \<Longrightarrow> delivered_upto d w' n" "phase_ok d w ph \<Longrightarrow> phase_ok d w' ph"
proof -
  show d: "delivered_upto d w n \<Longrightarrow> delivered_upto d w' n" for n
    using received_stays [OF assms] by (auto simp: delivered_upto_def)
  show "phase_ok d w ph \<Longrightarrow> phase_ok d w' ph" by (cases ph) (use d received_stays [OF assms] in auto)
qed

lemma listed_ok:
  fixes p :: pump
  assumes "ListAudit io n (pu_batch p) s = Inr evs" "evs \<noteq> []" "audit_inv cr kr (st_db s)" "delivered_upto (st_db s) w n"
  shows "phase_ok (st_db s) w (Listed evs)"
proof -
  let ?f = "filter (\<lambda>r. a_seq r > n) (db_audit (st_db s))" and ?k = "batch_size p"
  have srt: "sorted_wrt (<) (map a_seq (db_audit (st_db s)))" using assms(3) by (simp add: audit_inv_def)
  then have srtf: "sorted_wrt (<) (map a_seq ?f)" by (simp add: sorted_wrt_map sorted_wrt_filter)
  have evs: "evs = map scan_event (take ?k ?f)" using ListAudit_Inr [OF assms(1) srt] .
  then have ne: "take ?k ?f \<noteq> []" using assms(2) by auto
  then have last: "ev_seq (last evs) = a_seq (last (take ?k ?f))" by (simp add: evs last_map scan_event_def)
  have "last (take ?k ?f) \<in> set (db_audit (st_db s))" using last_in_set [OF ne] by (auto dest: in_set_takeD)
  then have "ev_seq (last evs) \<le> db_audit_seq (st_db s)" using assms(3) last by (simp add: audit_inv_def)
  moreover have "received w (scan_event r) \<or> scan_event r \<in> set evs"
    if r: "r \<in> set (db_audit (st_db s))" "a_seq r \<le> ev_seq (last evs)" for r
  proof (cases "a_seq r \<le> n")
    case True
    then show ?thesis using r assms(4) by (auto simp: delivered_upto_def)
  next
    case False
    then have "r \<in> set ?f" using r(1) by auto
    from sorted_take_last [OF srtf this _ ne] r(2) last have "r \<in> set (take ?k ?f)" by simp
    then show ?thesis by (simp add: evs)
  qed
  ultimately show ?thesis using assms(2) by simp
qed

lemma marked_ok:
  assumes "SetAuditForwardSeq io name q s = (r, s')" "pump_inv cr kr name (st_db s) w ps" "delivered_upto (st_db s) w q" "st_keyring s = kr"
  shows "pump_inv cr kr name (st_db s') w (ps(i := Idle))"
proof -
  have "sys_inv cr (st_keyring s) (st_db s)" using assms(2,4) by (simp add: pump_inv_def)
  moreover have "exec_op cr lower (SetForward io name q) s = (\<not> isl r, s')" using assms(1) by (simp add: outcome_def)
  ultimately have "sys_inv cr kr (st_db s')" using exec_system [of cr _ "SetForward io name q"] assms(4) by fastforce
  moreover have "delivered_upto (st_db s') w (watermark name (st_db s'))" "\<And>j. phase_ok (st_db s') w (ps j)"
  proof -
    have del: "delivered_upto (d\<lparr>db_forward := t\<rparr>) w n = delivered_upto d w n" for d t n by (simp add: delivered_upto_def)
    have ph: "phase_ok (d\<lparr>db_forward := t\<rparr>) w ph = phase_ok d w ph" for d t ph by (cases ph) (simp_all add: del)
    show "delivered_upto (st_db s') w (watermark name (st_db s'))" "\<And>j. phase_ok (st_db s') w (ps j)"
      using SetAuditForwardSeq_effect [OF assms(1)] assms(2,3) by (auto simp: pump_inv_def del ph)
  qed
  ultimately show ?thesis by (simp add: pump_inv_def)
qed

lemma call_keeps:
  assumes "tick_call send p io c (s, w) (ps i) = ((s', w'), ph)" "pump_inv cr kr (pu_name p) (st_db s) w ps" "st_keyring s = kr"
  shows "pump_inv cr kr (pu_name p) (st_db s') w' (ps(i := ph))"
proof (cases "ps i")
  case Idle
  then show ?thesis using assms by (auto simp: pump_inv_def dest: AuditForwardSeq_Inr split: if_splits sum.splits)
next
  case (Since n)
  have "audit_inv cr kr (st_db s)" "delivered_upto (st_db s) w n"
    using assms(2) spec [of "\<lambda>i. phase_ok (st_db s) w (ps i)" i] Since by (simp_all add: pump_inv_def sys_inv_def)
  from listed_ok [of io n p s, OF _ _ this] Since assms show ?thesis by (auto simp: pump_inv_def split: if_splits sum.splits)
next
  case (Listed evs)
  obtain r w1 where send: "send c evs w = (r, w1)" by (cases "send c evs w")
  have ok: "phase_ok (st_db s) w (Listed evs)" using assms(2) Listed by (metis pump_inv_def)
  have keep: "pump_inv cr kr (pu_name p) (st_db s) w1 ps" using assms(2) sent_keeps [OF send] by (simp add: pump_inv_def)
  have "delivered_upto (st_db s) w1 (ev_seq (last evs))" if "r = Inr ()"
    using ok batch_acknowledged [of c evs w w1] received_stays [OF send] send that by (auto simp: delivered_upto_def)
  with keep Listed assms(1) send show ?thesis by (cases r) (auto simp: pump_inv_def)
next
  case (Delivered q)
  have "delivered_upto (st_db s) w q" using assms(2) Delivered phase_ok.simps(4) by (metis pump_inv_def)
  with marked_ok [of io "pu_name p" q s _ s'] Delivered assms show ?thesis
    by (cases "SetAuditForwardSeq io (pu_name p) q s") auto
qed

lemma pump_reach_inv: "pump_reach send cr lower kr p d w ps \<Longrightarrow> pump_inv cr kr (pu_name p) d w ps"
proof (induction rule: pump_reach.induct)
  case (pump_start s w)
  have sys: "sys_inv cr kr (st_db s)" using store_reach_inv [OF pump_start(1)] by simp
  then have "\<forall>r \<in> set (db_audit (st_db s)). 0 < a_seq r" "0 \<le> db_audit_seq (st_db s)" by (auto simp: sys_inv_def audit_inv_def)
  moreover have "watermark (pu_name p) (st_db s) = 0" using pump_start(2) by (simp add: watermark_def sql_row_None [THEN iffD2])
  ultimately show ?case using sys by (auto simp: pump_inv_def delivered_upto_def)
next
  case (pump_write s w ps x b s')
  obtain t where "log_grows ((st_db s)\<lparr>db_forward := t\<rparr>) (st_db s')" "watermark (pu_name p) (st_db s') = watermark (pu_name p) (st_db s)"
    using foreign_write [OF pump_write.hyps(5,4)] by blast
  with exec_system [OF pump_write.hyps(5) _ pump_write.hyps(3)] pump_write.IH pump_write.hyps(2) show ?case
    by (auto simp: pump_inv_def intro: delivered_grows phase_grows)
next
  case (pump_call s w ps io c i s' w' ph)
  from call_keeps [OF pump_call.hyps(3) pump_call.IH pump_call.hyps(2)] show ?case .
next
  case (pump_stop d w ps i)
  then show ?case by (simp add: pump_inv_def)
qed

end

section \<open>A tick as an operation on the backlog\<close>

lemma sorted_filter_last:
  fixes f :: "'a \<Rightarrow> 'b::linorder"
  assumes "sorted_wrt (<) (map f xs)" "take k xs \<noteq> []"
  shows "filter (\<lambda>x. f (last (take k xs)) < f x) xs = drop k xs"
proof -
  let ?l = "f (last (take k xs))"
  have s: "sorted_wrt (<) (map f (take k xs) @ map f (drop k xs))" using assms(1) by (metis append_take_drop_id map_append)
  then have a: "\<forall>x \<in> set (drop k xs). ?l < f x" using assms(2) by (auto simp: sorted_wrt_append)
  obtain ys y where "take k xs = ys @ [y]" using assms(2) by (cases "take k xs" rule: rev_cases) auto
  then have "\<forall>x \<in> set (take k xs). f x \<le> ?l" using s by (auto simp: sorted_wrt_append less_imp_le)
  then have "filter (\<lambda>x. ?l < f x) (take k xs) = []" by (auto simp: filter_empty_conv)
  moreover have "filter (\<lambda>x. ?l < f x) (drop k xs) = drop k xs" using a by (simp add: filter_id_conv)
  ultimately show ?thesis by (metis append_Nil append_take_drop_id filter_append)
qed

text \<open>The watermark set to the last event of a batch leaves the backlog without the batch.\<close>

lemma backlog_marked:
  assumes "audit_inv cr kr d" "take k (backlog name d) \<noteq> []" "db_audit d' = db_audit d"
    "watermark name d' = ev_seq (last (take k (backlog name d)))"
  shows "backlog name d' = drop k (backlog name d)"
proof -
  let ?f = "filter (\<lambda>r. a_seq r > watermark name d) (db_audit d)"
  have srt: "sorted_wrt (<) (map a_seq ?f)" using assms(1) by (simp add: audit_inv_def sorted_wrt_map sorted_wrt_filter)
  have ne: "take k ?f \<noteq> []" using assms(2) by (auto simp: backlog_def)
  then have m: "watermark name d' = a_seq (last (take k ?f))"
    using assms(4) by (simp add: backlog_def take_map last_map scan_event_def)
  have "last (take k ?f) \<in> set ?f" using last_in_set [OF ne] by (rule in_set_takeD)
  then have "watermark name d < watermark name d'" by (simp add: m)
  then have "filter (\<lambda>r. a_seq r > watermark name d') (db_audit d') = filter (\<lambda>r. a_seq r > watermark name d') ?f"
    by (auto simp: assms(3) intro: filter_cong)
  also have "\<dots> = drop k ?f" using sorted_filter_last [OF srt ne] by (simp add: m)
  finally show ?thesis by (simp add: backlog_def drop_map)
qed

lemma listed_backlog:
  assumes "audit_inv cr kr (st_db s)" "AuditForwardSeq io (pu_name p) s = Inr n" "ListAudit io n (pu_batch p) s = Inr evs"
  shows "evs = take (batch_size p) (backlog (pu_name p) (st_db s))"
proof -
  have "sorted_wrt (<) (map a_seq (db_audit (st_db s)))" using assms(1) by (simp add: audit_inv_def)
  from ListAudit_Inr [OF assms(3) this] AuditForwardSeq_Inr [OF assms(2)] show ?thesis by (simp add: backlog_def take_map)
qed

lemma tick_cases:
  assumes "tick send p io c (s, w) = (s', w')" "audit_inv cr kr (st_db s)"
  defines "evs \<equiv> take (batch_size p) (backlog (pu_name p) (st_db s))"
  obtains "s' = s" "w' = w"
  | e where "send c evs w = (Inl e, w')" "s' = s"
  | r where "IsLeader s" "evs \<noteq> []" "send c evs w = (Inr (), w')" "SetAuditForwardSeq io (pu_name p) (ev_seq (last evs)) s = (r, s')"
proof -
  show thesis
  proof (cases "IsLeader s \<and> (\<exists>n. AuditForwardSeq io (pu_name p) s = Inr n \<and> ListAudit io n (pu_batch p) s = Inr evs) \<and> evs \<noteq> []")
    case True
    then have t: "tick send p io c (s, w) = (case send c evs w of (Inl _, w') \<Rightarrow> (s, w')
        | (Inr _, w') \<Rightarrow> (snd (SetAuditForwardSeq io (pu_name p) (ev_seq (last evs)) s), w'))"
      by (auto simp: tick_def)
    obtain r w1 where send: "send c evs w = (r, w1)" by (cases "send c evs w")
    obtain q s1 where set: "SetAuditForwardSeq io (pu_name p) (ev_seq (last evs)) s = (q, s1)"
      by (cases "SetAuditForwardSeq io (pu_name p) (ev_seq (last evs)) s")
    show thesis
    proof (cases r)
      case (Inl e)
      with send t assms(1) that(2) show thesis by simp
    next
      case (Inr x)
      with send set t assms(1) True that(3) show thesis by simp
    qed
  next
    case False
    then have "tick send p io c (s, w) = (s, w)"
      using listed_backlog [OF assms(2), of io p] by (auto simp: tick_def evs_def split: sum.splits)
    with assms(1) that(1) show thesis by simp
  qed
qed

lemma tick_log:
  assumes "audit_inv cr kr (st_db s)" "tick send p io c (s, w) = (s', w')"
  shows "db_audit (st_db s') = db_audit (st_db s)"
  using assms(2,1) by (cases rule: tick_cases) (auto dest: SetAuditForwardSeq_effect)

text \<open>Call by call with nothing in between, a tick is the one of \<^const>\<open>tick\<close>.\<close>

definition go_on :: "('c, 'w) send \<Rightarrow> pump \<Rightarrow> io \<Rightarrow> 'c \<Rightarrow> (store \<times> 'w) \<times> phase \<Rightarrow> (store \<times> 'w) \<times> phase" where
  "go_on send p io c x = (if snd x = Idle then x else tick_call send p io c (fst x) (snd x))"

lemma tick_is_calls:
  "tick send p io c sw = fst (go_on send p io c (go_on send p io c (go_on send p io c (tick_call send p io c sw Idle))))"
  by (cases sw) (auto simp: tick_def go_on_def split: sum.splits prod.splits)

text \<open>
  C35. A tick works on a queue of events: it leaves the backlog as it is, or it takes the first
  batch off it, and then it is the leader and the last request on the wire carried exactly
  this batch and was acknowledged.  The log itself never changes.
\<close>
theorem tick_takes_batch:
  assumes "audit_inv cr kr (st_db s)" "tick (Forward_webhook cr w) p io so (s, net) = (s', net')"
  shows "db_audit (st_db s') = db_audit (st_db s) \<and>
    (backlog (pu_name p) (st_db s') = backlog (pu_name p) (st_db s) \<or>
     IsLeader s \<and> backlog (pu_name p) (st_db s') = drop (batch_size p) (backlog (pu_name p) (st_db s)) \<and>
     (\<exists>req. net' = net @ [(req, so_answer so)] \<and> acknowledged (so_answer so) \<and>
        webhook_body (take (batch_size p) (backlog (pu_name p) (st_db s))) = Some (hr_body req)))"
  using assms(2,1)
proof (cases rule: tick_cases)
  case (3 r)
  have a: "db_audit (st_db s') = db_audit (st_db s)" using SetAuditForwardSeq_effect [OF 3(4)] by auto
  have "\<exists>req. net' = net @ [(req, so_answer so)] \<and> acknowledged (so_answer so) \<and>
      webhook_body (take (batch_size p) (backlog (pu_name p) (st_db s))) = Some (hr_body req)"
    using Forward_webhook_cases [OF 3(3)] 3(2) by auto
  moreover have "s' = s \<or> backlog (pu_name p) (st_db s') = drop (batch_size p) (backlog (pu_name p) (st_db s))"
    using SetAuditForwardSeq_effect [OF 3(4)] backlog_marked [OF assms(1) 3(2) a] by blast
  ultimately show ?thesis using a 3(1) by blast
qed simp_all

text \<open>
  C34. What is marked as forwarded has arrived: with any number of replicas pumping at once,
  writes and elections between any two of their calls, failing stores and receivers, and
  processes that stop in the middle of a tick, every row up to the watermark of the webhook
  was carried by a request the receiver acknowledged.
\<close>
theorem marked_was_delivered:
  assumes "pump_reach (Forward_webhook cr w) cr lower kr p (st_db s) net ps" "r \<in> set (db_audit (st_db s))"
    "AuditForwardSeq io (pu_name p) s = Inr n" "a_seq r \<le> n"
  shows "\<exists>(req, a) \<in> set net. acknowledged a \<and> (\<exists>evs. scan_event r \<in> set evs \<and> webhook_body evs = Some (hr_body req))"
proof -
  have "wf.pump_inv cr kr (pu_name p) (st_db s) net ps" using wf.pump_reach_inv [OF assms(1)] .
  with assms(2,4) AuditForwardSeq_Inr [OF assms(3)] have "webhook_received net (scan_event r)"
    by (simp add: wf.pump_inv_def wf.delivered_upto_def)
  then show ?thesis by (simp add: webhook_received_def)
qed

section \<open>Draining the backlog\<close>

definition quiet :: "io \<Rightarrow> bool" where
  "quiet io \<longleftrightarrow> (\<forall>l. \<not> io_fails io l) \<and> io_commit io = Committed"

lemma quiet_mark:
  assumes "quiet io" "name \<noteq> []" "0 \<le> q"
  shows "\<exists>t. SetAuditForwardSeq io name q s = (Inr (), s\<lparr>st_db := (st_db s)\<lparr>db_forward := t\<rparr>\<rparr>)
    \<and> watermark name ((st_db s)\<lparr>db_forward := t\<rparr>) = q"
  using assms
  by (intro exI [of _ "sql_upsert f_name \<lparr>f_name = name, f_last_seq = q, f_updated_at = unix_nano (io_now io)\<rparr>
      (\<lambda>r. r\<lparr>f_last_seq := q, f_updated_at := unix_nano (io_now io)\<rparr>) (db_forward (st_db s))"])
    (auto simp: SetAuditForwardSeq_def run_exec_def quiet_def watermark_def sql_row_upsert_name split: option.splits)

lemma Forward_webhook_ok:
  assumes "evs \<noteq> []" "list_all (\<lambda>ev. event_json ev \<noteq> None) evs" "so_url_ok so" "acknowledged (so_answer so)"
  shows "\<exists>req. Forward_webhook cr w so evs net = (Inr (), net @ [(req, so_answer so)]) \<and> webhook_body evs = Some (hr_body req)"
  using assms by (auto simp: Forward_webhook_def webhook_body_def acknowledged_def Let_def split: http_answer.splits)

lemma audit_inv_forward: "audit_inv cr kr (d\<lparr>db_forward := t\<rparr>) = audit_inv cr kr d"
  by (rule audit_inv_log) (simp add: log_tables_def)

lemma quiet_tick:
  assumes "audit_inv cr kr (st_db s)" "IsLeader s" "quiet io" "pu_name p \<noteq> []" "so_url_ok so" "acknowledged (so_answer so)"
    "list_all (\<lambda>ev. event_json ev \<noteq> None) (backlog (pu_name p) (st_db s))" "backlog (pu_name p) (st_db s) \<noteq> []"
  shows "\<exists>t req. tick (Forward_webhook cr w) p io so (s, net) = (s\<lparr>st_db := (st_db s)\<lparr>db_forward := t\<rparr>\<rparr>, net @ [(req, so_answer so)])
    \<and> backlog (pu_name p) ((st_db s)\<lparr>db_forward := t\<rparr>) = drop (batch_size p) (backlog (pu_name p) (st_db s))
    \<and> webhook_body (take (batch_size p) (backlog (pu_name p) (st_db s))) = Some (hr_body req)"
proof -
  let ?b = "backlog (pu_name p) (st_db s)" and ?k = "batch_size p" and ?n = "watermark (pu_name p) (st_db s)"
  have fwd: "AuditForwardSeq io (pu_name p) s = Inr ?n" using assms(3,4) by (simp add: AuditForwardSeq_def run_query_def quiet_def watermark_def)
  obtain evs where lst: "ListAudit io ?n (pu_batch p) s = Inr evs" using assms(3) by (simp add: ListAudit_def run_query_def quiet_def Let_def)
  have evs: "evs = take ?k ?b" using listed_backlog [OF assms(1) fwd lst] .
  have "0 < ?k" by (simp add: batch_size_def)
  with assms(8) have ne: "take ?k ?b \<noteq> []" by simp
  have all: "list_all (\<lambda>ev. event_json ev \<noteq> None) (take ?k ?b)" using assms(7) by (auto simp: list_all_iff dest: in_set_takeD)
  obtain req where req: "Forward_webhook cr w so (take ?k ?b) net = (Inr (), net @ [(req, so_answer so)])" "webhook_body (take ?k ?b) = Some (hr_body req)"
    using Forward_webhook_ok [OF ne all assms(5,6)] by blast
  have "last (take ?k ?b) \<in> set ?b" using last_in_set [OF ne] by (rule in_set_takeD)
  then have "0 \<le> ev_seq (last (take ?k ?b))" using assms(1) by (force simp: backlog_def audit_inv_def scan_event_def)
  then obtain t where t: "SetAuditForwardSeq io (pu_name p) (ev_seq (last (take ?k ?b))) s = (Inr (), s\<lparr>st_db := (st_db s)\<lparr>db_forward := t\<rparr>\<rparr>)"
    "watermark (pu_name p) ((st_db s)\<lparr>db_forward := t\<rparr>) = ev_seq (last (take ?k ?b))"
    using quiet_mark [OF assms(3,4)] by blast
  have "tick (Forward_webhook cr w) p io so (s, net) = (s\<lparr>st_db := (st_db s)\<lparr>db_forward := t\<rparr>\<rparr>, net @ [(req, so_answer so)])"
    using assms(2) fwd lst ne evs req(1) t(1) by (simp add: tick_def)
  with req(2) backlog_marked [OF assms(1) ne _ t(2)] show ?thesis by auto
qed

lemma empty_tick:
  assumes "audit_inv cr kr (st_db s)" "backlog (pu_name p) (st_db s) = []"
  shows "tick send p io c (s, w) = (s, w)"
  using listed_backlog [OF assms(1), of io p] assms(2) by (auto simp: tick_def split: sum.splits)

text \<open>
  C36. Once the receiver answers again, the leader drains its backlog: with no failures,
  as many ticks as there are batches leave nothing to forward, and the requests they
  made carry the events of the backlog in the order of the log, each of them once.
\<close>
theorem pump_drains:
  assumes "audit_inv cr kr (st_db s)" "IsLeader s" "quiet io" "pu_name p \<noteq> []" "so_url_ok so" "acknowledged (so_answer so)"
    "list_all (\<lambda>ev. event_json ev \<noteq> None) (backlog (pu_name p) (st_db s))" "length (backlog (pu_name p) (st_db s)) \<le> k * batch_size p"
    "(tick (Forward_webhook cr w) p io so ^^ k) (s, net) = (s', net')"
  shows "backlog (pu_name p) (st_db s') = [] \<and>
    (\<exists>batches reqs. concat batches = backlog (pu_name p) (st_db s) \<and> net' = net @ map (\<lambda>req. (req, so_answer so)) reqs
       \<and> map webhook_body batches = map (\<lambda>req. Some (hr_body req)) reqs)"
  using assms(1,2,7-9)
proof (induction k arbitrary: s net)
  case 0
  then show ?case by (auto intro: exI [of _ "[]"])
next
  case (Suc k)
  note run = Suc.prems(5) [unfolded funpow_Suc_right o_apply]
  show ?case
  proof (cases "backlog (pu_name p) (st_db s) = []")
    case True
    have "(tick (Forward_webhook cr w) p io so ^^ k) (s, net) = (s', net')" using run by (simp add: empty_tick [OF Suc.prems(1) True])
    from Suc.IH [OF Suc.prems(1-3) _ this] True show ?thesis by simp
  next
    case False
    obtain t req where t: "tick (Forward_webhook cr w) p io so (s, net) = (s\<lparr>st_db := (st_db s)\<lparr>db_forward := t\<rparr>\<rparr>, net @ [(req, so_answer so)])"
      "backlog (pu_name p) ((st_db s)\<lparr>db_forward := t\<rparr>) = drop (batch_size p) (backlog (pu_name p) (st_db s))"
      "webhook_body (take (batch_size p) (backlog (pu_name p) (st_db s))) = Some (hr_body req)"
      using quiet_tick [OF Suc.prems(1,2) assms(3-6) Suc.prems(3) False] by blast
    let ?s = "s\<lparr>st_db := (st_db s)\<lparr>db_forward := t\<rparr>\<rparr>"
    have "list_all (\<lambda>ev. event_json ev \<noteq> None) (backlog (pu_name p) (st_db ?s))"
      using Suc.prems(3) by (auto simp: t(2) list_all_iff dest: in_set_dropD)
    moreover have "audit_inv cr kr (st_db ?s)" "IsLeader ?s" "length (backlog (pu_name p) (st_db ?s)) \<le> k * batch_size p"
      using Suc.prems(1,2,4) by (simp_all add: audit_inv_forward IsLeader_def t(2) algebra_simps)
    ultimately obtain bs reqs where ih: "backlog (pu_name p) (st_db s') = []" "concat bs = backlog (pu_name p) (st_db ?s)"
      "net' = (net @ [(req, so_answer so)]) @ map (\<lambda>req. (req, so_answer so)) reqs" "map webhook_body bs = map (\<lambda>req. Some (hr_body req)) reqs"
      using Suc.IH [of ?s "net @ [(req, so_answer so)]"] run t(1) by auto
    then show ?thesis
      using t(2,3) by (intro conjI exI [of _ "take (batch_size p) (backlog (pu_name p) (st_db s)) # bs"] exI [of _ "req # reqs"]) simp_all
  qed
qed

section \<open>A pump at work\<close>

definition demo_pump :: pump where
  "demo_pump = NewPump ''webhook'' 10 0"

definition demo_hook :: webhook where
  "demo_hook = \<lparr>wh_url = ''http://siem'', wh_secret = [], wh_timeout = second\<rparr>"

definition demo_send :: send_io where
  "demo_send = \<lparr>so_url_ok = True, so_answer = Status 200\<rparr>"

definition demo_pumped :: "store \<times> wire" where
  "demo_pumped = tick (Forward_webhook demo_crypto demo_hook) demo_pump (demo_io 9) demo_send (demo_reached, [])"

lemma demo_inv: "audit_inv demo_crypto (Some demo_keyring) (st_db demo_reached)"
  using store_reach_inv [OF demo_reach] by (simp add: sys_inv_def)

lemma demo_json: "list_all (\<lambda>ev. event_json ev \<noteq> None) (backlog ''webhook'' (st_db demo_reached))"
  by code_simp

lemma demo_waiting: "length (backlog ''webhook'' (st_db demo_reached)) = 1"
  by code_simp

text \<open>A whole tick is a run of the pump among the others.\<close>

lemma call_keyring: "tick_call send p io c (s, w) ph = ((s', w'), ph') \<Longrightarrow> st_keyring s' = st_keyring s"
  using SetAuditForwardSeq_effect [of io "pu_name p" _ s]
  by (cases ph) (auto split: sum.splits prod.splits, metis prod.collapse settings_keyring_forward)

lemma go_on_reach:
  assumes "pump_reach send cr lower kr p (st_db (fst (fst x))) (snd (fst x)) (ps(i := snd x))" "st_keyring (fst (fst x)) = kr"
  shows "pump_reach send cr lower kr p (st_db (fst (fst (go_on send p io c x)))) (snd (fst (go_on send p io c x))) (ps(i := snd (go_on send p io c x)))
    \<and> st_keyring (fst (fst (go_on send p io c x))) = kr"
proof (cases "snd x = Idle")
  case False
  obtain s w ph where x: "x = ((s, w), ph)" by (metis prod.collapse)
  obtain s' w' ph' where c: "tick_call send p io c (s, w) ph = ((s', w'), ph')" by (metis prod.collapse)
  have "tick_call send p io c (s, w) ((ps(i := ph)) i) = ((s', w'), ph')" using c by simp
  from pump_call [where ps = "ps(i := ph)" and i = i, OF _ _ this] assms x call_keyring [OF c] False show ?thesis by (simp add: go_on_def c)
qed (use assms in \<open>simp add: go_on_def\<close>)

lemma tick_reach:
  assumes "pump_reach send cr lower kr p (st_db s) w ps" "st_keyring s = kr" "ps i = Idle" "tick send p io c (s, w) = (s', w')"
  shows "\<exists>ph. pump_reach send cr lower kr p (st_db s') w' (ps(i := ph))"
proof -
  let ?g = "go_on send p io c" and ?x = "tick_call send p io c (s, w) Idle"
  obtain s1 w1 ph1 where x: "?x = ((s1, w1), ph1)" by (metis prod.collapse)
  have "tick_call send p io c (s, w) (ps i) = ((s1, w1), ph1)" unfolding assms(3) by (rule x)
  from pump_call [OF assms(1,2) this] call_keyring [OF x] assms(2)
  have "pump_reach send cr lower kr p (st_db (fst (fst ?x))) (snd (fst ?x)) (ps(i := snd ?x))" "st_keyring (fst (fst ?x)) = kr"
    unfolding x by simp_all
  from go_on_reach [OF this] have "pump_reach send cr lower kr p (st_db (fst (fst (?g ?x)))) (snd (fst (?g ?x))) (ps(i := snd (?g ?x)))"
    "st_keyring (fst (fst (?g ?x))) = kr" by blast+
  from go_on_reach [OF this] have "pump_reach send cr lower kr p (st_db (fst (fst (?g (?g ?x))))) (snd (fst (?g (?g ?x)))) (ps(i := snd (?g (?g ?x))))"
    "st_keyring (fst (fst (?g (?g ?x)))) = kr" by blast+
  from go_on_reach [OF this, of io c] assms(4) show ?thesis by (auto simp: tick_is_calls)
qed

lemma demo_settings: "IsLeader demo_reached" "quiet (demo_io 9)" "pu_name demo_pump \<noteq> []" "so_url_ok demo_send"
  "acknowledged (so_answer demo_send)"
  by (code_simp, simp add: quiet_def demo_io_def, simp_all add: demo_pump_def NewPump_def demo_send_def acknowledged_def)

lemma demo_names: "pu_name demo_pump = ''webhook''" "batch_size demo_pump = 10"
  by (simp_all add: demo_pump_def NewPump_def batch_size_def)

lemma demo_tick: "tick (Forward_webhook demo_crypto demo_hook) demo_pump (demo_io 9) demo_send (demo_reached, []) = (fst demo_pumped, snd demo_pumped)"
  by (simp add: demo_pumped_def)

lemma demo_drained: "backlog ''webhook'' (st_db (fst demo_pumped)) = []"
proof -
  have "backlog ''webhook'' (st_db demo_reached) \<noteq> []" using demo_waiting by auto
  then obtain t req where "tick (Forward_webhook demo_crypto demo_hook) demo_pump (demo_io 9) demo_send (demo_reached, []) =
      (demo_reached\<lparr>st_db := (st_db demo_reached)\<lparr>db_forward := t\<rparr>\<rparr>, [] @ [(req, so_answer demo_send)])"
    "backlog ''webhook'' ((st_db demo_reached)\<lparr>db_forward := t\<rparr>) = drop 10 (backlog ''webhook'' (st_db demo_reached))"
    using quiet_tick [OF demo_inv demo_settings, of demo_hook "[]"] demo_json by (auto simp: demo_names)
  then show ?thesis using demo_waiting by (simp add: demo_pumped_def)
qed

theorem tick_takes_batch_witness:
  "audit_inv demo_crypto (Some demo_keyring) (st_db demo_reached) \<and> backlog ''webhook'' (st_db demo_reached) \<noteq> []
   \<and> db_audit (st_db (fst demo_pumped)) = db_audit (st_db demo_reached)
   \<and> backlog ''webhook'' (st_db (fst demo_pumped)) = drop 10 (backlog ''webhook'' (st_db demo_reached))"
  using tick_takes_batch [OF demo_inv demo_tick] demo_inv demo_waiting demo_drained by (auto simp: demo_names)

theorem marked_was_delivered_witness:
  "\<exists>r. r \<in> set (db_audit (st_db (fst demo_pumped))) \<and>
     (\<exists>(req, a) \<in> set (snd demo_pumped). acknowledged a \<and> (\<exists>evs. scan_event r \<in> set evs \<and> webhook_body evs = Some (hr_body req)))"
proof -
  have k: "st_keyring demo_reached = Some demo_keyring" using store_reach_inv [OF demo_reach] by simp
  have e: "\<forall>r \<in> set (db_forward (st_db demo_reached)). f_name r \<noteq> pu_name demo_pump" by code_simp
  obtain ph where reach: "pump_reach (Forward_webhook demo_crypto demo_hook) demo_crypto (\<lambda>x. x) (Some demo_keyring) demo_pump
      (st_db (fst demo_pumped)) (snd demo_pumped) ((\<lambda>_. Idle)(0 := ph))"
    using tick_reach [OF pump_start [OF demo_reach e] k _ demo_tick] by blast
  define n where "n = watermark (pu_name demo_pump) (st_db (fst demo_pumped))"
  have f: "AuditForwardSeq (demo_io 9) (pu_name demo_pump) (fst demo_pumped) = Inr n"
    using demo_settings(3) by (simp add: AuditForwardSeq_def run_query_def demo_io_def n_def watermark_def)
  have "length (db_audit (st_db demo_reached)) = 1" by code_simp
  moreover have "db_audit (st_db (fst demo_pumped)) = db_audit (st_db demo_reached)" using tick_log [OF demo_inv demo_tick] .
  ultimately obtain r where r: "r \<in> set (db_audit (st_db (fst demo_pumped)))" by (cases "db_audit (st_db demo_reached)") auto
  then have "a_seq r \<le> n" using demo_drained by (auto simp: backlog_def n_def demo_names filter_empty_conv)
  from r marked_was_delivered [OF reach r f this] show ?thesis by blast
qed

theorem pump_drains_witness:
  "backlog ''webhook'' (st_db demo_reached) \<noteq> [] \<and> backlog ''webhook'' (st_db (fst demo_pumped)) = []"
proof -
  have run: "(tick (Forward_webhook demo_crypto demo_hook) demo_pump (demo_io 9) demo_send ^^ 1) (demo_reached, []) = (fst demo_pumped, snd demo_pumped)"
    by (simp add: demo_pumped_def)
  have l: "length (backlog (pu_name demo_pump) (st_db demo_reached)) \<le> 1 * batch_size demo_pump" by (simp add: demo_names demo_waiting)
  have j: "list_all (\<lambda>ev. event_json ev \<noteq> None) (backlog (pu_name demo_pump) (st_db demo_reached))" using demo_json by (simp add: demo_names)
  from pump_drains [OF demo_inv demo_settings j l run] demo_waiting show ?thesis by (auto simp: demo_names)
qed

end
