(* ===== verification/BundleSequence.thy ===== *)
theory BundleSequence
  imports UpstreamStore
begin

text \<open>
  The number of the SPIFFE bundle, \<^verbatim>\<open>internal/server/identity/bundle_sequence.go\<close>, and the
  adapter of \<^verbatim>\<open>internal/cli/server.go\<close> that puts it on the store.  The store is an interface of
  the Go code, so the operations take its two methods as arguments; the locale says what
  they promise and is interpreted on the model of the store.
\<close>

section \<open>The sequence and its store\<close>

datatype store_err = ErrStoreNotLeader err | StoreErr err

record durable_sequence =
  ds_seq :: int
  ds_digest :: string
  ds_src_seq :: int
  ds_retry_at :: gotime
  ds_resync_at :: gotime

text \<open>
  What one call sees: the source (its anchors, its JWT keys, its own count when it keeps
  one), the clock when the call begins and when it ends, whether another caller holds
  \<^verbatim>\<open>ioMu\<close>, how the store answers the read and the write, and what other processes did to the
  store between the two.
\<close>

record 's seq_call =
  sc_pem :: bytes
  sc_jwks :: "err + bytes"
  sc_count :: "int option"
  sc_now :: gotime
  sc_later :: gotime
  sc_busy :: bool
  sc_load_io :: io
  sc_save_io :: io
  sc_others :: "'s \<Rightarrow> 's"

type_synonym 's seq_load = "io \<Rightarrow> 's \<Rightarrow> err + int \<times> string"
type_synonym 's seq_save = "io \<Rightarrow> int \<Rightarrow> string \<Rightarrow> 's \<Rightarrow> (store_err + unit) \<times> 's"
type_synonym 's seq_out = "(int \<times> store_err option) \<times> durable_sequence \<times> 's"

definition sequenceRecheck :: int where
  "sequenceRecheck = 30 * 1000000000"

definition maxStoredSequence :: int where
  "maxStoredSequence = 2 ^ 48"

definition materialDigest :: "crypto \<Rightarrow> 's seq_call \<Rightarrow> err + string" where
  "materialDigest cr c =
     (case sc_jwks c of
        Inl e \<Rightarrow> Inl e
      | Inr jwks \<Rightarrow> Inr (hex_encode (sha256 cr (sc_pem c @ [CHR 0x00] @ jwks))))"

definition next_seq :: "durable_sequence \<Rightarrow> int \<Rightarrow> string \<Rightarrow> string \<Rightarrow> int \<Rightarrow> int" where
  "next_seq d stored storedDigest digest srcSeq =
     (if storedDigest = digest \<and> (stored > ds_seq d \<or> ds_seq d = 0) then stored
      else let step = wrap64 (srcSeq - ds_src_seq d) in
           wrap64 (max (ds_seq d) stored + (if ds_seq d = 0 \<or> step < 1 then 1 else step)))"

definition save_number ::
  "'s seq_save \<Rightarrow> 's seq_call \<Rightarrow> int \<Rightarrow> string \<Rightarrow> durable_sequence \<Rightarrow> 's \<Rightarrow> 's seq_out" where
  "save_number save c seq digest d s =
     (case save (sc_save_io c) seq digest (sc_others c s) of
        (Inl (ErrStoreNotLeader e), s') \<Rightarrow> ((seq, None), d\<lparr>ds_resync_at := sc_later c + sequenceRecheck\<rparr>, s')
      | (_, s') \<Rightarrow> ((seq, None), d\<lparr>ds_resync_at := zero_time\<rparr>, s'))"

definition load_checked :: "'s seq_load \<Rightarrow> io \<Rightarrow> 's \<Rightarrow> err + int \<times> string" where
  "load_checked load io s =
     (case load io s of
        Inl e \<Rightarrow> Inl e
      | Inr (stored, dg) \<Rightarrow>
          if stored < 0 \<or> stored > maxStoredSequence
          then Inl (ErrInvalid ''stored spiffe_sequence is out of range'') else Inr (stored, dg))"

definition number ::
  "'s seq_load \<Rightarrow> 's seq_save \<Rightarrow> 's seq_call \<Rightarrow> string \<Rightarrow> int \<Rightarrow> durable_sequence \<Rightarrow> 's \<Rightarrow> 's seq_out" where
  "number load save c digest srcSeq d s =
     (case load_checked load (sc_load_io c) s of
        Inl e \<Rightarrow> ((ds_seq d, Some (StoreErr e)), d\<lparr>ds_retry_at := sc_later c + sequenceRecheck\<rparr>, s)
      | Inr (stored, storedDigest) \<Rightarrow>
          if digest = ds_digest d then
            (let seq = (if storedDigest = digest \<and> stored > ds_seq d then stored else ds_seq d) in
             ((seq, None), d\<lparr>ds_seq := seq, ds_resync_at := sc_later c + sequenceRecheck\<rparr>, s))
          else
            (let seq = next_seq d stored storedDigest digest srcSeq;
                 d' = d\<lparr>ds_seq := seq, ds_digest := digest, ds_src_seq := srcSeq\<rparr> in
             if seq = stored \<and> storedDigest = digest then ((seq, None), d', s)
             else save_number save c seq digest d' s))"

definition src_count :: "'s seq_call \<Rightarrow> int" where
  "src_count c = (case sc_count c of None \<Rightarrow> 0 | Some n \<Rightarrow> n)"

definition next_sequence ::
  "crypto \<Rightarrow> 's seq_load \<Rightarrow> 's seq_save \<Rightarrow> 's seq_call \<Rightarrow> durable_sequence \<Rightarrow> 's \<Rightarrow> 's seq_out" where
  "next_sequence cr load save c d s =
     (case materialDigest cr c of
        Inl e \<Rightarrow> ((ds_seq d, Some (StoreErr e)), d, s)
      | Inr digest \<Rightarrow>
          if digest = ds_digest d \<and> (is_zero_time (ds_resync_at d) \<or> sc_now c < ds_resync_at d)
             \<or> sc_now c < ds_retry_at d \<or> sc_busy c
          then ((ds_seq d, None), d, s)
          else number load save c digest (src_count c) d s)"

definition fresh_sequence :: durable_sequence where
  "fresh_sequence = \<lparr>ds_seq = 0, ds_digest = [], ds_src_seq = 0, ds_retry_at = zero_time, ds_resync_at = zero_time\<rparr>"

text \<open>No other caller can hold the lock of a sequence that is being made.\<close>

definition NewDurableSequence ::
  "crypto \<Rightarrow> 's seq_load \<Rightarrow> 's seq_save \<Rightarrow> 's seq_call \<Rightarrow> 's \<Rightarrow> (store_err + durable_sequence) \<times> 's" where
  "NewDurableSequence cr load save c s =
     (case next_sequence cr load save (c\<lparr>sc_busy := False\<rparr>) fresh_sequence s of
        ((_, Some e), _, s') \<Rightarrow> (Inl e, s')
      | ((_, None), d, s') \<Rightarrow> (Inr d, s'))"

text \<open>The value a caller gets; the error of the call is only logged.\<close>

definition BundleSequence ::
  "crypto \<Rightarrow> 's seq_load \<Rightarrow> 's seq_save \<Rightarrow> 's seq_call \<Rightarrow> durable_sequence \<Rightarrow> 's \<Rightarrow> int \<times> durable_sequence \<times> 's" where
  "BundleSequence cr load save c d s =
     (case next_sequence cr load save c d s of ((seq, _), d', s') \<Rightarrow> (seq, d', s'))"

section \<open>The adapter to the store\<close>

definition notLeader :: "err \<Rightarrow> store_err" where
  "notLeader e = (if e = ErrNotLeader then ErrStoreNotLeader e else StoreErr e)"

definition identity_load :: "string \<Rightarrow> store seq_load" where
  "identity_load td = (\<lambda>io. LoadBundleSequence io td)"

definition identity_save :: "string \<Rightarrow> store seq_save" where
  "identity_save td = (\<lambda>io seq digest s.
     case SaveBundleSequence io td seq digest s of
       (Inl e, s') \<Rightarrow> (Inl (notLeader e), s') | (Inr u, s') \<Rightarrow> (Inr u, s'))"

section \<open>What the store promises\<close>

text \<open>
  \<open>cell\<close> is the number and digest the store holds.  A read returns it, a write replaces it
  only with a higher number, and a write that succeeds leaves at least that number.
\<close>

locale sequence_store =
  fixes load :: "'s seq_load" and save :: "'s seq_save" and cell :: "'s \<Rightarrow> int \<times> string"
  assumes load_cell: "load io s = Inr x \<Longrightarrow> x = cell s"
    and save_cell: "0 < q \<Longrightarrow> save io q dg s = (r, s') \<Longrightarrow>
      cell s' = cell s \<or> fst (cell s) < q \<and> cell s' = (q, dg)"
    and save_ok: "0 < q \<Longrightarrow> save io q dg s = (Inr u, s') \<Longrightarrow> q \<le> fst (cell s')"
begin

lemma load_checked_cell:
  "load_checked load io s = Inr (n, dg) \<Longrightarrow> cell s = (n, dg) \<and> 0 \<le> n \<and> n \<le> maxStoredSequence"
  using load_cell by (auto simp: load_checked_def split: sum.splits if_splits)

end

section \<open>The numbers one process serves\<close>

text \<open>The source counts at most this far, and a process makes at most as many calls.\<close>

definition small :: "int \<Rightarrow> bool" where
  "small n \<longleftrightarrow> 0 \<le> n \<and> n \<le> 2 ^ 31"

lemma next_seq_bounds:
  assumes "0 \<le> ds_seq d" "ds_seq d \<le> 2 ^ 48 + 2 ^ 62" "small (ds_src_seq d)" "small srcSeq"
    and "0 \<le> stored" "stored \<le> maxStoredSequence"
    and q_def: "q = next_seq d stored storedDigest digest srcSeq"
  shows "ds_seq d \<le> q" "q \<le> max (ds_seq d) (2 ^ 48) + 2 ^ 31" "stored \<le> q"
    and "0 < ds_seq d \<Longrightarrow> ds_seq d < q"
    and "\<not> (storedDigest = digest \<and> q = stored) \<Longrightarrow> stored < q"
proof -
  have w: "wrap64 x = x" if "- (2 ^ 63) \<le> x" "x < 2 ^ 63" for x
    using that by (simp add: int64_def)
  have st: "wrap64 (srcSeq - ds_src_seq d) = srcSeq - ds_src_seq d"
    using assms(3,4) by (intro w) (auto simp: small_def)
  define step where "step = (if ds_seq d = 0 \<or> srcSeq - ds_src_seq d < 1 then 1 else srcSeq - ds_src_seq d)"
  have step: "1 \<le> step" "step \<le> 2 ^ 31" using assms(3,4) by (auto simp: step_def small_def)
  have "wrap64 (max (ds_seq d) stored + step) = max (ds_seq d) stored + step"
    using step assms(1,2,5,6) by (intro w) (auto simp: maxStoredSequence_def)
  then have q: "q = (if storedDigest = digest \<and> (stored > ds_seq d \<or> ds_seq d = 0) then stored
      else max (ds_seq d) stored + step)"
    by (simp only: q_def next_seq_def Let_def st step_def [symmetric])
  show "ds_seq d \<le> q" "stored \<le> q" "0 < ds_seq d \<Longrightarrow> ds_seq d < q"
    "\<not> (storedDigest = digest \<and> q = stored) \<Longrightarrow> stored < q"
    using q step assms(5) by (auto split: if_splits)
  show "q \<le> max (ds_seq d) (2 ^ 48) + 2 ^ 31"
    using q step assms(5,6) by (auto simp: maxStoredSequence_def max_def split: if_splits)
qed

text \<open>A later number: not lower, and higher for other material.\<close>

definition later_number :: "int \<times> string \<Rightarrow> int \<times> string \<Rightarrow> bool" where
  "later_number x y \<longleftrightarrow> fst x \<le> fst y \<and> (snd x \<noteq> snd y \<longrightarrow> fst x < fst y)"

lemma later_number_refl [simp]: "later_number x x"
  by (simp add: later_number_def)

lemma later_number_trans: "later_number x y \<Longrightarrow> later_number y z \<Longrightarrow> later_number x z"
  by (auto simp: later_number_def)

definition serving :: "durable_sequence \<Rightarrow> int \<times> string" where
  "serving d = (ds_seq d, ds_digest d)"

lemma save_number_out:
  "save_number save c seq digest d s = ((q, e), d', s') \<Longrightarrow>
     q = seq \<and> e = None \<and> ds_seq d' = ds_seq d \<and> ds_digest d' = ds_digest d \<and> ds_src_seq d' = ds_src_seq d
     \<and> s' = snd (save (sc_save_io c) seq digest (sc_others c s))"
  by (auto simp: save_number_def split: prod.splits sum.splits store_err.splits)

definition seq_ok :: "int \<Rightarrow> durable_sequence \<Rightarrow> bool" where
  "seq_ok b d \<longleftrightarrow> 0 \<le> ds_seq d \<and> ds_seq d \<le> 2 ^ 48 + b * 2 ^ 31 \<and> small (ds_src_seq d)"

lemma seq_ok_step: "seq_ok b d \<Longrightarrow> 0 \<le> b \<Longrightarrow> seq_ok (b + 1) d"
  by (auto simp: seq_ok_def)

lemma load_checked_range: "load_checked load io s = Inr (n, dg) \<Longrightarrow> 0 \<le> n \<and> n \<le> maxStoredSequence"
  by (auto simp: load_checked_def split: sum.splits if_splits)

lemma number_step:
  assumes "number load save c digest srcSeq d s = ((q, e), d', s')" "seq_ok b d" "0 \<le> b" "b < 2 ^ 31" "small srcSeq"
  shows "q = ds_seq d' \<and> seq_ok (b + 1) d' \<and> ds_seq d \<le> q \<and> (0 < ds_seq d \<longrightarrow> later_number (serving d) (serving d'))"
proof (cases "load_checked load (sc_load_io c) s")
  case (Inl e')
  with assms(1,2,3) show ?thesis by (auto simp: number_def serving_def seq_ok_def)
next
  case (Inr x)
  obtain stored sdg where x: "x = (stored, sdg)" by force
  note r = load_checked_range [OF Inr [unfolded x]]
  show ?thesis
  proof (cases "digest = ds_digest d")
    case True
    with assms(1,2,3) Inr r show ?thesis
      by (auto simp: number_def x Let_def serving_def seq_ok_def later_number_def maxStoredSequence_def split: if_splits)
  next
    case False
    have b: "0 \<le> ds_seq d" "ds_seq d \<le> 2 ^ 48 + 2 ^ 62" "small (ds_src_seq d)" "ds_seq d \<le> 2 ^ 48 + b * 2 ^ 31"
      using assms(2,4) by (auto simp: seq_ok_def)
    define n where "n = next_seq d stored sdg digest srcSeq"
    have out: "q = n \<and> ds_seq d' = n \<and> ds_digest d' = digest \<and> ds_src_seq d' = srcSeq"
      using assms(1) Inr False
      by (auto simp: number_def x Let_def n_def split: if_splits dest!: save_number_out)
    note nb = next_seq_bounds [OF b(1-3) assms(5) conjunct1 [OF r] conjunct2 [OF r] n_def]
    have "n \<le> 2 ^ 48 + (b + 1) * 2 ^ 31" using nb(2) b(4) assms(3) by (auto simp: max_def split: if_splits)
    with out nb(1,4) b(1) assms(5) show ?thesis
      by (auto simp: seq_ok_def serving_def later_number_def)
  qed
qed

lemma next_sequence_step:
  assumes "next_sequence cr load save c d s = ((q, e), d', s')" "seq_ok b d" "0 \<le> b" "b < 2 ^ 31" "small (src_count c)"
  shows "q = ds_seq d' \<and> seq_ok (b + 1) d' \<and> ds_seq d \<le> q \<and> (0 < ds_seq d \<longrightarrow> later_number (serving d) (serving d'))"
proof -
  have "q = ds_seq d \<and> d' = d \<or> (\<exists>digest. number load save c digest (src_count c) d s = ((q, e), d', s'))"
    using assms(1) by (auto simp: next_sequence_def split: sum.splits if_splits)
  then show ?thesis
  proof (elim disjE exE)
    assume "q = ds_seq d \<and> d' = d"
    with seq_ok_step [OF assms(2,3)] show ?thesis by simp
  next
    fix digest assume "number load save c digest (src_count c) d s = ((q, e), d', s')"
    from number_step [OF this assms(2-5)] show ?thesis .
  qed
qed

text \<open>
  A process serving its bundle: before each call the store may have been changed by others
  in any way.  Of every call this keeps the digest of the trust material the call saw, the
  number served with it, whether the call could number it, and whether the process now has a
  number for it.  A call can number its material when the material could be read, no earlier
  failure holds it off, no other call is in the store, and the store answers with a number in
  range.
\<close>

record served =
  sv_material :: "err + string"
  sv_number :: int
  sv_could :: bool
  sv_numbered :: bool

definition can_number :: "crypto \<Rightarrow> 's seq_load \<Rightarrow> 's seq_call \<Rightarrow> durable_sequence \<Rightarrow> 's \<Rightarrow> bool" where
  "can_number cr load c d s \<longleftrightarrow>
     \<not> isl (materialDigest cr c) \<and> ds_retry_at d \<le> sc_now c \<and> \<not> sc_busy c \<and> \<not> isl (load_checked load (sc_load_io c) s)"

fun serve :: "crypto \<Rightarrow> 's seq_load \<Rightarrow> 's seq_save \<Rightarrow> (('s \<Rightarrow> 's) \<times> 's seq_call) list \<Rightarrow> durable_sequence \<Rightarrow> 's \<Rightarrow> served list" where
  "serve cr load save [] d s = []"
| "serve cr load save ((change, c) # cs) d s =
     (case BundleSequence cr load save c d (change s) of
        (q, d', s') \<Rightarrow>
          \<lparr>sv_material = materialDigest cr c, sv_number = q, sv_could = can_number cr load c d (change s),
           sv_numbered = (materialDigest cr c = Inr (ds_digest d'))\<rparr> # serve cr load save cs d' s')"

definition last_served :: "durable_sequence \<Rightarrow> served" where
  "last_served d = \<lparr>sv_material = Inr (ds_digest d), sv_number = ds_seq d, sv_could = True, sv_numbered = True\<rparr>"

text \<open>
  A later number is not lower, and it is higher when both calls had a number for their material
  and the materials differ.
\<close>

definition later_served :: "served \<Rightarrow> served \<Rightarrow> bool" where
  "later_served x y \<longleftrightarrow> sv_number x \<le> sv_number y \<and>
     (sv_numbered x \<and> sv_numbered y \<and> sv_material x \<noteq> sv_material y \<longrightarrow> sv_number x < sv_number y)"

text \<open>A call without a number for its material serves the number of the call before.\<close>

definition repeats_unless_numbered :: "served \<Rightarrow> served \<Rightarrow> bool" where
  "repeats_unless_numbered x y \<longleftrightarrow> sv_numbered y \<or> sv_number y = sv_number x"

lemma later_served_trans:
  "later_served x y \<Longrightarrow> later_served y z \<Longrightarrow> sv_numbered y \<Longrightarrow> later_served x z"
  by (auto simp: later_served_def)

lemma number_keeps_or_numbers:
  assumes "number load save c digest srcSeq d s = ((q, e), d', s')"
  shows "ds_digest d' = digest \<or> isl (load_checked load (sc_load_io c) s) \<and> ds_seq d' = ds_seq d \<and> ds_digest d' = ds_digest d"
  using assms by (auto simp: number_def Let_def split: sum.splits if_splits dest!: save_number_out)

lemma next_sequence_keeps_or_numbers:
  assumes "next_sequence cr load save c d s = ((q, e), d', s')"
  shows "materialDigest cr c = Inr (ds_digest d')
    \<or> \<not> can_number cr load c d s \<and> ds_seq d' = ds_seq d \<and> ds_digest d' = ds_digest d"
proof (cases "materialDigest cr c")
  case (Inl e')
  with assms show ?thesis by (auto simp: next_sequence_def can_number_def)
next
  case (Inr digest)
  show ?thesis
  proof (cases "digest = ds_digest d \<and> (is_zero_time (ds_resync_at d) \<or> sc_now c < ds_resync_at d) \<or> sc_now c < ds_retry_at d \<or> sc_busy c")
    case True
    with assms Inr show ?thesis by (auto simp: next_sequence_def can_number_def)
  next
    case False
    then have "number load save c digest (src_count c) d s = ((q, e), d', s')"
      using assms Inr unfolding next_sequence_def by (simp only: sum.case if_False)
    from number_keeps_or_numbers [OF this] Inr show ?thesis by (auto simp: can_number_def)
  qed
qed

lemma later_served_state:
  "later_served (last_served d) (last_served d') \<longleftrightarrow> later_number (serving d) (serving d')"
  by (auto simp: later_served_def last_served_def later_number_def serving_def)

lemma serve_step:
  assumes "next_sequence cr load save c d (f s) = ((q, e), d', s')" "seq_ok b d" "0 \<le> b" "b < 2 ^ 31"
    "small (src_count c)" "0 < ds_seq d"
  obtains x where "serve cr load save ((f, c) # cs) d s = x # serve cr load save cs d' s'" "seq_ok (b + 1) d'" "0 < ds_seq d'"
    "later_served (last_served d) (last_served d')" "sv_number x = ds_seq d'"
    "later_served (last_served d) x" "sv_could x \<longrightarrow> sv_numbered x" "repeats_unless_numbered (last_served d) x"
    "sv_numbered x \<longrightarrow> sv_material x = Inr (ds_digest d')"
proof -
  note st = next_sequence_step [OF assms(1-5)] and kn = next_sequence_keeps_or_numbers [OF assms(1)]
  define x where "x = \<lparr>sv_material = materialDigest cr c, sv_number = q, sv_could = can_number cr load c d (f s),
    sv_numbered = (materialDigest cr c = Inr (ds_digest d'))\<rparr>"
  show thesis
  proof (rule that [of x])
    show "serve cr load save ((f, c) # cs) d s = x # serve cr load save cs d' s'"
      using assms(1) by (simp add: BundleSequence_def x_def)
    show ld: "later_served (last_served d) (last_served d')" using st assms(6) by (simp add: later_served_state)
    show "later_served (last_served d) x" using ld st by (auto simp: later_served_def last_served_def x_def)
    show "sv_could x \<longrightarrow> sv_numbered x" "repeats_unless_numbered (last_served d) x"
      using kn st by (auto simp: x_def repeats_unless_numbered_def last_served_def)
  qed (use st assms(6) in \<open>auto simp: x_def\<close>)
qed

lemma serve_later:
  assumes "seq_ok b d" "0 \<le> b" "b + int (length cs) \<le> 2 ^ 31" "0 < ds_seq d" "\<forall>(f, c) \<in> set cs. small (src_count c)"
  shows "sorted_wrt later_served (last_served d # serve cr load save cs d s)
         \<and> successively repeats_unless_numbered (last_served d # serve cr load save cs d s)
         \<and> (\<forall>x \<in> set (serve cr load save cs d s). (sv_could x \<longrightarrow> sv_numbered x) \<and> sv_number x \<le> 2 ^ 48 + 2 ^ 62)"
  using assms
proof (induction cs arbitrary: b d s)
  case (Cons y cs)
  obtain f c where y: "y = (f, c)" by force
  obtain q e d' s' where n: "next_sequence cr load save c d (f s) = ((q, e), d', s')" by (metis surj_pair)
  have b: "b < 2 ^ 31" "small (src_count c)" using Cons.prems(3,5) by (auto simp: y)
  obtain x where x: "serve cr load save ((f, c) # cs) d s = x # serve cr load save cs d' s'" "seq_ok (b + 1) d'" "0 < ds_seq d'"
    "later_served (last_served d) (last_served d')" "sv_number x = ds_seq d'"
    "later_served (last_served d) x" "sv_could x \<longrightarrow> sv_numbered x" "repeats_unless_numbered (last_served d) x"
    "sv_numbered x \<longrightarrow> sv_material x = Inr (ds_digest d')"
    by (rule serve_step [where f = f and s = s, OF n Cons.prems(1,2) b Cons.prems(4)])
  let ?rest = "serve cr load save cs d' s'"
  have IH: "sorted_wrt later_served (last_served d' # ?rest) \<and> successively repeats_unless_numbered (last_served d' # ?rest)
      \<and> (\<forall>x \<in> set ?rest. (sv_could x \<longrightarrow> sv_numbered x) \<and> sv_number x \<le> 2 ^ 48 + 2 ^ 62)"
    by (rule Cons.IH [of "b + 1"]) (use x(2,3) Cons.prems in auto)
  have like: "later_served (last_served d') z \<Longrightarrow> later_served x z" "repeats_unless_numbered (last_served d') z \<Longrightarrow> repeats_unless_numbered x z" for z
    using x(5,9) by (auto simp: later_served_def last_served_def repeats_unless_numbered_def)
  have "later_served (last_served d) z" if "z \<in> set ?rest" for z
    by (rule later_served_trans [OF x(4)]) (use IH that in \<open>auto simp: last_served_def\<close>)
  moreover have "successively repeats_unless_numbered (x # ?rest)"
    using IH like(2) by (cases ?rest) auto
  moreover have "sv_number x \<le> 2 ^ 48 + 2 ^ 62" using x(2,5) b(1) by (auto simp: seq_ok_def)
  ultimately show ?case using IH like(1) x(1,6-8) by (auto simp: y)
qed simp

text \<open>
  C21. The numbers a process serves never go back and never overflow: from a number between 1
  and \<open>2 ^ 48\<close>, over up to \<open>2 ^ 31\<close> calls, with the source counting its changes up to \<open>2 ^ 31\<close>,
  whatever the store answers, whichever of its reads and writes fail and whatever other
  processes write in between.  Trust material that the process has numbered has another, higher
  number than every other material it numbered before.  A call that could not number its
  material (the material cannot be read, an earlier failure holds it off, another call is in
  the store, or the store's answer is an error or out of range) serves the number of the call
  before, unless its material is the one last numbered; every other call has a number for its
  own material.
\<close>
theorem served_sequence_in_order:
  assumes "0 < ds_seq d" "ds_seq d \<le> 2 ^ 48" "small (ds_src_seq d)"
    and "int (length calls) \<le> 2 ^ 31" "\<forall>(change, c) \<in> set calls. small (src_count c)"
    and out: "out = serve cr (identity_load td) (identity_save td) calls d s"
  shows "sorted_wrt later_served (last_served d # out)
         \<and> successively repeats_unless_numbered (last_served d # out)
         \<and> (\<forall>x \<in> set out. (sv_could x \<longrightarrow> sv_numbered x) \<and> sv_number x < 2 ^ 63)"
proof -
  have "seq_ok 0 d" using assms(1-3) by (simp add: seq_ok_def)
  from serve_later [OF this _ _ assms(1,5)] assms(4) show ?thesis unfolding out by fastforce
qed

definition demo_sequence :: durable_sequence where
  "demo_sequence = fresh_sequence\<lparr>ds_seq := 4, ds_digest := ''00''\<rparr>"

definition demo_seq_call :: "store seq_call" where
  "demo_seq_call = \<lparr>sc_pem = ''ca'', sc_jwks = Inr ''{}'', sc_count = Some 3, sc_now = 10, sc_later = 11, sc_busy = False,
     sc_load_io = demo_io 10, sc_save_io = demo_io 11, sc_others = id\<rparr>"

text \<open>One call that numbers its material, and one with other material while the store is busy.\<close>

theorem served_sequence_in_order_witness:
  "let out = serve demo_crypto (identity_load ''t'') (identity_save ''t'')
               [(id, demo_seq_call), (id, demo_seq_call\<lparr>sc_pem := ''cb'', sc_busy := True\<rparr>)] demo_sequence demo_empty in
   map (\<lambda>x. (sv_number x, sv_could x, sv_numbered x)) out = [(7, True, True), (7, False, False)]
   \<and> sorted_wrt later_served (last_served demo_sequence # out)
   \<and> successively repeats_unless_numbered (last_served demo_sequence # out)
   \<and> (\<forall>x \<in> set out. (sv_could x \<longrightarrow> sv_numbered x) \<and> sv_number x < 2 ^ 63)"
proof -
  let ?calls = "[(id, demo_seq_call), (id, demo_seq_call\<lparr>sc_pem := ''cb'', sc_busy := True\<rparr>)]"
  have run: "map (\<lambda>x. (sv_number x, sv_could x, sv_numbered x))
      (serve demo_crypto (identity_load ''t'') (identity_save ''t'') ?calls demo_sequence demo_empty) =
      [(7, True, True), (7, False, False)]" by code_simp
  have "0 < ds_seq demo_sequence" "ds_seq demo_sequence \<le> 2 ^ 48" "small (ds_src_seq demo_sequence)"
    "int (length ?calls) \<le> 2 ^ 31" "\<forall>(change, c) \<in> set ?calls. small (src_count c)"
    by (simp_all add: demo_sequence_def fresh_sequence_def small_def demo_seq_call_def src_count_def)
  from served_sequence_in_order [OF this refl, of demo_crypto "''t''" demo_empty] run show ?thesis unfolding Let_def by blast
qed

section \<open>Across a restart\<close>

lemma next_seq_after:
  assumes "seq_ok b d" "b \<le> 2 ^ 31" "small srcSeq" "0 \<le> stored" "stored \<le> maxStoredSequence"
  shows "later_number (stored, sdg) (next_seq d stored sdg digest srcSeq, digest)"
proof -
  have b: "0 \<le> ds_seq d" "ds_seq d \<le> 2 ^ 48 + 2 ^ 62" "small (ds_src_seq d)"
    using assms(1,2) by (auto simp: seq_ok_def)
  from next_seq_bounds(3,5) [OF b assms(3-5) refl, of sdg digest] show ?thesis
    by (auto simp: later_number_def)
qed

lemma hex_encode_Nil: "hex_encode m = [] \<longleftrightarrow> m = []"
  using hex_encode_inject [of m "[]"] by (simp add: hex_encode_def)

text \<open>The numbers other processes store meanwhile.\<close>

fun other_saves :: "'s seq_save \<Rightarrow> (io \<times> int \<times> string) list \<Rightarrow> 's \<Rightarrow> 's" where
  "other_saves save [] s = s"
| "other_saves save ((io, q, g) # ws) s = other_saves save ws (snd (save io q g s))"

context sequence_store
begin

lemma save_later: "0 < q \<Longrightarrow> later_number (cell s) (cell (snd (save io q g s)))"
  using save_cell [of q io g s "fst (save io q g s)" "snd (save io q g s)"] by (auto simp: later_number_def)

lemma other_saves_later: "\<forall>(io, q, g) \<in> set ws. 0 < q \<Longrightarrow> later_number (cell s) (cell (other_saves save ws s))"
proof (induction ws arbitrary: s)
  case (Cons w ws)
  obtain io q g where w: "w = (io, q, g)" by (metis surj_pair)
  from Cons show ?case by (auto simp: w intro: later_number_trans [OF save_later])
qed simp

lemma saved_number:
  assumes "number load save c digest srcSeq d s = ((q, None), d', s')" "digest \<noteq> ds_digest d"
    and "seq_ok b d" "0 \<le> b" "b \<le> 2 ^ 31" "small srcSeq" "sc_others c = id"
    and ok: "\<And>n g. \<not> isl (fst (save (sc_save_io c) n g s))"
  shows "later_number (q, digest) (cell s')"
proof -
  obtain stored sdg where l: "load_checked load (sc_load_io c) s = Inr (stored, sdg)"
    using assms(1) by (auto simp: number_def split: sum.splits)
  define n where "n = next_seq d stored sdg digest srcSeq"
  note c = load_checked_cell [OF l]
  have after: "later_number (stored, sdg) (n, digest)"
    using next_seq_after [OF assms(3,5,6), of stored sdg digest] c by (simp add: n_def)
  show ?thesis
  proof (cases "n = stored \<and> sdg = digest")
    case True
    with assms(1,2) l c show ?thesis by (auto simp: number_def Let_def n_def)
  next
    case False
    then have lt: "stored < n" using after by (auto simp: later_number_def)
    have s': "s' = snd (save (sc_save_io c) n digest s)" "q = n"
      using assms(1,2,7) l False by (auto simp: number_def Let_def n_def dest!: save_number_out split: if_splits)
    obtain u where "save (sc_save_io c) n digest s = (Inr u, s')"
      using ok [of n digest] s'(1) by (cases "save (sc_save_io c) n digest s"; cases "fst (save (sc_save_io c) n digest s)") auto
    with lt c s' save_cell [of n] save_ok [of n] show ?thesis by (fastforce simp: later_number_def)
  qed
qed

lemma restart_later:
  assumes "NewDurableSequence cr load save c s = (Inr d, s')" "small (src_count c)" "\<And>m. sha256 cr m \<noteq> []"
    and "zero_time \<le> sc_now c"
  shows "later_number (cell s) (serving d)"
proof -
  obtain q where n: "next_sequence cr load save (c\<lparr>sc_busy := False\<rparr>) fresh_sequence s = ((q, None), d, s')"
    using assms(1) by (auto simp: NewDurableSequence_def split: prod.splits option.splits)
  moreover have "materialDigest cr (c\<lparr>sc_busy := False\<rparr>) \<noteq> Inr []"
    using assms(3) by (auto simp: materialDigest_def hex_encode_Nil split: sum.splits)
  ultimately obtain g where g: "g \<noteq> ds_digest fresh_sequence"
    "number load save (c\<lparr>sc_busy := False\<rparr>) g (src_count c) fresh_sequence s = ((q, None), d, s')"
    using assms(4) by (auto simp: next_sequence_def fresh_sequence_def src_count_def split: sum.splits if_splits)
  then obtain stored sdg where l: "load_checked load (sc_load_io c) s = Inr (stored, sdg)"
    by (auto simp: number_def split: sum.splits)
  have "seq_ok 0 fresh_sequence" by (simp add: seq_ok_def fresh_sequence_def small_def)
  from next_seq_after [OF this _ assms(2), of stored sdg g] load_checked_cell [OF l]
  have "later_number (cell s) (next_seq fresh_sequence stored sdg g (src_count c), g)" by simp
  moreover have "serving d = (next_seq fresh_sequence stored sdg g (src_count c), g)"
    using g l by (auto simp: number_def Let_def serving_def split: if_splits dest!: save_number_out)
  ultimately show ?thesis by simp
qed

end

definition bundle_cell :: "string \<Rightarrow> store \<Rightarrow> int \<times> string" where
  "bundle_cell td s =
     (case sql_row (\<lambda>r. b_trust_domain r = td) (db_bundle_seq (st_db s)) of
        None \<Rightarrow> (0, []) | Some r \<Rightarrow> (b_seq r, b_digest r))"

lemma SaveBundleSequence_cell:
  assumes "SaveBundleSequence io td q g s = (r, s')" "0 < q"
  shows "bundle_cell td s' = bundle_cell td s \<and> (\<forall>u. r = Inr u \<longrightarrow> q \<le> fst (bundle_cell td s))
    \<or> fst (bundle_cell td s) < q \<and> bundle_cell td s' = (q, g)"
proof -
  have "bundle_cell td (s\<lparr>st_db := save_seq td q g t (st_db s)\<rparr>) =
      (if fst (bundle_cell td s) < q then (q, g) else bundle_cell td s)" for t
    using assms(2) by (simp add: bundle_cell_def save_seq_row split: option.splits)
  with assms show ?thesis by (auto simp: SaveBundleSequence_def run_exec_def split: if_splits)
qed

interpretation bs: sequence_store "identity_load td" "identity_save td" "bundle_cell td" for td
  by unfold_locales
    (auto simp: identity_load_def LoadBundleSequence_def run_query_def bundle_cell_def identity_save_def
      split: prod.splits sum.splits if_splits option.splits dest!: SaveBundleSequence_cell)

text \<open>
  C20. The sequence survives a restart: once the leader has numbered new trust material and
  the write was answered, then however many other numbers are stored afterwards, a process
  that starts on this database serves a number that is not lower, and a higher one unless
  its trust material is the same.
\<close>
theorem sequence_survives_restart:
  assumes "number (identity_load td) (identity_save td) c digest (src_count c) d s = ((q, None), d', s')"
    and "digest \<noteq> ds_digest d" "0 \<le> ds_seq d" "ds_seq d \<le> 2 ^ 48" "small (ds_src_seq d)" "small (src_count c)"
    and "IsLeader s" "\<not> io_fails (sc_save_io c) ''save bundle sequence''" "sc_others c = id"
    and "\<forall>(io, n, g) \<in> set others. 0 < n"
    and "NewDurableSequence cr (identity_load td) (identity_save td) c2 (other_saves (identity_save td) others s') = (Inr d2, s2)"
    and "small (src_count c2)" "\<And>m. sha256 cr m \<noteq> []" "zero_time \<le> sc_now c2"
  shows "q \<le> ds_seq d2 \<and> (digest \<noteq> ds_digest d2 \<longrightarrow> q < ds_seq d2)"
proof -
  have "seq_ok 0 d" using assms(3-5) by (simp add: seq_ok_def)
  moreover have "\<not> isl (fst (identity_save td (sc_save_io c) n g s))" for n g
    using assms(7,8) by (simp add: identity_save_def SaveBundleSequence_def run_exec_def)
  ultimately have "later_number (q, digest) (bundle_cell td s')"
    using bs.saved_number [OF assms(1,2) _ _ _ assms(6,9)] by auto
  from later_number_trans [OF this later_number_trans [OF bs.other_saves_later [OF assms(10)] bs.restart_later [OF assms(11-14)]]]
  show ?thesis by (simp add: later_number_def serving_def)
qed

definition tagged_crypto :: crypto where
  "tagged_crypto = \<lparr>sha256 = (\<lambda>m. CHR ''h'' # take 2 m), hmac_sha256 = (\<lambda>k m. k @ m)\<rparr>"

theorem sequence_survives_restart_witness:
  "let s1 = snd (snd (number (identity_load ''t'') (identity_save ''t'') demo_seq_call ''aa'' 3 fresh_sequence demo_empty));
       s2 = other_saves (identity_save ''t'') [(demo_io 12, 9, ''bb'')] s1 in
   (\<exists>d2. fst (NewDurableSequence tagged_crypto (identity_load ''t'') (identity_save ''t'') demo_seq_call s2) = Inr d2
     \<and> ds_seq d2 = 10 \<and> 1 \<le> ds_seq d2 \<and> (''aa'' \<noteq> ds_digest d2 \<longrightarrow> 1 < ds_seq d2))"
proof -
  let ?l = "identity_load ''t''" and ?w = "identity_save ''t''"
  obtain o1 d1 s1 where n: "number ?l ?w demo_seq_call ''aa'' (src_count demo_seq_call) fresh_sequence demo_empty = (o1, d1, s1)"
    by (metis surj_pair)
  have "fst (number ?l ?w demo_seq_call ''aa'' (src_count demo_seq_call) fresh_sequence demo_empty) = (1, None)"
    by code_simp
  with n have o1: "o1 = (1, None)" by simp
  have c: "src_count demo_seq_call = 3" by code_simp
  define s2 where "s2 = other_saves ?w [(demo_io 12, 9, ''bb'')] s1"
  have "fst (NewDurableSequence tagged_crypto ?l ?w demo_seq_call
      (other_saves ?w [(demo_io 12, 9, ''bb'')] (snd (snd (number ?l ?w demo_seq_call ''aa'' 3 fresh_sequence demo_empty))))) =
      Inr (fresh_sequence\<lparr>ds_seq := 10, ds_digest := ''686361'', ds_src_seq := 3\<rparr>)" by code_simp
  then have new: "fst (NewDurableSequence tagged_crypto ?l ?w demo_seq_call s2) =
      Inr (fresh_sequence\<lparr>ds_seq := 10, ds_digest := ''686361'', ds_src_seq := 3\<rparr>)"
    using n by (simp add: s2_def c)
  then obtain s3 where new': "NewDurableSequence tagged_crypto ?l ?w demo_seq_call s2 =
      (Inr (fresh_sequence\<lparr>ds_seq := 10, ds_digest := ''686361'', ds_src_seq := 3\<rparr>), s3)" by (metis prod.collapse)
  have "1 \<le> ds_seq (fresh_sequence\<lparr>ds_seq := 10, ds_digest := ''686361'', ds_src_seq := 3\<rparr>) \<and>
      (''aa'' \<noteq> ds_digest (fresh_sequence\<lparr>ds_seq := 10, ds_digest := ''686361'', ds_src_seq := 3\<rparr>) \<longrightarrow>
       1 < ds_seq (fresh_sequence\<lparr>ds_seq := 10, ds_digest := ''686361'', ds_src_seq := 3\<rparr>))"
    by (rule sequence_survives_restart [OF n [unfolded o1] _ _ _ _ _ _ _ _ _ new' [unfolded s2_def]])
      (simp_all add: fresh_sequence_def small_def src_count_def demo_seq_call_def demo_io_def tagged_crypto_def zero_time_def
        demo_empty_def UseAuditKeyring_def open_store_def IsLeader_def)
  then show ?thesis using new n by (simp add: Let_def s2_def c)
qed

end
