(* ===== verification/Leader.thy ===== *)
theory Leader
  imports Store
begin

text \<open>
  Leader election over a Postgres advisory lock, \<^verbatim>\<open>internal/server/storage/leader.go\<close>.  The
  loop of \<^verbatim>\<open>runLeaderElection\<close> is one function per tick; the server of the lock, the pool of
  connections and the clock are what a tick is given.  A step relation runs any number of
  replicas against one server whose sessions may end at any time.  Every replica is configured
  with the same lock key, so the server has one lock; the pool may hand out any live session
  of its replica.
\<close>

section \<open>The lock server\<close>

text \<open>
  A session belongs to the pool of one replica: its first component.  The lock is held by a
  session, as often as that session took it; it is released when the session ends.
\<close>

type_synonym session = "nat \<times> nat"

record pg_server =
  pg_lock :: "(session \<times> nat) option"
  pg_live :: "session list"
  pg_ended :: "session list"

definition pg_try_advisory_lock :: "session \<Rightarrow> pg_server \<Rightarrow> (bool \<times> pg_server) option" where
  "pg_try_advisory_lock c pg =
     (if c \<notin> set (pg_live pg) then None
      else (case pg_lock pg of
              None \<Rightarrow> Some (True, pg\<lparr>pg_lock := Some (c, 1)\<rparr>)
            | Some (owner, n) \<Rightarrow>
                if owner = c then Some (True, pg\<lparr>pg_lock := Some (c, n + 1)\<rparr>) else Some (False, pg)))"

definition pg_advisory_unlock :: "session \<Rightarrow> pg_server \<Rightarrow> pg_server" where
  "pg_advisory_unlock c pg =
     (case pg_lock pg of
        None \<Rightarrow> pg
      | Some (owner, n) \<Rightarrow>
          if owner = c \<and> c \<in> set (pg_live pg)
          then pg\<lparr>pg_lock := (if n \<le> 1 then None else Some (c, n - 1))\<rparr> else pg)"

definition pg_end_session :: "session \<Rightarrow> pg_server \<Rightarrow> pg_server" where
  "pg_end_session c pg =
     pg\<lparr>pg_live := removeAll c (pg_live pg), pg_ended := c # pg_ended pg,
        pg_lock := (case pg_lock pg of None \<Rightarrow> None | Some (owner, n) \<Rightarrow> if owner = c then None else Some (owner, n))\<rparr>"

definition pg_connect :: "session \<Rightarrow> pg_server \<Rightarrow> pg_server" where
  "pg_connect c pg = pg\<lparr>pg_live := c # pg_live pg\<rparr>"

section \<open>The election loop\<close>

record leader_config =
  lc_key :: int
  lc_poll_interval :: int

definition DefaultLeaderKey :: int where
  "DefaultLeaderKey = 0x0e6a3a0001"

record replica =
  rp_store :: store
  rp_held :: "session option"

definition set_leader :: "bool \<Rightarrow> replica \<Rightarrow> replica" where
  "set_leader b rp = rp\<lparr>rp_store := (rp_store rp)\<lparr>st_is_leader := b\<rparr>\<rparr>"

definition SetLeaderForTest :: "bool \<Rightarrow> bool \<Rightarrow> store \<Rightarrow> store" where
  "SetLeaderForTest enabled isLeader s = s\<lparr>st_leader_enabled := enabled, st_is_leader := isLeader\<rparr>"

definition leader_defaults :: "leader_config \<Rightarrow> leader_config" where
  "leader_defaults cfg = cfg\<lparr>lc_key := (if lc_key cfg = 0 then DefaultLeaderKey else lc_key cfg),
     lc_poll_interval := (if lc_poll_interval cfg \<le> 0 then 1000000000 else lc_poll_interval cfg)\<rparr>"

text \<open>The configuration returned is the one the goroutine runs with.\<close>

definition StartLeaderElection :: "leader_config \<Rightarrow> store \<Rightarrow> (err + leader_config) \<times> store" where
  "StartLeaderElection cfg s =
     (if st_driver s \<noteq> driverPostgres then (Inl (ErrInvalid ''leader election: only supported on Postgres''), s)
      else (Inr (leader_defaults cfg), SetLeaderForTest True False s))"

text \<open>
  What a tick meets: whether the ping fails, the connection the pool hands out, and how the
  lock and the unlock statement end.  A statement that fails may still have taken effect at
  the server.
\<close>

datatype sql_end = SqlDone | SqlFailed | SqlLost

record tick =
  tk_ping_fails :: bool
  tk_conn :: "session option"
  tk_query :: sql_end
  tk_unlock :: sql_end

definition release :: "tick \<Rightarrow> replica \<Rightarrow> pg_server \<Rightarrow> replica \<times> pg_server" where
  "release t rp pg =
     (case rp_held rp of
        None \<Rightarrow> (rp, pg)
      | Some c \<Rightarrow> ((set_leader False rp)\<lparr>rp_held := None\<rparr>,
                    if tk_unlock t = SqlFailed then pg else pg_advisory_unlock c pg))"

definition election_tick :: "tick \<Rightarrow> replica \<Rightarrow> pg_server \<Rightarrow> replica \<times> pg_server" where
  "election_tick t rp pg =
     (case rp_held rp of
        Some c \<Rightarrow> if tk_ping_fails t \<or> c \<notin> set (pg_live pg) then release t rp pg else (rp, pg)
      | None \<Rightarrow>
          (case tk_conn t of
             None \<Rightarrow> (rp, pg)
           | Some c \<Rightarrow>
               (case pg_try_advisory_lock c pg of
                  None \<Rightarrow> (rp, pg)
                | Some (ok, pg') \<Rightarrow>
                    if tk_query t = SqlFailed then (rp, pg)
                    else if tk_query t = SqlLost \<or> \<not> ok then (rp, pg')
                    else ((set_leader True rp)\<lparr>rp_held := Some c\<rparr>, pg'))))"

section \<open>Replicas against one server\<close>

record cluster =
  cl_reps :: "nat \<Rightarrow> replica"
  cl_pg :: pg_server

definition at_replica :: "nat \<Rightarrow> replica \<times> pg_server \<Rightarrow> cluster \<Rightarrow> cluster" where
  "at_replica i x cl = cl\<lparr>cl_reps := (cl_reps cl)(i := fst x), cl_pg := snd x\<rparr>"

definition tick_at :: "nat \<Rightarrow> tick \<Rightarrow> cluster \<Rightarrow> cluster" where
  "tick_at i t cl = at_replica i (election_tick t (cl_reps cl i) (cl_pg cl)) cl"

text \<open>The loop ends when its context is cancelled; the deferred release runs.\<close>

definition stop_at :: "nat \<Rightarrow> tick \<Rightarrow> cluster \<Rightarrow> cluster" where
  "stop_at i t cl = at_replica i (release t (cl_reps cl i) (cl_pg cl)) cl"

inductive cluster_step :: "cluster \<Rightarrow> cluster \<Rightarrow> bool" where
  tick: "(\<And>c. tk_conn t = Some c \<Longrightarrow> fst c = i) \<Longrightarrow> cluster_step cl (tick_at i t cl)"
| stop: "cluster_step cl (stop_at i t cl)"
| connect: "c \<notin> set (pg_live (cl_pg cl)) \<Longrightarrow> c \<notin> set (pg_ended (cl_pg cl)) \<Longrightarrow>
    cluster_step cl (cl\<lparr>cl_pg := pg_connect c (cl_pg cl)\<rparr>)"
| end_session: "cluster_step cl (cl\<lparr>cl_pg := pg_end_session c (cl_pg cl)\<rparr>)"

inductive_cases cluster_stepE: "cluster_step cl cl'"

definition start_cluster :: "(nat \<Rightarrow> store) \<Rightarrow> cluster" where
  "start_cluster ss =
     \<lparr>cl_reps = (\<lambda>i. \<lparr>rp_store = SetLeaderForTest True False (ss i), rp_held = None\<rparr>),
      cl_pg = \<lparr>pg_lock = None, pg_live = [], pg_ended = []\<rparr>\<rparr>"

inductive cluster_reach :: "(nat \<Rightarrow> store) \<Rightarrow> cluster \<Rightarrow> bool" for ss where
  started: "cluster_reach ss (start_cluster ss)"
| stepped: "cluster_reach ss cl \<Longrightarrow> cluster_step cl cl' \<Longrightarrow> cluster_reach ss cl'"

section \<open>The lock is with the live leader\<close>

definition replica_inv :: "pg_server \<Rightarrow> nat \<Rightarrow> replica \<Rightarrow> bool" where
  "replica_inv pg i rp \<longleftrightarrow>
     st_leader_enabled (rp_store rp) \<and> (st_is_leader (rp_store rp) \<longleftrightarrow> rp_held rp \<noteq> None)
     \<and> (\<forall>c. rp_held rp = Some c \<longrightarrow> fst c = i \<and> c \<in> set (pg_live pg) \<union> set (pg_ended pg)
          \<and> (c \<in> set (pg_live pg) \<longrightarrow> (\<exists>n. pg_lock pg = Some (c, n))))"

definition server_inv :: "pg_server \<Rightarrow> bool" where
  "server_inv pg \<longleftrightarrow>
     set (pg_live pg) \<inter> set (pg_ended pg) = {}
     \<and> (\<forall>c n. pg_lock pg = Some (c, n) \<longrightarrow> c \<in> set (pg_live pg) \<and> 0 < n)"

definition cluster_inv :: "cluster \<Rightarrow> bool" where
  "cluster_inv cl \<longleftrightarrow> server_inv (cl_pg cl) \<and> (\<forall>i. replica_inv (cl_pg cl) i (cl_reps cl i))"

lemma try_lock_Some:
  "pg_try_advisory_lock c pg = Some (b, pg') \<longleftrightarrow>
     c \<in> set (pg_live pg) \<and>
     (case pg_lock pg of
        None \<Rightarrow> b \<and> pg' = pg\<lparr>pg_lock := Some (c, 1)\<rparr>
      | Some (x, n) \<Rightarrow> if x = c then b \<and> pg' = pg\<lparr>pg_lock := Some (c, n + 1)\<rparr> else \<not> b \<and> pg' = pg)"
  by (auto simp: pg_try_advisory_lock_def split: option.splits)

text \<open>Another replica keeps its invariant when the lock stays, or moves between sessions of this one.\<close>

lemma replica_inv_other:
  assumes "replica_inv pg j rp" "j \<noteq> i" "pg_live pg' = pg_live pg" "pg_ended pg' = pg_ended pg"
    and "\<And>c n. pg_lock pg = Some (c, n) \<Longrightarrow> fst c \<noteq> i \<Longrightarrow> pg_lock pg' = pg_lock pg"
  shows "replica_inv pg' j rp"
  using assms by (fastforce simp: replica_inv_def)

lemma release_inv:
  assumes "server_inv pg" "replica_inv pg i rp" "release t rp pg = (rp', pg')"
  shows "server_inv pg' \<and> replica_inv pg' i rp' \<and> pg_live pg' = pg_live pg \<and> pg_ended pg' = pg_ended pg
    \<and> (\<forall>c n. pg_lock pg = Some (c, n) \<longrightarrow> fst c \<noteq> i \<longrightarrow> pg_lock pg' = pg_lock pg)"
  using assms
  by (auto simp: release_def pg_advisory_unlock_def server_inv_def replica_inv_def set_leader_def split: option.splits if_splits)

lemma election_tick_inv:
  assumes "server_inv pg" "replica_inv pg i rp" "election_tick t rp pg = (rp', pg')"
    and "\<And>c. tk_conn t = Some c \<Longrightarrow> fst c = i"
  shows "server_inv pg' \<and> replica_inv pg' i rp' \<and> pg_live pg' = pg_live pg \<and> pg_ended pg' = pg_ended pg
    \<and> (\<forall>c n. pg_lock pg = Some (c, n) \<longrightarrow> fst c \<noteq> i \<longrightarrow> pg_lock pg' = pg_lock pg)"
proof (cases "rp_held rp")
  case (Some c)
  with assms release_inv [OF assms(1,2)] show ?thesis by (auto simp: election_tick_def split: if_splits)
next
  case None
  with assms show ?thesis
    by (auto simp: election_tick_def try_lock_Some server_inv_def replica_inv_def set_leader_def
        split: option.splits if_splits bool.splits prod.splits)
qed

lemma at_replica_inv:
  assumes "cluster_inv cl"
    and "server_inv pg' \<and> replica_inv pg' i rp' \<and> pg_live pg' = pg_live (cl_pg cl) \<and> pg_ended pg' = pg_ended (cl_pg cl)
    \<and> (\<forall>c n. pg_lock (cl_pg cl) = Some (c, n) \<longrightarrow> fst c \<noteq> i \<longrightarrow> pg_lock pg' = pg_lock (cl_pg cl))"
  shows "cluster_inv (at_replica i (rp', pg') cl)"
  using assms replica_inv_other [of "cl_pg cl" _ _ i pg']
  by (auto simp: cluster_inv_def at_replica_def)

lemma cluster_step_inv: "cluster_step cl cl' \<Longrightarrow> cluster_inv cl \<Longrightarrow> cluster_inv cl'"
proof (induction rule: cluster_step.induct)
  case (tick t i cl)
  obtain rp' pg' where e: "election_tick t (cl_reps cl i) (cl_pg cl) = (rp', pg')" by force
  from at_replica_inv [OF tick.prems election_tick_inv [OF _ _ e tick.hyps]] tick.prems show ?case
    by (simp add: tick_at_def e cluster_inv_def)
next
  case (stop cl i t)
  obtain rp' pg' where e: "release t (cl_reps cl i) (cl_pg cl) = (rp', pg')" by force
  from at_replica_inv [OF stop.prems release_inv [OF _ _ e]] stop.prems show ?case
    by (simp add: stop_at_def e cluster_inv_def)
next
  case (connect c cl)
  then show ?case
    by (fastforce simp: cluster_inv_def server_inv_def replica_inv_def pg_connect_def)
next
  case (end_session cl c)
  then show ?case
    by (fastforce simp: cluster_inv_def server_inv_def replica_inv_def pg_end_session_def split: option.splits)
qed

lemma cluster_reach_inv: "cluster_reach ss cl \<Longrightarrow> cluster_inv cl"
proof (induction rule: cluster_reach.induct)
  case started
  then show ?case
    by (simp add: start_cluster_def cluster_inv_def server_inv_def replica_inv_def SetLeaderForTest_def)
qed (rule cluster_step_inv)

lemma leader_holds:
  assumes "cluster_inv cl" "IsLeader (rp_store (cl_reps cl i))"
  obtains c where "rp_held (cl_reps cl i) = Some c" "fst c = i" "c \<in> set (pg_ended (cl_pg cl)) \<or> (\<exists>n. pg_lock (cl_pg cl) = Some (c, n))"
proof -
  have "replica_inv (cl_pg cl) i (cl_reps cl i)" using assms(1) by (simp add: cluster_inv_def)
  with assms(2) that show ?thesis by (auto simp: replica_inv_def IsLeader_def split: if_splits)
qed

lemma ended_steps_down:
  assumes "cluster_inv cl" "rp_held (cl_reps cl k) = Some c" "c \<in> set (pg_ended (cl_pg cl))"
  shows "\<not> IsLeader (rp_store (cl_reps (tick_at k t cl) k))"
proof -
  have "c \<notin> set (pg_live (cl_pg cl))" "st_leader_enabled (rp_store (cl_reps cl k))"
    using assms by (auto simp: cluster_inv_def server_inv_def replica_inv_def)
  then show ?thesis using assms(2)
    by (simp add: tick_at_def at_replica_def election_tick_def release_def set_leader_def IsLeader_def)
qed

text \<open>
  C22. At most one replica whose database session is alive takes itself for the leader: in
  every reachable state of any number of replicas, with sessions opened and lost at any
  time and any ping, query or unlock failing, with or without effect at the server, if two replicas answer that they are the
  leader, the session one of them locked with has ended, and that one steps down at its
  next tick whatever the tick meets.
\<close>
theorem one_live_leader:
  assumes "cluster_reach ss cl" "IsLeader (rp_store (cl_reps cl i))" "IsLeader (rp_store (cl_reps cl j))" "i \<noteq> j"
  shows "\<exists>k \<in> {i, j}. (\<exists>c. rp_held (cl_reps cl k) = Some c \<and> c \<in> set (pg_ended (cl_pg cl)))
           \<and> (\<forall>t. \<not> IsLeader (rp_store (cl_reps (tick_at k t cl) k)))"
proof -
  note inv = cluster_reach_inv [OF assms(1)]
  obtain a where a: "rp_held (cl_reps cl i) = Some a" "fst a = i"
    "a \<in> set (pg_ended (cl_pg cl)) \<or> (\<exists>n. pg_lock (cl_pg cl) = Some (a, n))" by (rule leader_holds [OF inv assms(2)])
  obtain b where b: "rp_held (cl_reps cl j) = Some b" "fst b = j"
    "b \<in> set (pg_ended (cl_pg cl)) \<or> (\<exists>n. pg_lock (cl_pg cl) = Some (b, n))" by (rule leader_holds [OF inv assms(3)])
  have "a \<in> set (pg_ended (cl_pg cl)) \<or> b \<in> set (pg_ended (cl_pg cl))" using a b assms(4) by auto
  then show ?thesis using a(1) b(1) ended_steps_down [OF inv] by blast
qed

definition good_tick :: "session \<Rightarrow> tick" where
  "good_tick c = \<lparr>tk_ping_fails = False, tk_conn = Some c, tk_query = SqlDone, tk_unlock = SqlDone\<rparr>"

text \<open>A replica takes the lock, its session is lost, and another one takes it.\<close>

definition demo_pg_store :: store where
  "demo_pg_store = open_store ''postgres://db'' empty_db"

definition demo_cluster1 :: cluster where
  "demo_cluster1 =
     (let cl0 = start_cluster (\<lambda>_. demo_pg_store);
          cl1 = cl0\<lparr>cl_pg := pg_connect (0, 0) (cl_pg cl0)\<rparr>;
          cl2 = cl1\<lparr>cl_pg := pg_connect (1, 0) (cl_pg cl1)\<rparr> in
      tick_at 0 (good_tick (0, 0)) cl2)"

definition demo_cluster2 :: cluster where
  "demo_cluster2 =
     (let cl1 = demo_cluster1\<lparr>cl_pg := pg_end_session (0, 0) (cl_pg demo_cluster1)\<rparr> in
      tick_at 1 (good_tick (1, 0)) cl1)"

lemma demo_cluster1_reach: "cluster_reach (\<lambda>_. demo_pg_store) demo_cluster1"
  unfolding demo_cluster1_def Let_def
  by (rule stepped [OF stepped [OF stepped [OF started connect] connect] tick])
    (simp_all add: start_cluster_def pg_connect_def good_tick_def)

theorem one_live_leader_witness:
  "IsLeader (rp_store (cl_reps demo_cluster2 0)) \<and> IsLeader (rp_store (cl_reps demo_cluster2 1))
   \<and> (\<exists>k \<in> {0, 1}. (\<exists>c. rp_held (cl_reps demo_cluster2 k) = Some c \<and> c \<in> set (pg_ended (cl_pg demo_cluster2)))
        \<and> (\<forall>t. \<not> IsLeader (rp_store (cl_reps (tick_at k t demo_cluster2) k))))"
proof -
  have r: "cluster_reach (\<lambda>_. demo_pg_store) demo_cluster2"
    unfolding demo_cluster2_def Let_def
    by (rule stepped [OF stepped [OF demo_cluster1_reach end_session] tick]) (simp add: good_tick_def)
  have l: "IsLeader (rp_store (cl_reps demo_cluster2 0))" "IsLeader (rp_store (cl_reps demo_cluster2 1))"
    by code_simp+
  from one_live_leader [OF r l] l show ?thesis by simp
qed

text \<open>
  What may happen between two ticks of replica \<open>i\<close>: the others tick, stop, connect and lose
  their sessions; every unlock takes effect, and no replica takes the lock without the answer
  reaching it.
\<close>

inductive others_step :: "nat \<Rightarrow> cluster \<Rightarrow> cluster \<Rightarrow> bool" for i where
  other_tick: "j \<noteq> i \<Longrightarrow> (\<And>c. tk_conn t = Some c \<Longrightarrow> fst c = j) \<Longrightarrow> tk_query t \<noteq> SqlLost \<Longrightarrow> tk_unlock t \<noteq> SqlFailed \<Longrightarrow> others_step i cl (tick_at j t cl)"
| other_stop: "j \<noteq> i \<Longrightarrow> tk_unlock t \<noteq> SqlFailed \<Longrightarrow> others_step i cl (stop_at j t cl)"
| any_connect: "c \<notin> set (pg_live (cl_pg cl)) \<Longrightarrow> c \<notin> set (pg_ended (cl_pg cl)) \<Longrightarrow>
    others_step i cl (cl\<lparr>cl_pg := pg_connect c (cl_pg cl)\<rparr>)"
| other_end: "fst c \<noteq> i \<Longrightarrow> others_step i cl (cl\<lparr>cl_pg := pg_end_session c (cl_pg cl)\<rparr>)"

text \<open>The lock is with a replica that knows it has it.\<close>

definition lock_known :: "cluster \<Rightarrow> bool" where
  "lock_known cl \<longleftrightarrow> (\<forall>c n. pg_lock (cl_pg cl) = Some (c, n) \<longrightarrow> n = 1 \<and> rp_held (cl_reps cl (fst c)) = Some c)"

lemma held_inv:
  assumes "cluster_inv cl" "rp_held (cl_reps cl j) = Some c"
  shows "fst c = j \<and> (c \<in> set (pg_live (cl_pg cl)) \<longrightarrow> (\<exists>n. pg_lock (cl_pg cl) = Some (c, n))) \<and> IsLeader (rp_store (cl_reps cl j))"
proof -
  have "replica_inv (cl_pg cl) j (cl_reps cl j)" using assms(1) by (simp add: cluster_inv_def)
  with assms(2) show ?thesis by (simp add: replica_inv_def IsLeader_def)
qed

lemma stop_known:
  assumes "cluster_inv cl" "lock_known cl" "tk_unlock t \<noteq> SqlFailed"
  shows "lock_known (stop_at j t cl)"
proof (cases "rp_held (cl_reps cl j)")
  case held: (Some c)
  show ?thesis
  proof (cases "pg_lock (cl_pg cl)")
    case (Some l)
    obtain c' n where l: "l = (c', n)" by (cases l)
    have l': "n = 1" "rp_held (cl_reps cl (fst c')) = Some c'" "c' \<in> set (pg_live (cl_pg cl))"
      using assms(1,2) Some l by (auto simp: lock_known_def cluster_inv_def server_inv_def)
    have pg: "pg_lock (cl_pg (stop_at j t cl)) = (if c' = c then None else Some (c', n))"
      using assms(3) Some l l'(1,3) held by (cases "c' = c") (simp_all add: stop_at_def at_replica_def release_def pg_advisory_unlock_def)
    have "fst c' \<noteq> j" if "c' \<noteq> c" using that l'(2) held by auto
    then have "rp_held (cl_reps (stop_at j t cl) (fst c')) = Some c'" if "c' \<noteq> c"
      using that l'(2) by (simp add: stop_at_def at_replica_def)
    with pg l'(1) show ?thesis by (cases c') (simp add: lock_known_def)
  qed (use assms(3) held in
      \<open>simp add: lock_known_def stop_at_def at_replica_def release_def pg_advisory_unlock_def\<close>)
qed (use assms in \<open>auto simp: lock_known_def stop_at_def at_replica_def release_def\<close>)

lemma tick_known:
  assumes "cluster_inv cl" "lock_known cl" "tk_unlock t \<noteq> SqlFailed" "tk_query t \<noteq> SqlLost" "\<And>c. tk_conn t = Some c \<Longrightarrow> fst c = j"
  shows "lock_known (tick_at j t cl)"
proof (cases "rp_held (cl_reps cl j)")
  case (Some c)
  then have "tick_at j t cl = stop_at j t cl \<or> tick_at j t cl = cl"
    by (simp add: tick_at_def stop_at_def at_replica_def election_tick_def)
  with assms(2) stop_known [OF assms(1-3)] show ?thesis by auto
next
  case None
  with assms(2,4,5) show ?thesis
    by (auto simp: lock_known_def tick_at_def at_replica_def election_tick_def try_lock_Some
        split: option.splits if_splits bool.splits prod.splits)
qed

lemma tick_sessions:
  "pg_live (cl_pg (tick_at j t cl)) = pg_live (cl_pg cl) \<and> pg_ended (cl_pg (tick_at j t cl)) = pg_ended (cl_pg cl)"
proof (cases "rp_held (cl_reps cl j)")
  case (Some c)
  then show ?thesis
    by (auto simp: tick_at_def at_replica_def election_tick_def release_def pg_advisory_unlock_def split: option.splits)
next
  case None
  then show ?thesis
    by (auto simp: tick_at_def at_replica_def election_tick_def pg_try_advisory_lock_def split: option.splits)
qed

text \<open>What replica \<open>i\<close> can rely on while the others move.\<close>

definition waiting :: "nat \<Rightarrow> session \<Rightarrow> session option \<Rightarrow> cluster \<Rightarrow> bool" where
  "waiting i c h cl \<longleftrightarrow> cluster_inv cl \<and> lock_known cl \<and> c \<in> set (pg_live (cl_pg cl)) \<and> rp_held (cl_reps cl i) = h
     \<and> (\<forall>e. h = Some e \<longrightarrow> e = c \<or> e \<in> set (pg_ended (cl_pg cl)))"

lemma others_step_waiting:
  assumes "others_step i cl cl'" "waiting i c h cl" "fst c = i"
  shows "waiting i c h cl'"
proof -
  have "cluster_step cl cl'"
    using assms(1) by cases (auto intro: cluster_step.intros)
  then have inv: "cluster_inv cl'" using cluster_step_inv assms(2) by (simp add: waiting_def)
  have w: "cluster_inv cl" "lock_known cl" using assms(2) by (simp_all add: waiting_def)
  have "lock_known cl' \<and> cl_reps cl' i = cl_reps cl i \<and> (c \<in> set (pg_live (cl_pg cl)) \<longrightarrow> c \<in> set (pg_live (cl_pg cl')))
      \<and> set (pg_ended (cl_pg cl)) \<subseteq> set (pg_ended (cl_pg cl'))"
    using assms(1)
  proof cases
    case (other_tick j t)
    have "pg_live (cl_pg cl') = pg_live (cl_pg cl) \<and> pg_ended (cl_pg cl') = pg_ended (cl_pg cl)"
      using other_tick(1) tick_sessions by blast
    with other_tick tick_known [OF w] show ?thesis by (simp add: tick_at_def at_replica_def)
  next
    case (other_stop j t)
    with stop_known [OF w] show ?thesis
      by (auto simp: stop_at_def at_replica_def release_def pg_advisory_unlock_def split: option.splits)
  next
    case (any_connect x)
    with w(2) show ?thesis by (auto simp: lock_known_def pg_connect_def)
  next
    case (other_end x)
    with w(2) assms(3) show ?thesis by (auto simp: lock_known_def pg_end_session_def split: option.splits if_splits)
  qed
  with inv assms(2) show ?thesis by (auto simp: waiting_def)
qed

lemma others_run_waiting:
  assumes "(others_step i)\<^sup>*\<^sup>* cl cl'" "waiting i c h cl" "fst c = i"
  shows "waiting i c h cl'"
  using assms(1,2)
proof (induction rule: rtranclp_induct)
  case (step y z)
  from others_step_waiting [OF step.hyps(2) step.IH [OF step.prems] assms(3)] show ?case .
qed simp

text \<open>A tick with a working connection: it drops a lost session, keeps a live one, or tries the lock.\<close>

lemma good_tick_waiting:
  assumes "waiting i c h cl" "fst c = i"
  shows "\<exists>h'. waiting i c h' (tick_at i (good_tick c) cl) \<and> (h' = None \<or> h' = Some c)
    \<and> (h = None \<or> h = Some c \<longrightarrow> pg_lock (cl_pg (tick_at i (good_tick c) cl)) \<noteq> None)"
proof -
  let ?cl = "tick_at i (good_tick c) cl"
  have w: "cluster_inv cl" "lock_known cl" "c \<in> set (pg_live (cl_pg cl))" "rp_held (cl_reps cl i) = h"
    "\<forall>e. h = Some e \<longrightarrow> e = c \<or> e \<in> set (pg_ended (cl_pg cl))"
    using assms(1) by (simp_all add: waiting_def)
  have conn: "fst e = i" if "tk_conn (good_tick c) = Some e" for e using that assms(2) by (simp add: good_tick_def)
  have inv: "cluster_inv ?cl" by (rule cluster_step_inv [OF tick [OF conn] w(1)])
  have known: "lock_known ?cl" by (rule tick_known [OF w(1,2) _ _ conn]) (simp_all add: good_tick_def)
  have live: "c \<in> set (pg_live (cl_pg ?cl))" using w(3) tick_sessions by simp
  have "(rp_held (cl_reps ?cl i) = None \<or> rp_held (cl_reps ?cl i) = Some c) \<and> (h = None \<or> h = Some c \<longrightarrow> pg_lock (cl_pg ?cl) \<noteq> None)"
  proof (cases h)
    case None
    with w(3,4) show ?thesis
      by (auto simp: tick_at_def at_replica_def election_tick_def good_tick_def pg_try_advisory_lock_def set_leader_def split: option.splits)
  next
    case (Some e)
    show ?thesis
    proof (cases "e = c")
      case True
      with held_inv [OF w(1), of i c] Some w(3,4) show ?thesis
        by (auto simp: tick_at_def at_replica_def election_tick_def good_tick_def)
    next
      case False
      then have "e \<notin> set (pg_live (cl_pg cl))" using w(1,5) Some by (auto simp: cluster_inv_def server_inv_def)
      with Some w(4) False show ?thesis
        by (simp add: tick_at_def at_replica_def election_tick_def good_tick_def release_def)
    qed
  qed
  then show ?thesis using inv known live by (intro exI [of _ "rp_held (cl_reps ?cl i)"]) (auto simp: waiting_def)
qed

text \<open>
  C23. Leadership is taken over: when the session that holds the lock ends, then as soon as
  any one replica has ticked twice over a working connection, some replica is the leader and
  the live session it holds has the lock: that replica itself, or another one that was faster,
  and then the first one is a follower.  Before and between the two ticks the other replicas
  may tick, stop, connect and lose sessions in any order, as long as each unlock takes effect,
  no lock is taken whose answer is lost, and the sessions of the first one stay up.
\<close>
theorem leadership_taken_over:
  assumes "cluster_reach ss cl" "pg_lock (cl_pg cl) = Some (c, n)"
    and "(i, m) \<in> set (pg_live (cl_pg cl))" "(i, m) \<noteq> c"
    and "(others_step i)\<^sup>*\<^sup>* (cl\<lparr>cl_pg := pg_end_session c (cl_pg cl)\<rparr>) cl1"
    and "(others_step i)\<^sup>*\<^sup>* (tick_at i (good_tick (i, m)) cl1) cl2"
    and "cl3 = tick_at i (good_tick (i, m)) cl2"
  shows "\<exists>j e. IsLeader (rp_store (cl_reps cl3 j)) \<and> rp_held (cl_reps cl3 j) = Some e
           \<and> pg_lock (cl_pg cl3) = Some (e, 1) \<and> e \<in> set (pg_live (cl_pg cl3))
           \<and> (IsLeader (rp_store (cl_reps cl3 i)) \<longleftrightarrow> j = i)"
proof -
  define cl0 where "cl0 = cl\<lparr>cl_pg := pg_end_session c (cl_pg cl)\<rparr>"
  have inv: "cluster_inv cl0"
    unfolding cl0_def by (rule cluster_step_inv [OF end_session cluster_reach_inv [OF assms(1)]])
  have free: "pg_lock (cl_pg cl0) = None" and live: "(i, m) \<in> set (pg_live (cl_pg cl0))"
    using assms(2-4) by (simp_all add: cl0_def pg_end_session_def)
  have "e \<in> set (pg_ended (cl_pg cl0))" if "rp_held (cl_reps cl0 i) = Some e" for e
  proof -
    have "replica_inv (cl_pg cl0) i (cl_reps cl0 i)" using inv by (simp add: cluster_inv_def)
    with that free show ?thesis by (cases e) (auto simp: replica_inv_def)
  qed
  then have "waiting i (i, m) (rp_held (cl_reps cl0 i)) cl0"
    using inv free live by (simp add: waiting_def lock_known_def)
  then have "waiting i (i, m) (rp_held (cl_reps cl0 i)) cl1"
    by (rule others_run_waiting [OF assms(5) [folded cl0_def]]) simp
  then obtain h where h: "waiting i (i, m) h (tick_at i (good_tick (i, m)) cl1)" "h = None \<or> h = Some (i, m)"
    using good_tick_waiting by fastforce
  have "waiting i (i, m) h cl2" by (rule others_run_waiting [OF assms(6) h(1)]) simp
  then obtain h' where w: "waiting i (i, m) h' cl3" and h': "h' = None \<or> h' = Some (i, m)" and lk: "pg_lock (cl_pg cl3) \<noteq> None"
    using good_tick_waiting [of i "(i, m)" h cl2] h(2) assms(7) by auto
  then obtain e where e: "pg_lock (cl_pg cl3) = Some (e, 1)" "rp_held (cl_reps cl3 (fst e)) = Some e" and i3: "cluster_inv cl3"
    by (auto simp: waiting_def lock_known_def)
  have el: "e \<in> set (pg_live (cl_pg cl3))" using i3 e(1) by (auto simp: cluster_inv_def server_inv_def)
  have "fst e = i" if lead: "IsLeader (rp_store (cl_reps cl3 i))"
  proof -
    have "rp_held (cl_reps cl3 i) = Some (i, m)" using leader_holds [OF i3 lead] w h' by (auto simp: waiting_def)
    with held_inv [OF i3 this] w e(1) show ?thesis by (auto simp: waiting_def)
  qed
  with e el held_inv [OF i3 e(2)] show ?thesis by (intro exI [of _ "fst e"] exI [of _ e]) auto
qed

text \<open>The first replica loses its session; the second one takes over while the first one steps down.\<close>

definition demo_cluster3 :: cluster where
  "demo_cluster3 = tick_at 0 (good_tick (0, 0)) demo_cluster2"

theorem leadership_taken_over_witness:
  "pg_lock (cl_pg demo_cluster1) = Some ((0, 0), 1)
   \<and> (let cl3 = tick_at 1 (good_tick (1, 0)) demo_cluster3 in
      \<exists>j e. IsLeader (rp_store (cl_reps cl3 j)) \<and> rp_held (cl_reps cl3 j) = Some e
        \<and> pg_lock (cl_pg cl3) = Some (e, 1) \<and> e \<in> set (pg_live (cl_pg cl3))
        \<and> (IsLeader (rp_store (cl_reps cl3 1)) \<longleftrightarrow> j = 1))"
proof -
  have l: "pg_lock (cl_pg demo_cluster1) = Some ((0, 0), 1)" by code_simp
  have m: "(1, 0) \<in> set (pg_live (cl_pg demo_cluster1))" by code_simp
  have ne: "(1 :: nat, 0 :: nat) \<noteq> (0, 0)" by simp
  have "others_step 1 demo_cluster2 demo_cluster3"
    unfolding demo_cluster3_def by (rule other_tick) (simp_all add: good_tick_def)
  then have "(others_step 1)\<^sup>*\<^sup>* (tick_at 1 (good_tick (1, 0))
      (demo_cluster1\<lparr>cl_pg := pg_end_session (0, 0) (cl_pg demo_cluster1)\<rparr>)) demo_cluster3"
    unfolding demo_cluster2_def Let_def by (rule r_into_rtranclp)
  from leadership_taken_over [OF demo_cluster1_reach l m ne rtranclp.rtrancl_refl this refl] l show ?thesis
    unfolding Let_def by blast
qed

end
