(* ===== verification/Engine.thy ===== *)
theory Engine
  imports Policies Complex_Main "HOL-Library.AList"
begin

text \<open>
  The policy engine, \<^verbatim>\<open>internal/server/policy/engine.go\<close> and \<^verbatim>\<open>directory.go\<close>.  The Cedar
  library is an argument: its parser, the annotations and effect of a parsed policy, its
  reader of entities and its authorizer.  A Go map is an association list.
\<close>

section \<open>The Cedar library\<close>

type_synonym uid = "string \<times> string"

datatype cedar_value =
  CBool bool | CLong int | CString string | CSet "cedar_value list" | CRecord "(string \<times> cedar_value) list"

text \<open>An entity without its tags, which the code hands on unread; its identifier is its key in the map.\<close>

record centity =
  ce_parents :: "uid set"
  ce_attrs :: "(string \<times> cedar_value) list"

type_synonym entity_map = "(uid \<times> centity) list"

record cedar_request =
  cq_principal :: uid
  cq_action :: uid
  cq_resource :: uid
  cq_context :: "(string \<times> cedar_value) list"

record cedar_diag =
  dg_reasons :: "string list"
  dg_errors :: "(string \<times> string) list"

record 'p cedar =
  cd_parse :: "string \<Rightarrow> string \<Rightarrow> err + (string \<times> 'p) list"
  cd_id :: "'p \<Rightarrow> string option"
  cd_forbid :: "'p \<Rightarrow> bool"
  cd_entities :: "string \<Rightarrow> err + entity_map"
  cd_authorize :: "(string \<rightharpoonup> 'p) \<Rightarrow> (uid \<rightharpoonup> centity) \<Rightarrow> cedar_request \<Rightarrow> bool \<times> cedar_diag"

section \<open>Sources\<close>

type_synonym sources = "(string \<times> string) list"

definition StoredPolicyPrefix :: string where
  "StoredPolicyPrefix = ''api/''"

definition StoredPolicyKey :: "string \<Rightarrow> string" where
  "StoredPolicyKey i = StoredPolicyPrefix @ i"

definition unionSources :: "sources \<Rightarrow> sources \<Rightarrow> sources" where
  "unionSources files stored =
     fold (\<lambda>(i, text). AList.update (StoredPolicyKey i) text) stored
       (fold (\<lambda>(name, text). AList.update name text) files [])"

text \<open>\<^verbatim>\<open>filepath.Ext\<close>: from the last dot, if it is after the last slash.\<close>

definition file_ext :: "string \<Rightarrow> string" where
  "file_ext path =
     (let tl = takeWhile (\<lambda>c. c \<noteq> CHR ''.'' \<and> c \<noteq> CHR ''/'') (rev path);
          rest = drop (length tl) (rev path) in
      case rest of [] \<Rightarrow> [] | c # _ \<Rightarrow> if c = CHR ''.'' then c # rev tl else [])"

definition trim_suffix :: "string \<Rightarrow> string \<Rightarrow> string" where
  "trim_suffix s suf = (if has_suffix s suf then take (length s - length suf) s else s)"

definition source_stem :: "string \<Rightarrow> string" where
  "source_stem base =
     (if has_prefix base StoredPolicyPrefix then base else trim_suffix base (file_ext base))"

definition policy_id :: "'p cedar \<Rightarrow> string \<Rightarrow> string \<Rightarrow> 'p \<Rightarrow> string" where
  "policy_id cd base autoID p =
     (case cd_id cd p of
        None \<Rightarrow> source_stem base @ ''::'' @ autoID
      | Some v \<Rightarrow>
          if v = [] then source_stem base @ ''::'' @ autoID
          else if has_prefix base StoredPolicyPrefix then source_stem base @ ''::'' @ v else v)"

fun add_policies :: "'p cedar \<Rightarrow> string \<Rightarrow> (string \<times> 'p) list \<Rightarrow> (string \<times> 'p) list \<Rightarrow> err + (string \<times> 'p) list" where
  "add_policies cd base [] ps = Inr ps"
| "add_policies cd base ((autoID, p) # rest) ps =
     (let i = policy_id cd base autoID p in
      if i \<in> fst ` set ps then Inl (ErrInvalid ''duplicate policy id'')
      else add_policies cd base rest (ps @ [(i, p)]))"

fun parse_names :: "'p cedar \<Rightarrow> sources \<Rightarrow> string list \<Rightarrow> (string \<times> 'p) list \<Rightarrow> err + (string \<times> 'p) list" where
  "parse_names cd srcs [] ps = Inr ps"
| "parse_names cd srcs (base # names) ps =
     (case cd_parse cd base (the (map_of srcs base)) of
        Inl e \<Rightarrow> Inl e
      | Inr fileSet \<Rightarrow>
          (case add_policies cd base fileSet ps of
             Inl e \<Rightarrow> Inl e
           | Inr ps' \<Rightarrow> parse_names cd srcs names ps'))"

definition parseSources :: "'p cedar \<Rightarrow> sources \<Rightarrow> string \<Rightarrow> err + (string \<times> 'p) list \<times> entity_map" where
  "parseSources cd srcs entitiesJSON =
     (case parse_names cd srcs (sort (map fst srcs)) [] of
        Inl e \<Rightarrow> Inl e
      | Inr ps \<Rightarrow>
          if entitiesJSON = [] then Inr (ps, [])
          else (case cd_entities cd entitiesJSON of Inl e \<Rightarrow> Inl e | Inr ents \<Rightarrow> Inr (ps, ents)))"

section \<open>The directory\<close>

record membership =
  mb_group :: string
  mb_expires_at :: gotime

text \<open>The trust domain is its name, empty for the zero value.\<close>

record directory =
  dr_trust_domain :: string
  dr_domains :: sources
  dr_groups :: "string list"
  dr_memberships :: "(string \<times> membership list) list"

record directory_snapshot =
  sn_trust_domain :: string
  sn_domains :: "string list"
  sn_memberships :: "(string \<times> membership list) list"

definition domain_entity :: "string \<Rightarrow> centity" where
  "domain_entity parent = \<lparr>ce_parents = (if parent \<noteq> [] then {(''Domain'', parent)} else {}), ce_attrs = []\<rparr>"

definition plain_entity :: centity where
  "plain_entity = \<lparr>ce_parents = {}, ce_attrs = []\<rparr>"

definition buildDirectory :: "directory \<Rightarrow> entity_map \<times> directory_snapshot" where
  "buildDirectory d =
     (fold (\<lambda>g. AList.update (''Group'', g) plain_entity) (dr_groups d)
        (fold (\<lambda>(name, parent). AList.update (''Domain'', name) (domain_entity parent)) (dr_domains d) []),
      \<lparr>sn_trust_domain = dr_trust_domain d, sn_domains = map fst (dr_domains d), sn_memberships = dr_memberships d\<rparr>)"

section \<open>The engine\<close>

record ev_entity =
  ee_type :: string
  ee_id :: string

record 'p engine =
  en_policies :: "(string \<times> 'p) list"
  en_static :: entity_map
  en_sources :: sources
  en_files :: sources
  en_file_ids :: "string list"
  en_stored :: "sources option"
  en_static_raw :: string
  en_dir_spec :: directory
  en_directory :: entity_map
  en_snap :: directory_snapshot
  en_entities :: entity_map
  en_by_type :: "(string \<times> ev_entity list) list"
  en_revision :: string

text \<open>Buckets by type, each in the order of the ids.\<close>

definition indexByType :: "entity_map \<Rightarrow> (string \<times> ev_entity list) list" where
  "indexByType ents =
     map (\<lambda>typ. (typ, map (\<lambda>u. \<lparr>ee_type = fst u, ee_id = snd u\<rparr>)
                        (sort_key snd (filter (\<lambda>u. fst u = typ) (map fst ents)))))
       (remdups (map (fst \<circ> fst) ents))"

definition merge_entities :: "entity_map \<Rightarrow> entity_map \<Rightarrow> entity_map" where
  "merge_entities static dir = fold (\<lambda>(u, e). AList.update u e) dir (fold (\<lambda>(u, e). AList.update u e) static [])"

definition rebuildLocked :: "'p engine \<Rightarrow> 'p engine" where
  "rebuildLocked e =
     (let merged = merge_entities (en_static e) (en_directory e) in
      e\<lparr>en_entities := merged, en_by_type := indexByType merged\<rparr>)"

definition zero_directory :: directory where
  "zero_directory = \<lparr>dr_trust_domain = [], dr_domains = [], dr_groups = [], dr_memberships = []\<rparr>"

definition New_engine :: "'p engine" where
  "New_engine =
     \<lparr>en_policies = [], en_static = [], en_sources = [], en_files = [], en_file_ids = [], en_stored = None,
      en_static_raw = [], en_dir_spec = zero_directory, en_directory = [],
      en_snap = \<lparr>sn_trust_domain = [], sn_domains = [], sn_memberships = []\<rparr>,
      en_entities = [], en_by_type = [], en_revision = []\<rparr>"

definition LoadSources :: "'p cedar \<Rightarrow> sources \<Rightarrow> string \<Rightarrow> 'p engine \<Rightarrow> err + 'p engine" where
  "LoadSources cd srcs entitiesJSON e =
     (if \<exists>name \<in> set (map fst srcs). contains_char CHR ''/'' name then Inl (ErrInvalid ''policy file name'')
      else let union = unionSources srcs (case en_stored e of None \<Rightarrow> [] | Some st \<Rightarrow> st) in
      case parseSources cd union entitiesJSON of
        Inl er \<Rightarrow> Inl er
      | Inr (ps, ents) \<Rightarrow>
          (case parseSources cd srcs [] of
             Inl er \<Rightarrow> Inl er
           | Inr (filePS, _) \<Rightarrow>
               Inr (rebuildLocked (e\<lparr>en_policies := ps, en_static := ents, en_files := srcs,
                 en_file_ids := map fst filePS, en_sources := union, en_static_raw := entitiesJSON\<rparr>))))"

definition maps_Equal :: "sources \<Rightarrow> sources \<Rightarrow> bool" where
  "maps_Equal a b \<longleftrightarrow> length a = length b \<and> (\<forall>(k, v) \<in> set a. map_of b k = Some v)"

definition SetStoredPolicies :: "'p cedar \<Rightarrow> sources \<Rightarrow> 'p engine \<Rightarrow> err + 'p engine" where
  "SetStoredPolicies cd stored e =
     (if case en_stored e of None \<Rightarrow> False | Some cur \<Rightarrow> maps_Equal cur stored then Inr e
      else let union = unionSources (en_files e) stored in
      case parseSources cd union [] of
        Inl er \<Rightarrow> Inl er
      | Inr (ps, _) \<Rightarrow> Inr (e\<lparr>en_policies := ps, en_stored := Some stored, en_sources := union\<rparr>))"

definition FilePolicies :: "'p engine \<Rightarrow> sources" where
  "FilePolicies e = en_files e"

definition CheckStored :: "'p cedar \<Rightarrow> string \<Rightarrow> string \<Rightarrow> 'p engine \<Rightarrow> err + string list" where
  "CheckStored cd i text e =
     (case parseSources cd [(StoredPolicyKey i, text)] [] of
        Inl er \<Rightarrow> Inl er
      | Inr (ps, _) \<Rightarrow>
          let ids = sort (map fst ps) in
          if ids = [] then Inl (ErrInvalid ''text holds no Cedar policy'')
          else if \<exists>pid \<in> set ids. pid \<in> set (en_file_ids e)
          then Inl (ErrInvalid ''policy id is already defined by a --policy-dir file'')
          else Inr ids)"

definition Snapshot_engine :: "'p engine \<Rightarrow> sources \<times> string \<times> directory" where
  "Snapshot_engine e = (en_sources e, en_static_raw e, en_dir_spec e)"

definition setDirectoryLocked :: "directory \<Rightarrow> entity_map \<Rightarrow> directory_snapshot \<Rightarrow> 'p engine \<Rightarrow> 'p engine" where
  "setDirectoryLocked d ents snap e = e\<lparr>en_dir_spec := d, en_directory := ents, en_snap := snap\<rparr>"

definition SetDirectory :: "directory \<Rightarrow> 'p engine \<Rightarrow> 'p engine" where
  "SetDirectory d e = (let (ents, snap) = buildDirectory d in rebuildLocked (setDirectoryLocked d ents snap e))"

definition EntitiesOfType :: "string \<Rightarrow> 'p engine \<Rightarrow> ev_entity list" where
  "EntitiesOfType typ e = (case map_of (en_by_type e) typ of None \<Rightarrow> [] | Some es \<Rightarrow> es)"

definition ActionNames :: "'p engine \<Rightarrow> string list" where
  "ActionNames e = map ee_id (EntitiesOfType ''Action'' e)"

section \<open>The domain of a workload\<close>

text \<open>
  The SPIFFE library parses an id into its trust domain and its path, which is empty or
  starts with a slash; it is an argument.
\<close>

type_synonym spiffe = "string \<Rightarrow> (string \<times> string) option"

fun deepest_domain :: "string list \<Rightarrow> string list \<Rightarrow> nat \<Rightarrow> string" where
  "deepest_domain doms segs 0 = []"
| "deepest_domain doms segs (Suc n) =
     (let name = join_with CHR ''.'' (take (Suc n) segs) in
      if name \<in> set doms then name else deepest_domain doms segs n)"

definition path_labels :: "string \<Rightarrow> string list" where
  "path_labels path =
     takeWhile (\<lambda>seg. \<not> contains_char CHR ''.'' seg)
       (split_on CHR ''/'' (if has_prefix path ''/'' then drop 1 path else path))"

definition domainOfSPIFFEID :: "spiffe \<Rightarrow> string \<Rightarrow> string list \<Rightarrow> string \<Rightarrow> string" where
  "domainOfSPIFFEID sp raw doms td =
     (case sp raw of
        None \<Rightarrow> []
      | Some (itd, path) \<Rightarrow>
          if itd \<noteq> td \<or> path = [] then []
          else deepest_domain doms (path_labels path) (length (path_labels path)))"

definition added_parents :: "spiffe \<Rightarrow> directory_snapshot \<Rightarrow> gotime \<Rightarrow> string \<Rightarrow> uid list" where
  "added_parents sp snap now i =
     (let d = (if sn_trust_domain snap \<noteq> [] then domainOfSPIFFEID sp i (sn_domains snap) (sn_trust_domain snap) else []) in
      (if d \<noteq> [] then [(''Domain'', d)] else []) @
      map (\<lambda>m. (''Group'', mb_group m))
        (filter (\<lambda>m. is_zero_time (mb_expires_at m) \<or> now < mb_expires_at m)
           (case map_of (sn_memberships snap) i of None \<Rightarrow> [] | Some ms \<Rightarrow> ms)))"

definition add_parents :: "spiffe \<Rightarrow> directory_snapshot \<Rightarrow> gotime \<Rightarrow> uid \<Rightarrow> entity_map \<Rightarrow> entity_map" where
  "add_parents sp snap now u ents =
     (if fst u \<noteq> ''Spiffe'' then ents
      else let add = added_parents sp snap now (snd u) in
      if add = [] then ents
      else let ent = (case map_of ents u of None \<Rightarrow> plain_entity | Some en \<Rightarrow> en) in
           AList.update u (ent\<lparr>ce_parents := ce_parents ent \<union> set add\<rparr>) ents)"

definition withSPIFFEParents :: "spiffe \<Rightarrow> entity_map \<Rightarrow> directory_snapshot \<Rightarrow> gotime \<Rightarrow> uid list \<Rightarrow> entity_map" where
  "withSPIFFEParents sp ents snap now uids =
     (if sn_domains snap = [] \<and> sn_memberships snap = [] then ents
      else fold (add_parents sp snap now) uids ents)"

section \<open>Values of a request\<close>

text \<open>
  A value decoded from JSON, or built by a caller.  A float64 is the rational number it
  stands for; how \<^verbatim>\<open>strconv\<close> writes one in decimal is an argument of the functions that need
  it.
\<close>

datatype any =
  ANil | ABool bool | AString string | AFloat rat | AInt int | AStrings "string list"
  | AArray "any list" | AMap "(string \<times> any) list"

fun containsNull :: "any \<Rightarrow> bool" where
  "containsNull ANil = True"
| "containsNull (AMap kvs) = (\<exists>(k, v) \<in> set kvs. containsNull v)"
| "containsNull (AArray vs) = (\<exists>v \<in> set vs. containsNull v)"
| "containsNull _ = False"

text \<open>How \<^verbatim>\<open>json.Marshal\<close> sees it: map keys in order.\<close>

fun any_json :: "(rat \<Rightarrow> string) \<Rightarrow> any \<Rightarrow> json" where
  "any_json ff ANil = JNull"
| "any_json ff (ABool b) = JBool b"
| "any_json ff (AString s) = JStr s"
| "any_json ff (AFloat x) = JNum (ff x)"
| "any_json ff (AInt n) = JInt n"
| "any_json ff (AStrings ss) = JList (map JStr ss)"
| "any_json ff (AArray vs) = JList (map (any_json ff) vs)"
| "any_json ff (AMap kvs) = JObj (sort_key fst (map (\<lambda>(k, v). (k, any_json ff v)) kvs))"

definition all_Inr :: "('e + 'a) list \<Rightarrow> 'e + 'a list" where
  "all_Inr xs = foldr (\<lambda>x acc. case x of Inl e \<Rightarrow> Inl e | Inr v \<Rightarrow> (case acc of Inl e \<Rightarrow> Inl e | Inr vs \<Rightarrow> Inr (v # vs))) xs (Inr [])"

fun valueOf :: "(rat \<Rightarrow> string) \<Rightarrow> any \<Rightarrow> err + cedar_value" where
  "valueOf ff ANil = Inl (ErrInvalid ''null has no Cedar value'')"
| "valueOf ff (ABool b) = Inr (CBool b)"
| "valueOf ff (AString s) = Inr (CString s)"
| "valueOf ff (AFloat x) =
     (if x \<noteq> of_int \<lfloor>x\<rfloor> then Inl (ErrInvalid ''number has a fractional part'')
      else if x \<ge> 2 ^ 63 \<or> x < - (2 ^ 63) then Inl (ErrInvalid ''number is out of the supported int64 range'')
      else Inr (CLong \<lfloor>x\<rfloor>))"
| "valueOf ff (AInt n) = Inr (CLong n)"
| "valueOf ff (AStrings ss) = Inr (CSet (map CString ss))"
| "valueOf ff (AArray vs) =
     (case all_Inr (map (valueOf ff) vs) of Inl e \<Rightarrow> Inl e | Inr xs \<Rightarrow> Inr (CSet xs))"
| "valueOf ff (AMap kvs) = Inr (CString (json_marshal (any_json ff (AMap kvs))))"

fun record_fields :: "(rat \<Rightarrow> string) \<Rightarrow> (string \<times> any) list \<Rightarrow> err + (string \<times> cedar_value) list" where
  "record_fields ff [] = Inr []"
| "record_fields ff ((k, v) # rest) =
     (if containsNull v then record_fields ff rest
      else (case valueOf ff v of
              Inl e \<Rightarrow> Inl e
            | Inr x \<Rightarrow> (case record_fields ff rest of Inl e \<Rightarrow> Inl e | Inr r \<Rightarrow> Inr ((k, x) # r))))"

definition recordFromMap :: "(rat \<Rightarrow> string) \<Rightarrow> (string \<times> any) list \<Rightarrow> err + (string \<times> cedar_value) list" where
  "recordFromMap ff m = (if m = [] then Inr [] else record_fields ff m)"

section \<open>Evaluation\<close>

record entity_arg =
  ea_type :: string
  ea_id :: string
  ea_attrs :: "(string \<times> any) list"

record eval_request =
  rq_subject :: entity_arg
  rq_action :: string
  rq_resource :: entity_arg
  rq_context :: "(string \<times> any) list"

record policy_error =
  pe_policy :: string
  pe_message :: string

record decision_context =
  dc_reasons :: "string list"
  dc_errors :: "policy_error list"

record eval_response =
  rp_decision :: bool
  rp_context :: "decision_context option"
  rp_reasons :: "string list"

definition ForCaller :: "eval_response \<Rightarrow> eval_response" where
  "ForCaller r =
     (case rp_context r of
        None \<Rightarrow> r
      | Some c \<Rightarrow>
          if dc_errors c = [] then r
          else r\<lparr>rp_context := Some (c\<lparr>dc_errors := map (\<lambda>e. \<lparr>pe_policy = pe_policy e, pe_message = []\<rparr>) (dc_errors c)\<rparr>)\<rparr>)"

definition validate :: "eval_request \<Rightarrow> err option" where
  "validate r =
     (if trim_space (ea_type (rq_subject r)) = [] \<or> trim_space (ea_id (rq_subject r)) = []
      then Some (ErrInvalid ''subject.type and subject.id are required'')
      else if trim_space (rq_action r) = [] then Some (ErrInvalid ''action.name is required'')
      else if trim_space (ea_type (rq_resource r)) = [] \<or> trim_space (ea_id (rq_resource r)) = []
      then Some (ErrInvalid ''resource.type and resource.id are required'')
      else None)"

definition requestEntities ::
  "(rat \<Rightarrow> string) \<Rightarrow> uid \<Rightarrow> (string \<times> any) list \<Rightarrow> uid \<Rightarrow> (string \<times> any) list \<Rightarrow> err + entity_map" where
  "requestEntities ff subUID subAttrs resUID resAttrs =
     (case (if subAttrs \<noteq> [] then recordFromMap ff subAttrs else Inr []) of
        Inl e \<Rightarrow> Inl e
      | Inr srec \<Rightarrow>
          let out = (if subAttrs \<noteq> [] then [(subUID, \<lparr>ce_parents = {}, ce_attrs = srec\<rparr>)] else []) in
          if resAttrs \<noteq> [] \<and> resUID \<noteq> subUID
          then (case recordFromMap ff resAttrs of
                  Inl e \<Rightarrow> Inl e
                | Inr rrec \<Rightarrow> Inr (AList.update resUID \<lparr>ce_parents = {}, ce_attrs = rrec\<rparr> out))
          else Inr out)"

definition prepare :: "(rat \<Rightarrow> string) \<Rightarrow> eval_request \<Rightarrow> err + cedar_request \<times> entity_map" where
  "prepare ff r =
     (case validate r of
        Some e \<Rightarrow> Inl e
      | None \<Rightarrow>
          let pu = (ea_type (rq_subject r), ea_id (rq_subject r));
              ru = (ea_type (rq_resource r), ea_id (rq_resource r)) in
          (case recordFromMap ff (rq_context r) of
             Inl e \<Rightarrow> Inl e
           | Inr ctx \<Rightarrow>
               (case requestEntities ff pu (ea_attrs (rq_subject r)) ru (ea_attrs (rq_resource r)) of
                  Inl e \<Rightarrow> Inl e
                | Inr overlays \<Rightarrow>
                    Inr (\<lparr>cq_principal = pu, cq_action = (''Action'', rq_action r), cq_resource = ru, cq_context = ctx\<rparr>,
                         overlays))))"

definition Validate :: "(rat \<Rightarrow> string) \<Rightarrow> eval_request \<Rightarrow> err option" where
  "Validate ff r = (case prepare ff r of Inl e \<Rightarrow> Some e | Inr _ \<Rightarrow> None)"

definition seed_overlays :: "entity_map \<Rightarrow> entity_map \<Rightarrow> entity_map" where
  "seed_overlays base overlays =
     fold (\<lambda>(u, en) ents. if map_of ents u \<noteq> None then ents else AList.update u en ents) overlays base"

definition errored_forbids :: "'p cedar \<Rightarrow> (string \<times> 'p) list \<Rightarrow> (string \<times> string) list \<Rightarrow> string list" where
  "errored_forbids cd ps errs =
     map fst (filter (\<lambda>(i, _). case map_of ps i of None \<Rightarrow> True | Some p \<Rightarrow> cd_forbid cd p) errs)"

definition decide :: "'p cedar \<Rightarrow> (string \<times> 'p) list \<Rightarrow> bool \<times> cedar_diag \<Rightarrow> eval_response" where
  "decide cd ps = (\<lambda>(ok, diag).
     let ef = errored_forbids cd ps (dg_errors diag);
         decision = (if ef \<noteq> [] then False else ok);
         reasons = (if ef \<noteq> [] then (if ok then [] else dg_reasons diag) @ ef else dg_reasons diag) in
     \<lparr>rp_decision = decision,
      rp_context = (if dg_reasons diag \<noteq> [] \<or> dg_errors diag \<noteq> []
                    then Some \<lparr>dc_reasons = reasons,
                               dc_errors = map (\<lambda>(i, m). \<lparr>pe_policy = i, pe_message = m\<rparr>) (dg_errors diag)\<rparr>
                    else None),
      rp_reasons = reasons\<rparr>)"

definition request_entities_of ::
  "spiffe \<Rightarrow> gotime \<Rightarrow> 'p engine \<Rightarrow> cedar_request \<Rightarrow> entity_map \<Rightarrow> entity_map" where
  "request_entities_of sp now e cq overlays =
     withSPIFFEParents sp (seed_overlays (en_entities e) overlays) (en_snap e) now [cq_principal cq, cq_resource cq]"

definition EvaluateRevision ::
  "'p cedar \<Rightarrow> spiffe \<Rightarrow> (rat \<Rightarrow> string) \<Rightarrow> gotime \<Rightarrow> eval_request \<Rightarrow> 'p engine \<Rightarrow> err + eval_response \<times> string" where
  "EvaluateRevision cd sp ff now req e =
     (case prepare ff req of
        Inl er \<Rightarrow> Inl er
      | Inr (cq, overlays) \<Rightarrow>
          Inr (decide cd (en_policies e)
                 (cd_authorize cd (map_of (en_policies e)) (map_of (request_entities_of sp now e cq overlays)) cq),
               en_revision e))"

definition Evaluate ::
  "'p cedar \<Rightarrow> spiffe \<Rightarrow> (rat \<Rightarrow> string) \<Rightarrow> gotime \<Rightarrow> eval_request \<Rightarrow> 'p engine \<Rightarrow> err + eval_response" where
  "Evaluate cd sp ff now req e =
     (case EvaluateRevision cd sp ff now req e of Inl er \<Rightarrow> Inl er | Inr (r, _) \<Rightarrow> Inr r)"

end
