(* ===== verification/EngineLoad.thy ===== *)
theory EngineLoad
  imports Engine "HOL-Library.Disjoint_Sets"
begin

text \<open>
  Loading policies: when a set of sources loads, the invariant every loader of the engine
  keeps, and how stored policies live next to the policies of the files.
\<close>

section \<open>What it means that sources load\<close>

definition source_names :: "sources \<Rightarrow> string set" where
  "source_names srcs = fst ` set srcs"

lemma source_names_iff: "n \<in> source_names srcs \<longleftrightarrow> map_of srcs n \<noteq> None"
  by (simp add: source_names_def map_of_eq_None_iff)

lemma set_names [simp]: "set (map fst srcs) = source_names srcs"
  by (simp add: source_names_def)

definition source_policies :: "'p cedar \<Rightarrow> sources \<Rightarrow> string \<Rightarrow> (string \<times> 'p) list" where
  "source_policies cd srcs base =
     (case cd_parse cd base (the (map_of srcs base)) of
        Inl _ \<Rightarrow> [] | Inr fs \<Rightarrow> map (\<lambda>(a, p). (policy_id cd base a p, p)) fs)"

definition source_ids :: "'p cedar \<Rightarrow> sources \<Rightarrow> string \<Rightarrow> string list" where
  "source_ids cd srcs base = map fst (source_policies cd srcs base)"

definition source_parses :: "'p cedar \<Rightarrow> sources \<Rightarrow> string \<Rightarrow> bool" where
  "source_parses cd srcs base \<longleftrightarrow> \<not> isl (cd_parse cd base (the (map_of srcs base))) \<and> distinct (source_ids cd srcs base)"

definition loads :: "'p cedar \<Rightarrow> sources \<Rightarrow> bool" where
  "loads cd srcs \<longleftrightarrow>
     (\<forall>n \<in> source_names srcs. source_parses cd srcs n)
     \<and> disjoint_family_on (\<lambda>n. set (source_ids cd srcs n)) (source_names srcs)"

lemma add_policies_Inr:
  "distinct (map fst ps) \<Longrightarrow> add_policies cd base fs ps = Inr ps' \<longleftrightarrow>
     ps' = ps @ map (\<lambda>(a, p). (policy_id cd base a p, p)) fs \<and> distinct (map fst ps')"
proof (induction fs arbitrary: ps)
  case (Cons x fs)
  obtain a p where x: "x = (a, p)" by force
  show ?case
  proof (cases "policy_id cd base a p \<in> fst ` set ps")
    case True
    then show ?thesis by (auto simp: x Let_def)
  next
    case False
    with Cons show ?thesis by (simp add: x Let_def)
  qed
qed auto

lemma parse_names_Inr:
  "distinct (map fst ps) \<Longrightarrow> parse_names cd srcs names ps = Inr ps' \<longleftrightarrow>
     (\<forall>n \<in> set names. \<not> isl (cd_parse cd n (the (map_of srcs n))))
     \<and> ps' = ps @ concat (map (source_policies cd srcs) names) \<and> distinct (map fst ps')"
proof (induction names arbitrary: ps)
  case (Cons n names)
  show ?case
  proof (cases "cd_parse cd n (the (map_of srcs n))")
    case (Inr fs)
    then have sp: "source_policies cd srcs n = map (\<lambda>(a, p). (policy_id cd n a p, p)) fs"
      by (simp add: source_policies_def)
    show ?thesis
    proof (cases "add_policies cd n fs ps")
      case (Inl e)
      with add_policies_Inr [OF Cons.prems, of cd n fs] have "\<not> distinct (map fst (ps @ source_policies cd srcs n))"
        by (metis sp sum.distinct(1))
      with Inr Inl show ?thesis by auto
    next
      case (Inr ps1)
      with add_policies_Inr [OF Cons.prems, of cd n fs ps1]
      have "ps1 = ps @ source_policies cd srcs n" "distinct (map fst ps1)" unfolding sp by blast+
      with Inr \<open>cd_parse cd n _ = Inr fs\<close> Cons.IH [of ps1] show ?thesis by simp
    qed
  qed auto
qed auto

lemma distinct_concat_map:
  "distinct xs \<Longrightarrow> distinct (concat (map f xs)) \<longleftrightarrow>
     (\<forall>x \<in> set xs. distinct (f x)) \<and> disjoint_family_on (\<lambda>x. set (f x)) (set xs)"
proof (induction xs)
  case (Cons x xs)
  have "distinct (concat (map f (x # xs))) \<longleftrightarrow>
      distinct (f x) \<and> distinct (concat (map f xs)) \<and> set (f x) \<inter> (\<Union>y \<in> set xs. set (f y)) = {}" by simp
  with Cons show ?case by (simp add: disjoint_family_on_insert conj_ac)
qed (simp add: disjoint_family_on_def)

lemma map_fst_concat: "map fst (concat (map (source_policies cd srcs) names)) = concat (map (source_ids cd srcs) names)"
  by (induction names) (simp_all add: source_ids_def)

abbreviation all_policies :: "'p cedar \<Rightarrow> sources \<Rightarrow> (string \<times> 'p) list" where
  "all_policies cd srcs \<equiv> concat (map (source_policies cd srcs) (sort (map fst srcs)))"

lemma distinct_all_policies:
  assumes "distinct (map fst srcs)"
  shows "distinct (map fst (all_policies cd srcs)) \<longleftrightarrow>
    (\<forall>n \<in> source_names srcs. distinct (source_ids cd srcs n)) \<and> disjoint_family_on (\<lambda>n. set (source_ids cd srcs n)) (source_names srcs)"
  using distinct_concat_map [of "sort (map fst srcs)" "source_ids cd srcs"] assms
  unfolding map_fst_concat by (simp add: source_names_def)

lemma parse_names_loads:
  assumes "distinct (map fst srcs)"
  shows "parse_names cd srcs (sort (map fst srcs)) [] = Inr ps \<longleftrightarrow> loads cd srcs \<and> ps = all_policies cd srcs"
proof -
  have "parse_names cd srcs (sort (map fst srcs)) [] = Inr ps \<longleftrightarrow>
      (\<forall>n \<in> source_names srcs. \<not> isl (cd_parse cd n (the (map_of srcs n))))
      \<and> ps = all_policies cd srcs \<and> distinct (map fst (all_policies cd srcs))"
    using parse_names_Inr [of "[]" cd srcs "sort (map fst srcs)" ps] by (simp add: source_names_def) blast
  then show ?thesis unfolding distinct_all_policies [OF assms] loads_def source_parses_def by blast
qed

lemma parseSources_policies:
  assumes "distinct (map fst srcs)"
  shows "parseSources cd srcs [] = Inr (ps, ents) \<longleftrightarrow> loads cd srcs \<and> ents = [] \<and> ps = all_policies cd srcs"
proof (cases "parse_names cd srcs (sort (map fst srcs)) []")
  case (Inl e)
  then have "\<not> loads cd srcs" using parse_names_loads [OF assms, of cd "all_policies cd srcs"] by simp
  with Inl show ?thesis by (simp add: parseSources_def)
next
  case (Inr qs)
  then have "loads cd srcs" "qs = all_policies cd srcs" using parse_names_loads [OF assms, of cd qs] by simp_all
  with Inr show ?thesis by (auto simp: parseSources_def)
qed

lemma parseSources_entities:
  "parseSources cd srcs raw = Inr (ps, ents) \<Longrightarrow>
     parseSources cd srcs [] = Inr (ps, []) \<and> (if raw = [] then ents = [] else cd_entities cd raw = Inr ents)"
  by (auto simp: parseSources_def split: sum.splits if_splits)

section \<open>The union of files and stored policies\<close>

lemma fold_update_distinct: "distinct (map fst m) \<Longrightarrow> distinct (map fst (fold (\<lambda>(k, v). AList.update (f k) v) xs m))"
  by (induction xs arbitrary: m) (auto simp: distinct_update)

lemma map_of_fold_update:
  "distinct (map (f \<circ> fst) xs) \<Longrightarrow>
   map_of (fold (\<lambda>(k, v). AList.update (f k) v) xs m) k =
     (case map_of (map (\<lambda>(k, v). (f k, v)) xs) k of None \<Rightarrow> map_of m k | Some v \<Rightarrow> Some v)"
proof (induction xs arbitrary: m)
  case (Cons x xs)
  obtain a b where x: "x = (a, b)" by force
  have "map_of (map (\<lambda>(k, v). (f k, v)) xs) (f a) = None" using Cons.prems by (force simp: x map_of_eq_None_iff image_iff)
  with Cons show ?case by (auto simp: x update_conv split: option.splits)
qed simp

lemma StoredPolicyKey_inject [simp]: "StoredPolicyKey i = StoredPolicyKey j \<longleftrightarrow> i = j"
  by (simp add: StoredPolicyKey_def)

lemma inj_StoredPolicyKey: "inj_on StoredPolicyKey A"
  by (simp add: inj_on_def)

lemma map_of_map_key: "inj f \<Longrightarrow> map_of (map (\<lambda>(k, v). (f k, v)) xs) (f i) = map_of xs i"
  by (induction xs) (auto simp: inj_eq)

lemma map_of_files: "distinct (map fst files) \<Longrightarrow> map_of (fold (\<lambda>(name, text). AList.update name text) files []) = map_of files"
  using map_of_fold_update [of "\<lambda>k. k" files "[]"] by (auto simp: comp_def fun_eq_iff split: option.splits)

lemma distinct_stored_keys: "distinct (map fst stored) \<Longrightarrow> distinct (map (StoredPolicyKey \<circ> fst) stored)"
  using inj_StoredPolicyKey by (auto simp: distinct_map intro: comp_inj_on)

lemma distinct_unionSources [simp]: "distinct (map fst (unionSources files stored))"
  using fold_update_distinct [OF fold_update_distinct [of "[]" "\<lambda>k. k" files], of StoredPolicyKey stored]
  by (simp add: unionSources_def)

lemma slash_key: "CHR ''/'' \<in> set (StoredPolicyKey i)"
  by (simp add: StoredPolicyKey_def StoredPolicyPrefix_def)

lemma map_of_union_stored:
  assumes "distinct (map fst files)" "distinct (map fst stored)" "\<forall>n \<in> source_names files. CHR ''/'' \<notin> set n"
  shows "map_of (unionSources files stored) (StoredPolicyKey i) = map_of stored i"
proof -
  have "map_of files (StoredPolicyKey i) = None"
    using assms(3) slash_key [of i] by (auto simp: source_names_iff)
  then show ?thesis
    using map_of_fold_update [OF distinct_stored_keys [OF assms(2)]]
    by (simp add: unionSources_def map_of_map_key inj_def map_of_files [OF assms(1)] split: option.splits)
qed

lemma map_of_union_other:
  assumes "distinct (map fst files)" "distinct (map fst stored)" "n \<notin> range StoredPolicyKey"
  shows "map_of (unionSources files stored) n = map_of files n"
proof -
  have "map_of (map (\<lambda>(k, v). (StoredPolicyKey k, v)) stored) n = None"
    using assms(3) by (auto simp: map_of_eq_None_iff)
  then show ?thesis
    using map_of_fold_update [OF distinct_stored_keys [OF assms(2)]]
    by (simp add: unionSources_def map_of_files [OF assms(1)])
qed

lemma map_of_union_file:
  assumes "distinct (map fst files)" "distinct (map fst stored)" "CHR ''/'' \<notin> set n"
  shows "map_of (unionSources files stored) n = map_of files n"
  using assms slash_key by (intro map_of_union_other) auto

section \<open>The invariant of the engine\<close>

definition stored_of :: "'p engine \<Rightarrow> sources" where
  "stored_of e = (case en_stored e of None \<Rightarrow> [] | Some st \<Rightarrow> st)"

definition engine_inv :: "'p cedar \<Rightarrow> 'p engine \<Rightarrow> bool" where
  "engine_inv cd e \<longleftrightarrow>
     distinct (map fst (en_files e)) \<and> distinct (map fst (stored_of e))
     \<and> (\<forall>n \<in> source_names (en_files e). CHR ''/'' \<notin> set n)
     \<and> en_sources e = unionSources (en_files e) (stored_of e)
     \<and> loads cd (en_sources e) \<and> en_policies e = all_policies cd (en_sources e)
     \<and> loads cd (en_files e) \<and> en_file_ids e = map fst (all_policies cd (en_files e))
     \<and> (if en_static_raw e = [] then en_static e = [] else cd_entities cd (en_static_raw e) = Inr (en_static e))
     \<and> (en_directory e, en_snap e) = buildDirectory (en_dir_spec e)
     \<and> en_entities e = merge_entities (en_static e) (en_directory e) \<and> en_by_type e = indexByType (en_entities e)"

lemma source_policies_cong: "map_of srcs n = map_of srcs' n \<Longrightarrow> source_policies cd srcs n = source_policies cd srcs' n"
  by (simp add: source_policies_def)

lemma source_ids_cong: "map_of srcs n = map_of srcs' n \<Longrightarrow> source_ids cd srcs n = source_ids cd srcs' n"
  by (simp add: source_ids_def source_policies_def)

lemma source_parses_cong: "map_of srcs n = map_of srcs' n \<Longrightarrow> source_parses cd srcs n \<longleftrightarrow> source_parses cd srcs' n"
  by (simp add: source_parses_def source_ids_def source_policies_def)

lemma names_update [simp]: "source_names (AList.update k v srcs) = insert k (source_names srcs)"
  by (auto simp: source_names_iff update_conv split: if_splits)

lemma names_union:
  assumes "distinct (map fst files)" "distinct (map fst stored)" "\<forall>n \<in> source_names files. CHR ''/'' \<notin> set n"
  shows "source_names (unionSources files stored) = source_names files \<union> StoredPolicyKey ` source_names stored"
proof -
  have "n \<in> source_names (unionSources files stored) \<longleftrightarrow> n \<in> source_names files \<union> StoredPolicyKey ` source_names stored" for n
  proof (cases "n \<in> range StoredPolicyKey")
    case True
    then obtain i where n: "n = StoredPolicyKey i" by blast
    have "n \<notin> source_names files" using assms(3) slash_key [of i] n by blast
    with map_of_union_stored [OF assms, of i] show ?thesis
      unfolding n by (auto simp: source_names_iff image_iff)
  next
    case False
    with map_of_union_other [OF assms(1,2), of n] show ?thesis by (auto simp: source_names_iff)
  qed
  then show ?thesis by blast
qed

text \<open>Changing one source of a set that loads.\<close>

lemma loads_change:
  assumes "loads cd srcs" "source_names srcs' \<subseteq> insert key (source_names srcs)"
    and "\<And>n. n \<noteq> key \<Longrightarrow> map_of srcs' n = map_of srcs n" and "source_parses cd srcs' key"
    and "\<And>n. n \<in> source_names srcs' \<Longrightarrow> n \<noteq> key \<Longrightarrow> set (source_ids cd srcs n) \<inter> set (source_ids cd srcs' key) = {}"
  shows "loads cd srcs'"
proof -
  have parses: "source_parses cd srcs' n" if "n \<in> source_names srcs'" for n
    using that assms(1-4) source_parses_cong [of srcs' n srcs cd] by (cases "n = key") (auto simp: loads_def)
  have ids: "source_ids cd srcs' n = source_ids cd srcs n" if "n \<noteq> key" for n
    using source_ids_cong [OF assms(3) [OF that]] .
  have "set (source_ids cd srcs' n) \<inter> set (source_ids cd srcs' m) = {}"
    if "n \<in> source_names srcs'" "m \<in> source_names srcs'" "n \<noteq> m" for n m
  proof (cases "n = key \<or> m = key")
    case True
    with assms(5) ids that show ?thesis by (metis Int_commute)
  next
    case False
    with that assms(2) have "n \<in> source_names srcs" "m \<in> source_names srcs" by auto
    with assms(1) that(3) False ids show ?thesis by (auto simp: loads_def disjoint_family_on_def)
  qed
  with parses show ?thesis by (simp add: loads_def disjoint_family_on_def)
qed

lemma stored_id_shape:
  "i \<in> set (source_ids cd srcs (StoredPolicyKey k)) \<Longrightarrow> \<exists>v. i = StoredPolicyKey k @ ''::'' @ v"
  by (auto simp: source_ids_def source_policies_def policy_id_def source_stem_def StoredPolicyKey_def
      split: sum.splits option.splits if_splits)

lemma stored_ids_disjoint:
  assumes "CHR '':'' \<notin> set k" "CHR '':'' \<notin> set k'" "k \<noteq> k'"
  shows "set (source_ids cd srcs (StoredPolicyKey k)) \<inter> set (source_ids cd srcs' (StoredPolicyKey k')) = {}"
proof (rule ccontr)
  assume "\<not> ?thesis"
  then obtain i v v' where "i = StoredPolicyKey k @ ''::'' @ v" "i = StoredPolicyKey k' @ ''::'' @ v'"
    using stored_id_shape by (metis Int_iff ex_in_conv)
  then have "StoredPolicyKey k @ CHR '':'' # ('':'' @ v) = StoredPolicyKey k' @ CHR '':'' # ('':'' @ v')" by simp
  then have "StoredPolicyKey k = StoredPolicyKey k'"
    by (rule conjunct1 [OF first_sep_unique]) (use assms(1,2) in \<open>simp_all add: StoredPolicyKey_def StoredPolicyPrefix_def\<close>)
  with assms(3) show False by simp
qed

lemma ValidatePolicyID_colon: "ValidatePolicyID k = None \<Longrightarrow> CHR '':'' \<notin> set k"
proof -
  assume "ValidatePolicyID k = None"
  then have "\<forall>c \<in> set k. label_char c" by (simp add: ValidatePolicyID_def domainLabel_def list_all_iff split: if_splits)
  moreover have "\<not> label_char CHR '':''" by code_simp
  ultimately show ?thesis by blast
qed

lemma maps_Equal_map_of:
  assumes "distinct (map fst a)" "distinct (map fst b)" "maps_Equal a b"
  shows "map_of a = map_of b"
proof -
  have le: "map_of a \<subseteq>\<^sub>m map_of b"
    unfolding map_le_def
  proof
    fix k assume "k \<in> dom (map_of a)"
    then obtain v where v: "map_of a k = Some v" by blast
    with assms(3) have "map_of b k = Some v" by (auto simp: maps_Equal_def dest!: map_of_SomeD)
    with v show "map_of a k = map_of b k" by simp
  qed
  have "card (dom (map_of a)) = card (dom (map_of b))"
    using distinct_card [OF assms(1)] distinct_card [OF assms(2)] assms(3)
    by (simp add: maps_Equal_def dom_map_of_conv_image_fst source_names_def)
  then have "dom (map_of a) = dom (map_of b)" using le by (intro card_subset_eq) (auto dest: map_le_implies_dom_le simp: finite_dom_map_of)
  with le show ?thesis by (metis map_le_antisym map_le_def)
qed

text \<open>
  C27. A policy the API accepts loads: when the text of a stored policy passes
  \<^verbatim>\<open>CheckStored\<close>, putting it in the stored set, as a new policy or in place of the text it had,
  gives a set that the engine loads, next to the same files and the same other stored
  policies.
\<close>
theorem checked_policy_loads:
  assumes "engine_inv cd e" "\<forall>k \<in> source_names (stored_of e). ValidatePolicyID k = None"
    and "ValidatePolicyID i = None" "CheckStored cd i text e = Inr ids"
  shows "\<exists>e'. SetStoredPolicies cd (AList.update i text (stored_of e)) e = Inr e'
    \<and> map_of (stored_of e') = (map_of (stored_of e))(i \<mapsto> text) \<and> en_files e' = en_files e"
proof -
  let ?S = "stored_of e" and ?S' = "AList.update i text (stored_of e)" and ?F = "en_files e" and ?k = "StoredPolicyKey i"
  let ?U = "unionSources ?F ?S" and ?U' = "unionSources ?F ?S'"
  have inv: "distinct (map fst ?F)" "distinct (map fst ?S)" "\<forall>n \<in> source_names ?F. CHR ''/'' \<notin> set n" "loads cd ?U"
    "en_file_ids e = map fst (all_policies cd ?F)"
    using assms(1) by (auto simp: engine_inv_def)
  have S': "distinct (map fst ?S')" using inv(2) by (rule distinct_update)
  obtain ps ents where ps: "parseSources cd [(?k, text)] [] = Inr (ps, ents)" "set (map fst ps) \<inter> set (en_file_ids e) = {}"
    using assms(4) by (force simp: CheckStored_def Let_def split: sum.splits if_splits)
  have one: "loads cd [(?k, text)]" "ps = source_policies cd [(?k, text)] ?k"
    using ps(1) parseSources_policies [of "[(?k, text)]" cd ps ents] by simp_all
  have at: "map_of ?U' ?k = map_of [(?k, text)] ?k" using map_of_union_stored [OF inv(1) S' inv(3), of i] by (simp add: update_conv)
  have "loads cd ?U'"
  proof (rule loads_change [OF inv(4), where key = ?k])
    show "source_names ?U' \<subseteq> insert ?k (source_names ?U)"
      using names_union [OF inv(1) S' inv(3)] names_union [OF inv(1,2,3)] by auto
    show "source_parses cd ?U' ?k" using one(1) source_parses_cong [OF at, of cd] by (simp add: loads_def source_names_def)
    show "map_of ?U' n = map_of ?U n" if ne: "n \<noteq> ?k" for n
    proof (cases "n \<in> range StoredPolicyKey")
      case True
      then obtain j where "n = StoredPolicyKey j" "j \<noteq> i" using ne by auto
      then show ?thesis using map_of_union_stored [OF inv(1) _ inv(3)] inv(2) S' by (simp add: update_conv)
    next
      case False
      then show ?thesis using map_of_union_other [OF inv(1)] inv(2) S' by simp
    qed
    show "set (source_ids cd ?U n) \<inter> set (source_ids cd ?U' ?k) = {}" if n: "n \<in> source_names ?U'" "n \<noteq> ?k" for n
    proof (cases "n \<in> source_names ?F")
      case True
      then have "map_of ?U n = map_of ?F n" using map_of_union_file [OF inv(1,2)] inv(3) by blast
      with True have "set (source_ids cd ?U n) \<subseteq> set (en_file_ids e)"
        using source_ids_cong [of ?U n ?F cd] by (auto simp: inv(5) source_ids_def source_names_def)
      moreover have "set (source_ids cd ?U' ?k) = set (map fst ps)"
        using source_ids_cong [OF at, of cd] by (simp add: one(2) source_ids_def)
      ultimately show ?thesis using ps(2) by blast
    next
      case False
      with n names_union [OF inv(1) S' inv(3)] obtain j where j: "n = StoredPolicyKey j" "j \<in> source_names ?S" "j \<noteq> i" by auto
      show ?thesis unfolding j(1)
        by (rule stored_ids_disjoint) (use ValidatePolicyID_colon assms(2,3) j in blast)+
    qed
  qed
  then have load: "parseSources cd ?U' [] = Inr (all_policies cd ?U', [])" using parseSources_policies [of ?U' cd] by simp
  have same: "map_of (stored_of e) = map_of ?S'" if "en_stored e = Some cur" "maps_Equal cur ?S'" for cur
    using that maps_Equal_map_of [OF inv(2) S'] by (simp add: stored_of_def)
  have S'_map: "map_of ?S' = (map_of ?S)(i \<mapsto> text)" by (rule update_conv')
  show ?thesis
  proof (cases "\<exists>cur. en_stored e = Some cur \<and> maps_Equal cur ?S'")
    case True
    then obtain cur where c: "en_stored e = Some cur" "maps_Equal cur ?S'" by blast
    then have "SetStoredPolicies cd ?S' e = Inr e" by (simp add: SetStoredPolicies_def)
    moreover have "map_of (stored_of e) = (map_of ?S)(i \<mapsto> text)" using same [OF c] S'_map by metis
    ultimately show ?thesis by blast
  next
    case False
    let ?e' = "e\<lparr>en_policies := all_policies cd ?U', en_stored := Some ?S', en_sources := ?U'\<rparr>"
    have "SetStoredPolicies cd ?S' e = Inr ?e'"
      using False load by (auto simp: SetStoredPolicies_def Let_def split: option.splits)
    moreover have "stored_of ?e' = ?S'" by (simp add: stored_of_def)
    moreover have "en_files ?e' = en_files e" by simp
    ultimately show ?thesis using S'_map by metis
  qed
qed

section \<open>Every loader keeps the invariant\<close>

lemma New_engine_inv: "engine_inv cd New_engine"
  by (simp add: engine_inv_def New_engine_def stored_of_def unionSources_def loads_def source_names_def disjoint_family_on_def
      zero_directory_def buildDirectory_def merge_entities_def indexByType_def)

lemma rebuildLocked_fields [simp]:
  "en_policies (rebuildLocked e) = en_policies e" "en_static (rebuildLocked e) = en_static e"
  "en_sources (rebuildLocked e) = en_sources e" "en_files (rebuildLocked e) = en_files e"
  "en_file_ids (rebuildLocked e) = en_file_ids e" "en_stored (rebuildLocked e) = en_stored e"
  "en_static_raw (rebuildLocked e) = en_static_raw e" "en_dir_spec (rebuildLocked e) = en_dir_spec e"
  "en_directory (rebuildLocked e) = en_directory e" "en_snap (rebuildLocked e) = en_snap e"
  "en_entities (rebuildLocked e) = merge_entities (en_static e) (en_directory e)"
  "en_by_type (rebuildLocked e) = indexByType (merge_entities (en_static e) (en_directory e))"
  "en_revision (rebuildLocked e) = en_revision e"
  by (simp_all add: rebuildLocked_def Let_def)

lemma LoadSources_inv:
  assumes "engine_inv cd e" "LoadSources cd srcs raw e = Inr e'" "distinct (map fst srcs)"
  shows "engine_inv cd e'"
proof -
  have noslash: "\<forall>n \<in> source_names srcs. CHR ''/'' \<notin> set n"
    using assms(2) by (auto simp: LoadSources_def contains_char_def source_names_def split: if_splits)
  let ?U = "unionSources srcs (stored_of e)"
  obtain ps ents fps x where p: "parseSources cd ?U raw = Inr (ps, ents)" "parseSources cd srcs [] = Inr (fps, x)"
    and e': "e' = rebuildLocked (e\<lparr>en_policies := ps, en_static := ents, en_files := srcs,
      en_file_ids := map fst fps, en_sources := ?U, en_static_raw := raw\<rparr>)"
    using assms(2) by (auto simp: LoadSources_def stored_of_def Let_def split: if_splits sum.splits)
  note pe = parseSources_entities [OF p(1)]
  have "loads cd ?U" "ps = all_policies cd ?U" using pe parseSources_policies [of ?U cd ps "[]"] by simp_all
  moreover have "loads cd srcs" "fps = all_policies cd srcs" using parseSources_policies [OF assms(3), of cd fps x] p(2) by simp_all
  ultimately show ?thesis using assms(1,3) noslash pe by (simp add: e' engine_inv_def stored_of_def)
qed

lemma SetStoredPolicies_cases:
  assumes "SetStoredPolicies cd st e = Inr e'"
  obtains (same) cur where "en_stored e = Some cur" "maps_Equal cur st" "e' = e"
  | (loaded) ps x where "parseSources cd (unionSources (en_files e) st) [] = Inr (ps, x)"
      "e' = e\<lparr>en_policies := ps, en_stored := Some st, en_sources := unionSources (en_files e) st\<rparr>"
proof (cases "case en_stored e of None \<Rightarrow> False | Some cur \<Rightarrow> maps_Equal cur st")
  case True
  then obtain cur where "en_stored e = Some cur" "maps_Equal cur st" by (cases "en_stored e") simp_all
  moreover have "e' = e" using assms unfolding SetStoredPolicies_def if_P [OF True] by simp
  ultimately show ?thesis by (rule same)
next
  case False
  note def = assms [unfolded SetStoredPolicies_def if_not_P [OF False] Let_def]
  then obtain y where y: "parseSources cd (unionSources (en_files e) st) [] = Inr y"
    by (cases "parseSources cd (unionSources (en_files e) st) []") simp_all
  then show ?thesis using def by (cases y) (simp add: loaded)
qed

lemma SetStoredPolicies_files: "SetStoredPolicies cd st e = Inr e' \<Longrightarrow> en_files e' = en_files e"
  by (erule SetStoredPolicies_cases) simp_all

lemma SetStoredPolicies_inv:
  assumes "engine_inv cd e" "SetStoredPolicies cd st e = Inr e'" "distinct (map fst st)"
  shows "engine_inv cd e'"
  using assms(2)
proof (cases rule: SetStoredPolicies_cases)
  case same
  with assms(1) show ?thesis by simp
next
  case (loaded ps x)
  let ?U = "unionSources (en_files e) st"
  have "loads cd ?U" "ps = all_policies cd ?U" using parseSources_policies [of ?U cd ps x] loaded(1) by simp_all
  with assms(1,3) show ?thesis by (simp add: loaded(2) engine_inv_def stored_of_def)
qed

lemma SetDirectory_inv: "engine_inv cd e \<Longrightarrow> engine_inv cd (SetDirectory d e)"
  by (cases "buildDirectory d") (auto simp: SetDirectory_def setDirectoryLocked_def engine_inv_def stored_of_def)

section \<open>Stored policies never take over a file policy\<close>

lemma in_all_policies: "x \<in> set (all_policies cd srcs) \<longleftrightarrow> (\<exists>n \<in> source_names srcs. x \<in> set (source_policies cd srcs n))"
  by (simp add: source_names_def)

lemma policy_of_source:
  assumes "distinct (map fst srcs)" "loads cd srcs" "n \<in> source_names srcs" "(i, p) \<in> set (source_policies cd srcs n)"
  shows "map_of (all_policies cd srcs) i = Some p"
proof -
  have "distinct (map fst (all_policies cd srcs))" using assms(1,2) distinct_all_policies [OF assms(1), of cd]
    by (simp add: loads_def source_parses_def)
  moreover have "(i, p) \<in> set (all_policies cd srcs)" using assms(3,4) in_all_policies by metis
  ultimately show ?thesis by (rule map_of_is_SomeI)
qed

text \<open>
  C28. Policies written over the API never take over, change or hide a policy of the
  \<^verbatim>\<open>--policy-dir\<close> files, whatever ids their text declares: after any stored set loads, every
  file policy is in force under its id, and every other policy in force has an id that
  starts with \<^verbatim>\<open>api/\<close>.
\<close>
theorem file_policies_stay:
  assumes "engine_inv cd e" "SetStoredPolicies cd stored e = Inr e'" "distinct (map fst stored)"
    and "parseSources cd (en_files e) [] = Inr (filePS, x)"
  shows "(\<forall>(i, p) \<in> set filePS. map_of (en_policies e') i = Some p)
    \<and> (\<forall>(i, p) \<in> set (en_policies e'). (i, p) \<in> set filePS \<or> has_prefix i StoredPolicyPrefix)"
proof -
  note inv = SetStoredPolicies_inv [OF assms(1-3)]
  note f = SetStoredPolicies_files [OF assms(2)]
  let ?F = "en_files e" and ?S = "stored_of e'" and ?U = "en_sources e'"
  have i: "distinct (map fst ?F)" "distinct (map fst ?S)" "\<forall>n \<in> source_names ?F. CHR ''/'' \<notin> set n"
    "?U = unionSources ?F ?S" "loads cd ?U" "en_policies e' = all_policies cd ?U" "distinct (map fst ?U)"
    using inv f unfolding engine_inv_def by auto
  have ps: "filePS = all_policies cd ?F" using assms(4) parseSources_policies [OF i(1), of cd] by simp
  have same: "source_policies cd ?U n = source_policies cd ?F n" if "n \<in> source_names ?F" for n
    using source_policies_cong map_of_union_file [OF i(1,2)] i(3,4) that by metis
  have names: "source_names ?U = source_names ?F \<union> StoredPolicyKey ` source_names ?S"
    unfolding i(4) by (rule names_union [OF i(1-3)])
  have "map_of (en_policies e') a = Some p" if "(a, p) \<in> set filePS" for a p
  proof -
    from that obtain n where n: "n \<in> source_names ?F" "(a, p) \<in> set (source_policies cd ?F n)"
      unfolding ps in_all_policies by blast
    have "n \<in> source_names ?U" using n(1) names by simp
    moreover have "(a, p) \<in> set (source_policies cd ?U n)" using n same by simp
    ultimately show ?thesis unfolding i(6) by (rule policy_of_source [OF i(7,5)])
  qed
  moreover have "(a, p) \<in> set filePS \<or> has_prefix a StoredPolicyPrefix" if "(a, p) \<in> set (en_policies e')" for a p
  proof -
    from that obtain n where n: "n \<in> source_names ?U" "(a, p) \<in> set (source_policies cd ?U n)"
      unfolding i(6) in_all_policies by blast
    show ?thesis
    proof (cases "n \<in> source_names ?F")
      case True
      with n(2) same have "(a, p) \<in> set filePS" unfolding ps in_all_policies by auto
      then show ?thesis by blast
    next
      case False
      then obtain k where "n = StoredPolicyKey k" using n names by blast
      moreover have "a \<in> set (source_ids cd ?U n)" using n(2) by (force simp: source_ids_def)
      ultimately show ?thesis using stored_id_shape [of a cd ?U k] by (auto simp: StoredPolicyKey_def has_prefix_iff)
    qed
  qed
  ultimately show ?thesis by blast
qed

end
