(* ===== verification/EngineEval.thy ===== *)
theory EngineEval
  imports EngineLoad
begin

text \<open>
  Evaluating requests: failing policies, what a caller sees, the parents of a workload, the
  search index, and the values of a request.
\<close>

section \<open>Evaluation fails closed\<close>

text \<open>
  C29. An evaluation that allows was allowed by Cedar, and every policy that failed to
  evaluate for the request is a permit of the set in force: a forbid that fails, or a
  failing policy whose effect cannot be told, never lets a permit win.
\<close>
theorem failed_forbid_denies:
  assumes "EvaluateRevision cd sp ff now req e = Inr (resp, revision)" "rp_decision resp"
  shows "\<exists>cq overlays diag. prepare ff req = Inr (cq, overlays)
    \<and> cd_authorize cd (map_of (en_policies e)) (map_of (request_entities_of sp now e cq overlays)) cq = (True, diag)
    \<and> (\<forall>(i, m) \<in> set (dg_errors diag). \<exists>p. map_of (en_policies e) i = Some p \<and> \<not> cd_forbid cd p)"
proof -
  obtain cq overlays where p: "prepare ff req = Inr (cq, overlays)"
    using assms(1) by (auto simp: EvaluateRevision_def split: sum.splits)
  obtain ok diag where a: "cd_authorize cd (map_of (en_policies e)) (map_of (request_entities_of sp now e cq overlays)) cq = (ok, diag)"
    by force
  have r: "resp = decide cd (en_policies e) (ok, diag)" using assms(1) p a by (simp add: EvaluateRevision_def)
  have ef: "errored_forbids cd (en_policies e) (dg_errors diag) = []" and ok
    using assms(2) unfolding r decide_def by (auto simp: Let_def split: if_splits)
  have "\<exists>p. map_of (en_policies e) i = Some p \<and> \<not> cd_forbid cd p" if "(i, m) \<in> set (dg_errors diag)" for i m
    using ef that by (cases "map_of (en_policies e) i") (auto simp: errored_forbids_def filter_empty_conv)
  with p a \<open>ok\<close> show ?thesis by (intro exI [of _ cq] exI [of _ overlays] exI [of _ diag]) auto
qed

text \<open>Two responses that differ at most in the texts of Cedar's errors.\<close>

definition same_but_messages :: "eval_response \<Rightarrow> eval_response \<Rightarrow> bool" where
  "same_but_messages r r' \<longleftrightarrow>
     rp_decision r = rp_decision r' \<and> rp_reasons r = rp_reasons r'
     \<and> rel_option (\<lambda>c c'. dc_reasons c = dc_reasons c' \<and> map pe_policy (dc_errors c) = map pe_policy (dc_errors c'))
         (rp_context r) (rp_context r')"

text \<open>
  C33. What a caller sees of a decision tells nothing of the texts of Cedar's errors, which
  can name what a policy reads: two responses that differ only there look the same, and the
  decision, the reasons and the ids of the failing policies are shown as they are.
\<close>
theorem caller_sees_no_messages:
  "(same_but_messages r r' \<longrightarrow> ForCaller r = ForCaller r') \<and> same_but_messages r (ForCaller r)"
proof
  show "same_but_messages r (ForCaller r)"
    by (auto simp: same_but_messages_def ForCaller_def comp_def split: option.splits)
  show "same_but_messages r r' \<longrightarrow> ForCaller r = ForCaller r'"
  proof
    assume s: "same_but_messages r r'"
    have blank: "map (\<lambda>e. \<lparr>pe_policy = pe_policy e, pe_message = []\<rparr>) es = map (\<lambda>i. \<lparr>pe_policy = i, pe_message = []\<rparr>) (map pe_policy es)" for es
      by simp
    show "ForCaller r = ForCaller r'"
    proof (cases "rp_context r")
      case None
      with s show ?thesis by (auto simp: same_but_messages_def ForCaller_def)
    next
      case (Some c)
      with s obtain c' where c': "rp_context r' = Some c'" "dc_reasons c = dc_reasons c'" "map pe_policy (dc_errors c) = map pe_policy (dc_errors c')"
        by (auto simp: same_but_messages_def option_rel_Some1)
      then have nil: "dc_errors c = [] \<longleftrightarrow> dc_errors c' = []" by (metis map_is_Nil_conv)
      from s Some c' nil show ?thesis
        unfolding ForCaller_def blank by (simp add: same_but_messages_def)
    qed
  qed
qed

section \<open>The parents of a workload\<close>

lemma deepest_domain_spec:
  "(\<exists>k. 0 < k \<and> k \<le> n \<and> deepest_domain doms segs n = join_with CHR ''.'' (take k segs) \<and> join_with CHR ''.'' (take k segs) \<in> set doms
      \<and> (\<forall>m. k < m \<longrightarrow> m \<le> n \<longrightarrow> join_with CHR ''.'' (take m segs) \<notin> set doms))
   \<or> deepest_domain doms segs n = [] \<and> (\<forall>m. 0 < m \<longrightarrow> m \<le> n \<longrightarrow> join_with CHR ''.'' (take m segs) \<notin> set doms)"
proof (induction n)
  case (Suc n)
  show ?case
  proof (cases "join_with CHR ''.'' (take (Suc n) segs) \<in> set doms")
    case True
    then show ?thesis by (intro disjI1 exI [of _ "Suc n"]) (simp add: Let_def)
  next
    case False
    then have "deepest_domain doms segs (Suc n) = deepest_domain doms segs n" by (simp add: Let_def)
    with Suc False show ?thesis by (metis Suc_leI le_Suc_eq le_SucI)
  qed
qed simp

definition parents_of :: "entity_map \<Rightarrow> uid \<Rightarrow> uid set" where
  "parents_of ents u = (case map_of ents u of None \<Rightarrow> {} | Some en \<Rightarrow> ce_parents en)"

lemma parents_of_add:
  "parents_of (add_parents sp snap now v ents) u =
     parents_of ents u \<union> (if u = v \<and> fst v = ''Spiffe'' then set (added_parents sp snap now (snd v)) else {})"
proof (cases "fst v \<noteq> ''Spiffe'' \<or> added_parents sp snap now (snd v) = []")
  case True
  then show ?thesis by (auto simp: add_parents_def Let_def)
next
  case False
  then have "add_parents sp snap now v ents =
      AList.update v ((case map_of ents v of None \<Rightarrow> plain_entity | Some en \<Rightarrow> en)\<lparr>ce_parents := ce_parents (case map_of ents v of None \<Rightarrow> plain_entity | Some en \<Rightarrow> en) \<union> set (added_parents sp snap now (snd v))\<rparr>) ents"
    by (simp add: add_parents_def Let_def)
  with False show ?thesis by (auto simp: parents_of_def update_conv plain_entity_def split: option.splits)
qed

lemma parents_of_fold:
  "parents_of (fold (add_parents sp snap now) uids ents) u =
     parents_of ents u \<union> (if u \<in> set uids \<and> fst u = ''Spiffe'' then set (added_parents sp snap now (snd u)) else {})"
  by (induction uids arbitrary: ents) (auto simp: parents_of_add)

lemma deepest_domain_Nil: "deepest_domain [] segs n = []"
  by (induction n) (simp_all add: Let_def)

lemma added_parents_empty: "sn_domains snap = [] \<Longrightarrow> sn_memberships snap = [] \<Longrightarrow> added_parents sp snap now i = []"
  by (auto simp: added_parents_def Let_def domainOfSPIFFEID_def deepest_domain_Nil split: option.splits)

text \<open>
  The domain a workload belongs to: the labels of its path, up to the first one with a dot,
  name a known domain when the first \<open>k\<close> of them are joined by dots, and no longer start does.
\<close>

definition in_domain :: "spiffe \<Rightarrow> directory_snapshot \<Rightarrow> string \<Rightarrow> string \<Rightarrow> bool" where
  "in_domain sp snap i d \<longleftrightarrow>
     (\<exists>path k. sp i = Some (sn_trust_domain snap, path) \<and> path \<noteq> [] \<and> 0 < k \<and> k \<le> length (path_labels path)
        \<and> d = join_with CHR ''.'' (take k (path_labels path)) \<and> d \<in> set (sn_domains snap)
        \<and> (\<forall>m. k < m \<longrightarrow> m \<le> length (path_labels path) \<longrightarrow>
             join_with CHR ''.'' (take m (path_labels path)) \<notin> set (sn_domains snap)))"

lemma in_domain_iff:
  assumes "d \<noteq> []"
  shows "in_domain sp snap i d \<longleftrightarrow> domainOfSPIFFEID sp i (sn_domains snap) (sn_trust_domain snap) = d"
proof (cases "\<exists>path. sp i = Some (sn_trust_domain snap, path) \<and> path \<noteq> []")
  case True
  then obtain path where p: "sp i = Some (sn_trust_domain snap, path)" "path \<noteq> []" by blast
  define name where "name k = join_with CHR ''.'' (take k (path_labels path))" for k
  define n where "n = length (path_labels path)"
  define D where "D = deepest_domain (sn_domains snap) (path_labels path) n"
  have dom: "domainOfSPIFFEID sp i (sn_domains snap) (sn_trust_domain snap) = D"
    using p by (simp add: domainOfSPIFFEID_def D_def n_def)
  have spec: "in_domain sp snap i d \<longleftrightarrow> (\<exists>k. 0 < k \<and> k \<le> n \<and> d = name k \<and> name k \<in> set (sn_domains snap)
      \<and> (\<forall>m. k < m \<longrightarrow> m \<le> n \<longrightarrow> name m \<notin> set (sn_domains snap)))"
    using p by (auto simp: in_domain_def name_def n_def)
  have "(\<exists>k. 0 < k \<and> k \<le> n \<and> D = name k \<and> name k \<in> set (sn_domains snap) \<and> (\<forall>m. k < m \<longrightarrow> m \<le> n \<longrightarrow> name m \<notin> set (sn_domains snap)))
     \<or> D = [] \<and> (\<forall>m. 0 < m \<longrightarrow> m \<le> n \<longrightarrow> name m \<notin> set (sn_domains snap))"
    using deepest_domain_spec [of n "sn_domains snap" "path_labels path"] by (simp add: D_def name_def)
  then show ?thesis unfolding spec dom using assms by (metis linorder_neqE_nat)
next
  case False
  with assms show ?thesis by (auto simp: in_domain_def domainOfSPIFFEID_def split: option.splits)
qed

text \<open>
  C30. Whom a workload belongs to when a decision is made: the entity of a SPIFFE id has,
  next to the parents it is declared with, exactly the deepest known domain whose labels
  start its path, when the id is of the trust domain of the directory, and the groups whose
  membership has not expired at that time; no other entity gets a parent.
\<close>
theorem workload_parents:
  "parents_of (withSPIFFEParents sp ents snap now uids) u =
     parents_of ents u \<union>
     (if u \<in> set uids \<and> fst u = ''Spiffe''
      then {(''Domain'', d) | d. d \<noteq> [] \<and> sn_trust_domain snap \<noteq> [] \<and> in_domain sp snap (snd u) d}
         \<union> {(''Group'', mb_group m) | m ms. map_of (sn_memberships snap) (snd u) = Some ms \<and> m \<in> set ms
              \<and> (is_zero_time (mb_expires_at m) \<or> now < mb_expires_at m)}
      else {})"
proof -
  have "parents_of (withSPIFFEParents sp ents snap now uids) u =
      parents_of ents u \<union> (if u \<in> set uids \<and> fst u = ''Spiffe'' then set (added_parents sp snap now (snd u)) else {})"
    by (simp add: withSPIFFEParents_def parents_of_fold added_parents_empty)
  moreover have "set (added_parents sp snap now (snd u)) =
      {(''Domain'', d) | d. d \<noteq> [] \<and> sn_trust_domain snap \<noteq> [] \<and> in_domain sp snap (snd u) d}
         \<union> {(''Group'', mb_group m) | m ms. map_of (sn_memberships snap) (snd u) = Some ms \<and> m \<in> set ms
              \<and> (is_zero_time (mb_expires_at m) \<or> now < mb_expires_at m)}"
    by (cases "map_of (sn_memberships snap) (snd u)") (auto simp: added_parents_def Let_def in_domain_iff)
  ultimately show ?thesis by simp
qed

text \<open>A workload under two known domains is in the deeper one, and in no group once its membership expired.\<close>

definition demo_snapshot :: directory_snapshot where
  "demo_snapshot = \<lparr>sn_trust_domain = ''t'', sn_domains = [''a'', ''a.b''],
     sn_memberships = [(''w'', [\<lparr>mb_group = ''g'', mb_expires_at = 5\<rparr>])]\<rparr>"

theorem workload_parents_witness:
  "parents_of (withSPIFFEParents (\<lambda>_. Some (''t'', ''/a/b/c'')) [] demo_snapshot 9 [(''Spiffe'', ''w'')]) (''Spiffe'', ''w'') =
     {(''Domain'', ''a.b'')}
   \<and> in_domain (\<lambda>_. Some (''t'', ''/a/b/c'')) demo_snapshot ''w'' ''a.b''"
proof -
  let ?sp = "\<lambda>_. Some (''t'', ''/a/b/c'')"
  have run: "parents_of (withSPIFFEParents ?sp [] demo_snapshot 9 [(''Spiffe'', ''w'')]) (''Spiffe'', ''w'') = {(''Domain'', ''a.b'')}"
    by code_simp
  then have "(''Domain'', ''a.b'') \<in> parents_of (withSPIFFEParents ?sp [] demo_snapshot 9 [(''Spiffe'', ''w'')]) (''Spiffe'', ''w'')"
    by simp
  then have "in_domain ?sp demo_snapshot ''w'' ''a.b''"
    unfolding workload_parents by (auto simp: parents_of_def)
  with run show ?thesis by blast
qed

section \<open>The search index\<close>

lemma merge_entities_distinct: "distinct (map fst (merge_entities static dir))"
proof -
  have "distinct (map fst m) \<Longrightarrow> distinct (map fst (fold (\<lambda>(u, e). AList.update u e) xs m))" for xs m :: entity_map
    by (induction xs arbitrary: m) (auto simp: distinct_update)
  then show ?thesis by (simp add: merge_entities_def)
qed

lemma map_of_tabulate: "map_of (map (\<lambda>t. (t, f t)) ts) x = (if x \<in> set ts then Some (f x) else None)"
  by (induction ts) auto

lemma indexByType_lookup:
  "map_of (indexByType ents) typ =
     (if typ \<in> fst ` fst ` set ents
      then Some (map (\<lambda>u. \<lparr>ee_type = fst u, ee_id = snd u\<rparr>) (sort_key snd (filter (\<lambda>u. fst u = typ) (map fst ents))))
      else None)"
  unfolding indexByType_def map_of_tabulate by (simp add: image_comp comp_def)

lemma sorted_ids:
  assumes "distinct (map fst (ents :: entity_map))"
  shows "map snd (sort_key snd (filter (\<lambda>u. fst u = typ) (map fst ents))) = sorted_list_of_set {i. (typ, i) \<in> fst ` set ents}"
proof (rule sorted_distinct_set_unique)
  let ?us = "filter (\<lambda>u. fst u = typ) (map fst ents)"
  have "inj_on snd (set ?us)" by (auto simp: inj_on_def)
  then have "distinct (map snd (sort_key snd ?us))" using assms by (simp add: distinct_map)
  then show "distinct (map snd (sort_key snd ?us))" .
  show "sorted (map snd (sort_key snd ?us))" by simp
  have "{i. (typ, i) \<in> fst ` set ents} = snd ` set ?us" by force
  then show "set (map snd (sort_key snd ?us)) = set (sorted_list_of_set {i. (typ, i) \<in> fst ` set ents})" by simp
qed simp_all

text \<open>
  C31. Search enumerates the entity store in one fixed order: the entities of a type are
  exactly those of the store, each once, in the order of their ids, so the offset of a page
  means the same entity on the next call however the map iterates.
\<close>
theorem entities_of_type_sorted:
  assumes "engine_inv cd e"
  shows "map ee_id (EntitiesOfType typ e) = sorted_list_of_set {i. map_of (en_entities e) (typ, i) \<noteq> None}
    \<and> (\<forall>x \<in> set (EntitiesOfType typ e). ee_type x = typ)"
proof -
  let ?us = "sort_key snd (filter (\<lambda>u. fst u = typ) (map fst (en_entities e)))"
  have d: "distinct (map fst (en_entities e))" and ix: "en_by_type e = indexByType (en_entities e)"
    using assms merge_entities_distinct by (auto simp: engine_inv_def)
  have es: "EntitiesOfType typ e = map (\<lambda>u. \<lparr>ee_type = fst u, ee_id = snd u\<rparr>) ?us"
  proof (cases "typ \<in> fst ` fst ` set (en_entities e)")
    case True
    then show ?thesis by (simp add: EntitiesOfType_def ix indexByType_lookup)
  next
    case False
    then have "filter (\<lambda>u. fst u = typ) (map fst (en_entities e)) = []" by (force simp: filter_empty_conv)
    with False show ?thesis by (simp add: EntitiesOfType_def ix indexByType_lookup)
  qed
  have "{i. map_of (en_entities e) (typ, i) \<noteq> None} = {i. (typ, i) \<in> fst ` set (en_entities e)}"
    by (auto simp: map_of_eq_None_iff)
  then have "map ee_id (EntitiesOfType typ e) = sorted_list_of_set {i. map_of (en_entities e) (typ, i) \<noteq> None}"
    using sorted_ids [OF d, of "typ"] unfolding es by (simp add: comp_def)
  then show ?thesis by (auto simp: es)
qed

section \<open>Values stay in range\<close>

fun longs_ok :: "cedar_value \<Rightarrow> bool" where
  "longs_ok (CLong n) \<longleftrightarrow> int64 n"
| "longs_ok (CSet vs) \<longleftrightarrow> list_all longs_ok vs"
| "longs_ok (CRecord fs) \<longleftrightarrow> list_all (\<lambda>(k, v). longs_ok v) fs"
| "longs_ok _ \<longleftrightarrow> True"

fun ints_ok :: "any \<Rightarrow> bool" where
  "ints_ok (AInt n) \<longleftrightarrow> int64 n"
| "ints_ok (AArray vs) \<longleftrightarrow> list_all ints_ok vs"
| "ints_ok _ \<longleftrightarrow> True"

lemma all_Inr_set: "all_Inr xs = Inr ys \<Longrightarrow> \<forall>y \<in> set ys. Inr y \<in> set xs"
proof (induction xs arbitrary: ys)
  case (Cons x xs)
  obtain v vs where "x = Inr v" "all_Inr xs = Inr vs" "ys = v # vs"
    using Cons.prems by (auto simp: all_Inr_def split: sum.splits)
  with Cons.IH show ?case by simp
qed (simp add: all_Inr_def)

lemma valueOf_longs: "valueOf ff v = Inr x \<Longrightarrow> ints_ok v \<Longrightarrow> longs_ok x"
proof (induction ff v arbitrary: x rule: valueOf.induct)
  case (4 ff r)
  then have r: "r = of_int \<lfloor>r\<rfloor>" "x = CLong \<lfloor>r\<rfloor>" "\<not> (r \<ge> 2 ^ 63 \<or> r < - (2 ^ 63))" by (auto split: if_splits)
  have "(of_int \<lfloor>r\<rfloor> :: rat) < of_int (2 ^ 63)" "(of_int (- (2 ^ 63)) :: rat) \<le> of_int \<lfloor>r\<rfloor>" using r by simp_all
  then have "\<lfloor>r\<rfloor> < 2 ^ 63" "- (2 ^ 63) \<le> \<lfloor>r\<rfloor>" unfolding of_int_less_iff of_int_le_iff by simp_all
  then show ?case by (simp add: r(2) int64_def)
next
  case (7 ff vs)
  then obtain xs where xs: "all_Inr (map (valueOf ff) vs) = Inr xs" "x = CSet xs" by (auto split: sum.splits)
  have "longs_ok y" if "y \<in> set xs" for y
  proof -
    from all_Inr_set [OF xs(1)] that obtain v where "v \<in> set vs" "valueOf ff v = Inr y" by auto
    with 7 show ?thesis by (auto simp: list_all_iff)
  qed
  then show ?case by (simp add: xs(2) list_all_iff)
qed (auto simp: list_all_iff)

text \<open>
  C32. No property of a request becomes a wrong number or a stand-in for null: every integer
  in the record handed to Cedar fits 64 bits, and every field of it comes from a property of
  the same name that holds no null at any depth.
\<close>
theorem record_values_exact:
  assumes "recordFromMap ff m = Inr flds" "\<forall>(k, v) \<in> set m. ints_ok v" "(k, x) \<in> set flds"
  shows "longs_ok x \<and> (\<exists>v. (k, v) \<in> set m \<and> \<not> containsNull v \<and> valueOf ff v = Inr x)"
proof -
  have "record_fields ff m = Inr flds" using assms(1) by (cases m) (simp_all add: recordFromMap_def)
  then have "\<exists>v. (k, v) \<in> set m \<and> \<not> containsNull v \<and> valueOf ff v = Inr x"
    using assms(3)
  proof (induction m arbitrary: flds)
    case (Cons f m)
    obtain k' v' where f: "f = (k', v')" by force
    show ?case
    proof (cases "containsNull v'")
      case True
      with Cons f show ?thesis by auto
    next
      case False
      with Cons.prems f obtain y r where "valueOf ff v' = Inr y" "record_fields ff m = Inr r" "flds = (k', y) # r"
        by (auto split: sum.splits)
      with Cons.IH Cons.prems(2) False f show ?thesis by auto
    qed
  qed simp
  with assms(2) show ?thesis using valueOf_longs by blast
qed

section \<open>An example engine\<close>

text \<open>A stand-in for Cedar: a text is one policy, an annotation is written after an at sign.\<close>

definition demo_cedar :: "string cedar" where
  "demo_cedar =
     \<lparr>cd_parse = (\<lambda>base text. if text = [] then Inl (ErrInvalid base) else Inr [(''policy0'', text)]),
      cd_id = (\<lambda>p. if has_prefix p ''@'' then Some (drop 1 p) else None),
      cd_forbid = (\<lambda>p. has_prefix p ''forbid''),
      cd_entities = (\<lambda>raw. Inr []),
      cd_authorize = (\<lambda>ps ents cq. (ps ''a::policy0'' \<noteq> None, \<lparr>dg_reasons = [''a::policy0''], dg_errors = [(''api/p1::x'', ''no attribute'')]\<rparr>))\<rparr>"

definition demo_files :: "string engine" where
  "demo_files = (case LoadSources demo_cedar [(''a.cedar'', ''permit'')] [] New_engine of Inr e \<Rightarrow> e | Inl _ \<Rightarrow> New_engine)"

definition demo_engine :: "string engine" where
  "demo_engine = (case SetStoredPolicies demo_cedar [(''p1'', ''@x'')] demo_files of Inr e \<Rightarrow> e | Inl _ \<Rightarrow> New_engine)"

lemma demo_files_inv: "engine_inv demo_cedar demo_files"
proof (cases "LoadSources demo_cedar [(''a.cedar'', ''permit'')] [] New_engine")
  case (Inr e)
  from LoadSources_inv [OF New_engine_inv Inr] Inr show ?thesis by (simp add: demo_files_def)
qed (simp add: demo_files_def New_engine_inv)

lemma demo_engine_inv: "engine_inv demo_cedar demo_engine"
proof (cases "SetStoredPolicies demo_cedar [(''p1'', ''@x'')] demo_files")
  case (Inr e)
  from SetStoredPolicies_inv [OF demo_files_inv Inr] Inr show ?thesis by (simp add: demo_engine_def)
qed (simp add: demo_engine_def New_engine_inv)

lemma demo_stored: "stored_of demo_engine = [(''p1'', ''@x'')]" "en_stored demo_engine = Some [(''p1'', ''@x'')]"
  by code_simp+

theorem checked_policy_loads_witness:
  "CheckStored demo_cedar ''p2'' ''@x'' demo_engine = Inr [''api/p2::x'']
   \<and> (\<exists>e'. SetStoredPolicies demo_cedar (AList.update ''p2'' ''@x'' (stored_of demo_engine)) demo_engine = Inr e'
        \<and> map_of (stored_of e') = (map_of (stored_of demo_engine))(''p2'' \<mapsto> ''@x'') \<and> en_files e' = en_files demo_engine)"
proof -
  have c: "CheckStored demo_cedar ''p2'' ''@x'' demo_engine = Inr [''api/p2::x'']" by code_simp
  have v: "ValidatePolicyID ''p1'' = None" "ValidatePolicyID ''p2'' = None" by code_simp+
  have "\<forall>k \<in> source_names (stored_of demo_engine). ValidatePolicyID k = None"
    by (simp add: demo_stored source_names_def v)
  from checked_policy_loads [OF demo_engine_inv this v(2) c] c show ?thesis by blast
qed

theorem file_policies_stay_witness:
  "\<exists>e'. SetStoredPolicies demo_cedar [(''p1'', ''@a::policy0'')] demo_files = Inr e'
     \<and> map_of (en_policies e') ''a::policy0'' = Some ''permit''
     \<and> (\<forall>(i, p) \<in> set (en_policies e'). (i, p) \<in> set [(''a::policy0'', ''permit'')] \<or> has_prefix i StoredPolicyPrefix)"
proof -
  have "\<not> isl (SetStoredPolicies demo_cedar [(''p1'', ''@a::policy0'')] demo_files)" by code_simp
  then obtain e' where e': "SetStoredPolicies demo_cedar [(''p1'', ''@a::policy0'')] demo_files = Inr e'" by (cases "SetStoredPolicies demo_cedar [(''p1'', ''@a::policy0'')] demo_files") auto
  have f: "parseSources demo_cedar (en_files demo_files) [] = Inr ([(''a::policy0'', ''permit'')], [])" by code_simp
  from file_policies_stay [OF demo_files_inv e' _ f] e' show ?thesis by auto
qed

definition demo_request :: eval_request where
  "demo_request = \<lparr>rq_subject = \<lparr>ea_type = ''User'', ea_id = ''alice'', ea_attrs = [(''age'', AFloat 7), (''team'', ANil)]\<rparr>, rq_action = ''read'',
     rq_resource = \<lparr>ea_type = ''Doc'', ea_id = ''d1'', ea_attrs = []\<rparr>, rq_context = []\<rparr>"

definition demo_float :: "rat \<Rightarrow> string" where
  "demo_float r = itoa \<lfloor>r\<rfloor>"

theorem failed_forbid_denies_witness:
  "\<exists>resp revision. EvaluateRevision demo_cedar (\<lambda>_. None) demo_float 5 demo_request demo_engine = Inr (resp, revision)
     \<and> rp_decision resp
     \<and> (\<exists>cq overlays diag. prepare demo_float demo_request = Inr (cq, overlays)
        \<and> cd_authorize demo_cedar (map_of (en_policies demo_engine)) (map_of (request_entities_of (\<lambda>_. None) 5 demo_engine cq overlays)) cq = (True, diag)
        \<and> (\<forall>(i, m) \<in> set (dg_errors diag). \<exists>p. map_of (en_policies demo_engine) i = Some p \<and> \<not> cd_forbid demo_cedar p))"
proof -
  have "(case EvaluateRevision demo_cedar (\<lambda>_. None) demo_float 5 demo_request demo_engine of Inl _ \<Rightarrow> False | Inr (r, _) \<Rightarrow> rp_decision r)"
    by code_simp
  then obtain resp revision where r: "EvaluateRevision demo_cedar (\<lambda>_. None) demo_float 5 demo_request demo_engine = Inr (resp, revision)" "rp_decision resp"
    by (auto split: sum.splits)
  from failed_forbid_denies [OF r] r show ?thesis by blast
qed

definition demo_response :: "string \<Rightarrow> eval_response" where
  "demo_response msg = \<lparr>rp_decision = False, rp_context = Some \<lparr>dc_reasons = [], dc_errors = [\<lparr>pe_policy = ''p'', pe_message = msg\<rparr>]\<rparr>, rp_reasons = []\<rparr>"

theorem caller_sees_no_messages_witness:
  "demo_response ''a'' \<noteq> demo_response ''b'' \<and> same_but_messages (demo_response ''a'') (demo_response ''b'')
   \<and> ForCaller (demo_response ''a'') = ForCaller (demo_response ''b'')"
proof -
  have s: "same_but_messages (demo_response ''a'') (demo_response ''b'')" by (simp add: same_but_messages_def demo_response_def)
  moreover have "demo_response ''a'' \<noteq> demo_response ''b''" by (simp add: demo_response_def)
  ultimately show ?thesis using caller_sees_no_messages [of "demo_response ''a''" "demo_response ''b''"] by blast
qed

theorem entities_of_type_sorted_witness:
  "map ee_id (EntitiesOfType ''Group'' (SetDirectory (zero_directory\<lparr>dr_groups := [''d:b'', ''d:a'']\<rparr>) demo_engine)) = [''d:a'', ''d:b'']
   \<and> map ee_id (EntitiesOfType ''Group'' (SetDirectory (zero_directory\<lparr>dr_groups := [''d:b'', ''d:a'']\<rparr>) demo_engine)) =
       sorted_list_of_set {i. map_of (en_entities (SetDirectory (zero_directory\<lparr>dr_groups := [''d:b'', ''d:a'']\<rparr>) demo_engine)) (''Group'', i) \<noteq> None}"
proof -
  let ?e = "SetDirectory (zero_directory\<lparr>dr_groups := [''d:b'', ''d:a'']\<rparr>) demo_engine"
  have "map ee_id (EntitiesOfType ''Group'' ?e) = [''d:a'', ''d:b'']" by code_simp
  with conjunct1 [OF entities_of_type_sorted [OF SetDirectory_inv [OF demo_engine_inv], of "''Group''"]] show ?thesis by blast
qed

theorem record_values_exact_witness:
  "recordFromMap demo_float [(''age'', AFloat 7), (''team'', AArray [ANil])] = Inr [(''age'', CLong 7)]
   \<and> longs_ok (CLong 7)
   \<and> (\<exists>v. (''age'', v) \<in> set [(''age'', AFloat 7), (''team'', AArray [ANil])] \<and> \<not> containsNull v \<and> valueOf demo_float v = Inr (CLong 7))"
proof -
  have r: "recordFromMap demo_float [(''age'', AFloat 7), (''team'', AArray [ANil])] = Inr [(''age'', CLong 7)]"
    by (simp add: recordFromMap_def)
  from record_values_exact [OF r, of "''age''" "CLong 7"] r show ?thesis by simp
qed

end
