(* ===== verification/PolicyBundle.thy ===== *)
theory PolicyBundle
  imports EngineEval JsonText
begin

text \<open>
  The policy bundle for local evaluators, \<^verbatim>\<open>internal/server/policy/bundle.go\<close>: the export of
  an engine, its revision, its signature, and loading it into another engine.
\<close>

section \<open>The bundle\<close>

record bundle_membership =
  bm_group :: string
  bm_expires_at :: gotime

record bundle_directory =
  bd_trust_domain :: string
  bd_domains :: sources
  bd_groups :: "string list"
  bd_memberships :: "(string \<times> bundle_membership list) list"

record policy_bundle =
  bn_revision :: string
  bn_policies :: sources
  bn_entities :: string
  bn_directory :: bundle_directory
  bn_issued_at :: gotime
  bn_signature :: string

text \<open>A Go map is written with its keys sorted.\<close>

definition map_text :: "(string \<times> string) list \<Rightarrow> string" where
  "map_text kvs = object_text (sort_key fst kvs)"

definition list_text :: "string list \<Rightarrow> string" where
  "list_text xs = ''['' @ join_with CHR '','' xs @ '']''"

definition all_Some :: "'a option list \<Rightarrow> 'a list option" where
  "all_Some xs = (if list_all (\<lambda>x. x \<noteq> None) xs then Some (map the xs) else None)"

definition membership_json :: "bundle_membership \<Rightarrow> string option" where
  "membership_json m =
     (if is_zero_time (bm_expires_at m) then Some (object_text [(''group'', json_string (bm_group m))])
      else map_option (\<lambda>t. object_text [(''group'', json_string (bm_group m)), (''expires_at'', t)]) (time_json (bm_expires_at m)))"

definition memberships_json :: "(string \<times> bundle_membership list) list \<Rightarrow> (string \<times> string) list option" where
  "memberships_json mss =
     all_Some (map (\<lambda>(who, ms). map_option (\<lambda>ts. (who, list_text ts)) (all_Some (map membership_json ms))) mss)"

definition directory_json :: "bundle_directory \<Rightarrow> string option" where
  "directory_json d =
     map_option (\<lambda>mss. object_text (
         omit_empty ''trust_domain'' (bd_trust_domain d) @
         (if bd_domains d = [] then [] else [(''domains'', map_text (map (\<lambda>(k, v). (k, json_string v)) (bd_domains d)))]) @
         (if bd_groups d = [] then [] else [(''groups'', list_text (map json_string (bd_groups d)))]) @
         (if mss = [] then [] else [(''memberships'', map_text mss)])))
       (memberships_json (bd_memberships d))"

text \<open>The encoding with the revision, the time and the signature left out.\<close>

definition content_json :: "sources \<Rightarrow> string \<Rightarrow> bundle_directory \<Rightarrow> string option" where
  "content_json pols entities dir =
     (case (if entities = [] then Some [] else map_option (\<lambda>v. [(''entities'', v)]) (raw_json entities), directory_json dir) of
        (Some ents, Some d) \<Rightarrow>
          Some (object_text ([(''revision'', json_string []),
            (''policies'', map_text (map (\<lambda>(k, v). (k, json_string v)) pols))] @ ents @ [(''directory'', d)]))
      | _ \<Rightarrow> None)"

definition bundle_json :: "policy_bundle \<Rightarrow> string option" where
  "bundle_json b = content_json (bn_policies b) (bn_entities b) (bn_directory b)"

definition bundleRevision :: "crypto \<Rightarrow> policy_bundle \<Rightarrow> err + string" where
  "bundleRevision cr b =
     (case bundle_json b of
        None \<Rightarrow> Inl (ErrInvalid ''encode bundle'')
      | Some raw \<Rightarrow> Inr (hex_encode (sha256 cr raw)))"

definition Bundle :: "crypto \<Rightarrow> 'p engine \<Rightarrow> err + policy_bundle" where
  "Bundle cr e =
     (let (srcs, raw, dir) = Snapshot_engine e;
          b = \<lparr>bn_revision = [], bn_policies = srcs, bn_entities = raw,
               bn_directory = \<lparr>bd_trust_domain = dr_trust_domain dir, bd_domains = dr_domains dir, bd_groups = sort (dr_groups dir),
                 bd_memberships = map (\<lambda>(who, ms). (who, sort_key bm_group
                   (map (\<lambda>m. \<lparr>bm_group = mb_group m, bm_expires_at = mb_expires_at m\<rparr>) ms))) (dr_memberships dir)\<rparr>,
               bn_issued_at = zero_time, bn_signature = []\<rparr> in
      case bundleRevision cr b of
        Inl er \<Rightarrow> Inl er
      | Inr revision \<Rightarrow> Inr (b\<lparr>bn_revision := revision\<rparr>))"

definition CheckRevision :: "crypto \<Rightarrow> policy_bundle \<Rightarrow> err option" where
  "CheckRevision cr b =
     (case bundleRevision cr b of
        Inl er \<Rightarrow> Some er
      | Inr revision \<Rightarrow> if revision \<noteq> bn_revision b then Some (ErrInvalid ''bundle revision does not match its content'') else None)"

section \<open>Loading a bundle\<close>

text \<open>The SPIFFE library reads the name of a trust domain; it is an argument.\<close>

definition bundle_dir :: "string \<Rightarrow> policy_bundle \<Rightarrow> directory" where
  "bundle_dir td b =
     \<lparr>dr_trust_domain = td, dr_domains = bd_domains (bn_directory b), dr_groups = bd_groups (bn_directory b),
      dr_memberships = map (\<lambda>(who, ms). (who, map (\<lambda>m. \<lparr>mb_group = bm_group m, mb_expires_at = bm_expires_at m\<rparr>) ms))
        (filter (\<lambda>(who, ms). ms \<noteq> []) (bd_memberships (bn_directory b)))\<rparr>"

definition bundle_files :: "policy_bundle \<Rightarrow> sources" where
  "bundle_files b = filter (\<lambda>(name, _). \<not> has_prefix name StoredPolicyPrefix) (bn_policies b)"

definition bundle_stored :: "policy_bundle \<Rightarrow> sources" where
  "bundle_stored b =
     map (\<lambda>(name, text). (drop (length StoredPolicyPrefix) name, text))
       (filter (\<lambda>(name, _). has_prefix name StoredPolicyPrefix) (bn_policies b))"

definition LoadBundle :: "crypto \<Rightarrow> (string \<Rightarrow> string option) \<Rightarrow> 'p cedar \<Rightarrow> policy_bundle \<Rightarrow> 'p engine \<Rightarrow> err + 'p engine" where
  "LoadBundle cr parse_td cd b e =
     (case CheckRevision cr b of
        Some er \<Rightarrow> Inl er
      | None \<Rightarrow>
          (case (if bd_trust_domain (bn_directory b) = [] then Some [] else parse_td (bd_trust_domain (bn_directory b))) of
             None \<Rightarrow> Inl (ErrInvalid ''bundle trust domain'')
           | Some td \<Rightarrow>
               (case parseSources cd (bn_policies b) (bn_entities b) of
                  Inl er \<Rightarrow> Inl er
                | Inr (ps, static) \<Rightarrow>
                    (case parseSources cd (bundle_files b) [] of
                       Inl er \<Rightarrow> Inl er
                     | Inr (filePS, _) \<Rightarrow>
                         let dir = bundle_dir td b; (ents, snap) = buildDirectory dir in
                         Inr (rebuildLocked ((setDirectoryLocked dir ents snap
                           (e\<lparr>en_policies := ps, en_static := static, en_sources := bn_policies b, en_static_raw := bn_entities b,
                              en_files := bundle_files b, en_file_ids := map fst filePS, en_stored := Some (bundle_stored b)\<rparr>))
                           \<lparr>en_revision := bn_revision b\<rparr>))))))"

section \<open>Signing\<close>

text \<open>
  ECDSA, as the code uses it: a key's curve, a signature made with fresh randomness, and its
  verification.  That the signatures of a key verify under a public key is a hypothesis where
  it is needed.
\<close>

record ('sk, 'pk) ecdsa =
  ec_p256 :: "'sk \<Rightarrow> bool"
  ec_sign :: "nat \<Rightarrow> 'sk \<Rightarrow> bytes \<Rightarrow> bytes option"
  ec_verify :: "'pk \<Rightarrow> bytes \<Rightarrow> bytes \<Rightarrow> bool"

definition signing_text :: "string \<Rightarrow> gotime \<Rightarrow> string" where
  "signing_text revision t = ''omega-policy-bundle-v1:'' @ revision @ '':'' @ itoa (unix_nano t)"

definition bundleSigningInput :: "crypto \<Rightarrow> string \<Rightarrow> gotime \<Rightarrow> bytes" where
  "bundleSigningInput cr revision t = sha256 cr (signing_text revision t)"

definition SignBundleAt :: "crypto \<Rightarrow> ('sk, 'pk) ecdsa \<Rightarrow> nat \<Rightarrow> 'sk \<Rightarrow> gotime \<Rightarrow> policy_bundle \<Rightarrow> err + policy_bundle" where
  "SignBundleAt cr ec rnd key t b =
     (if \<not> ec_p256 ec key then Inl (ErrInvalid ''bundle signing key must be ECDSA P-256'')
      else (case ec_sign ec rnd key (bundleSigningInput cr (bn_revision b) t) of
              None \<Rightarrow> Inl (ErrInvalid ''sign bundle'')
            | Some sig \<Rightarrow> Inr (b\<lparr>bn_issued_at := t, bn_signature := rawurl_encode sig\<rparr>)))"

definition VerifyBundle :: "crypto \<Rightarrow> ('sk, 'pk) ecdsa \<Rightarrow> 'pk \<Rightarrow> policy_bundle \<Rightarrow> err option" where
  "VerifyBundle cr ec pub b =
     (if bn_signature b = [] \<or> is_zero_time (bn_issued_at b) then Some (ErrInvalid ''bundle is not signed'')
      else (case rawurl_decode (bn_signature b) of
              None \<Rightarrow> Some (ErrInvalid ''bundle signature'')
            | Some sig \<Rightarrow>
                if \<not> ec_verify ec pub (bundleSigningInput cr (bn_revision b) (bn_issued_at b)) sig
                then Some (ErrInvalid ''bundle signature does not verify'') else None))"

section \<open>A local evaluator decides alike\<close>

lemma map_of_fold_const:
  "map_of (fold (\<lambda>g. AList.update (f g) c) gs m) x = (if x \<in> f ` set gs then Some c else map_of m x)"
  by (induction gs arbitrary: m) (auto simp: update_conv)

lemma map_of_updates:
  assumes "distinct (map fst xs)"
  shows "map_of (fold (\<lambda>(u, e). AList.update u e) xs m) = map_of m ++ map_of xs"
proof
  fix x
  show "map_of (fold (\<lambda>(u, e). AList.update u e) xs m) x = (map_of m ++ map_of xs) x"
    using map_of_fold_update [of "\<lambda>u. u" xs m x] assms by (simp add: map_add_def comp_def)
qed

lemma map_of_merge:
  assumes "distinct (map fst dir)" "distinct (map fst dir')" "map_of dir = map_of dir'"
  shows "map_of (merge_entities st dir) = map_of (merge_entities st dir')"
  using assms by (simp add: merge_entities_def map_of_updates)

lemma directory_distinct: "distinct (map fst (fst (buildDirectory d)))"
proof -
  have g: "distinct (map fst m) \<Longrightarrow> distinct (map fst (fold (\<lambda>g. AList.update (''Group'', g) plain_entity) gs m))" for m gs
    by (induction gs arbitrary: m) (simp_all add: distinct_update)
  have "distinct (map fst m) \<Longrightarrow>
      distinct (map fst (fold (\<lambda>(name, parent). AList.update (''Domain'', name) (domain_entity parent)) ds m))" for ds m
    by (induction ds arbitrary: m) (auto simp: distinct_update)
  from g [OF this [of "[]"]] show ?thesis by (simp add: buildDirectory_def)
qed

lemma directory_groups:
  assumes "set (dr_groups d) = set (dr_groups d')" "dr_domains d = dr_domains d'"
  shows "map_of (fst (buildDirectory d)) = map_of (fst (buildDirectory d'))"
  using assms by (auto simp: buildDirectory_def map_of_fold_const fun_eq_iff)

lemma seed_cong: "map_of a = map_of b \<Longrightarrow> map_of (seed_overlays a ov) = map_of (seed_overlays b ov)"
  unfolding seed_overlays_def
proof (induction ov arbitrary: a b)
  case (Cons x ov)
  have "map_of (if map_of a (fst x) \<noteq> None then a else AList.update (fst x) (snd x) a) =
      map_of (if map_of b (fst x) \<noteq> None then b else AList.update (fst x) (snd x) b)"
    using Cons.prems by (simp add: update_conv')
  from Cons.IH [OF this] show ?case by (simp add: case_prod_beta)
qed simp

text \<open>The parents a request adds depend on the memberships of a principal as a set.\<close>

definition same_parents :: "directory_snapshot \<Rightarrow> directory_snapshot \<Rightarrow> bool" where
  "same_parents sn sn' \<longleftrightarrow> sn_trust_domain sn = sn_trust_domain sn' \<and> sn_domains sn = sn_domains sn' \<and>
     (\<forall>i. set (case map_of (sn_memberships sn) i of None \<Rightarrow> [] | Some ms \<Rightarrow> ms) =
          set (case map_of (sn_memberships sn') i of None \<Rightarrow> [] | Some ms \<Rightarrow> ms))"

lemma set_added_parents: "same_parents sn sn' \<Longrightarrow> set (added_parents sp sn now i) = set (added_parents sp sn' now i)"
  unfolding same_parents_def added_parents_def Let_def by simp

lemma add_parents_cong:
  assumes "same_parents sn sn'" "map_of a = map_of b"
  shows "map_of (add_parents sp sn now u a) = map_of (add_parents sp sn' now u b)"
proof -
  have s: "set (added_parents sp sn now (snd u)) = set (added_parents sp sn' now (snd u))" by (rule set_added_parents [OF assms(1)])
  then have "added_parents sp sn now (snd u) = [] \<longleftrightarrow> added_parents sp sn' now (snd u) = []" by (metis set_empty)
  with s assms(2) show ?thesis by (simp add: add_parents_def Let_def update_conv')
qed

lemma withSPIFFEParents_fold: "withSPIFFEParents sp ents sn now uids = fold (add_parents sp sn now) uids ents"
proof (cases "sn_domains sn = [] \<and> sn_memberships sn = []")
  case True
  then have "add_parents sp sn now u m = m" for u m by (simp add: add_parents_def added_parents_empty)
  then have "fold (add_parents sp sn now) uids m = m" for m by (induction uids) simp_all
  with True show ?thesis by (simp add: withSPIFFEParents_def)
qed (auto simp: withSPIFFEParents_def)

lemma parents_cong:
  assumes "same_parents sn sn'"
  shows "map_of a = map_of b \<Longrightarrow> map_of (withSPIFFEParents sp a sn now uids) = map_of (withSPIFFEParents sp b sn' now uids)"
  unfolding withSPIFFEParents_fold
proof (induction uids arbitrary: a b)
  case (Cons u uids)
  from Cons.IH [OF add_parents_cong [OF assms Cons.prems]] show ?case by simp
qed simp

definition same_engine :: "'p engine \<Rightarrow> 'p engine \<Rightarrow> bool" where
  "same_engine e e' \<longleftrightarrow> en_policies e = en_policies e' \<and> map_of (en_entities e) = map_of (en_entities e') \<and> same_parents (en_snap e) (en_snap e')"

lemma same_engine_evaluates: "same_engine e e' \<Longrightarrow> Evaluate cd sp ff now req e = Evaluate cd sp ff now req e'"
proof -
  assume s: "same_engine e e'"
  then have "map_of (request_entities_of sp now e cq ov) = map_of (request_entities_of sp now e' cq ov)" for cq ov
    unfolding request_entities_of_def same_engine_def by (blast intro: parents_cong seed_cong)
  with s show ?thesis by (auto simp: Evaluate_def EvaluateRevision_def same_engine_def split: sum.splits)
qed

lemma bundle_json_plain [simp]:
  "bundle_json (b\<lparr>bn_revision := r\<rparr>) = bundle_json b" "bundle_json (b\<lparr>bn_issued_at := t\<rparr>) = bundle_json b"
  "bundle_json (b\<lparr>bn_signature := g\<rparr>) = bundle_json b"
  by (simp_all add: bundle_json_def)

lemma Bundle_Inr:
  assumes "Bundle cr e = Inr b"
  shows "CheckRevision cr b = None" "bn_policies b = en_sources e" "bn_entities b = en_static_raw e"
    "bd_trust_domain (bn_directory b) = dr_trust_domain (en_dir_spec e)" "bd_domains (bn_directory b) = dr_domains (en_dir_spec e)"
    "bd_groups (bn_directory b) = sort (dr_groups (en_dir_spec e))"
    "bd_memberships (bn_directory b) = map (\<lambda>(who, ms). (who, sort_key bm_group
       (map (\<lambda>m. \<lparr>bm_group = mb_group m, bm_expires_at = mb_expires_at m\<rparr>) ms))) (dr_memberships (en_dir_spec e))"
  using assms by (auto simp: Bundle_def Snapshot_engine_def CheckRevision_def bundleRevision_def bundle_json_def Let_def split: sum.splits option.splits)

lemma map_of_filter:
  assumes "distinct (map fst xs)"
  shows "map_of (filter P xs) k = (case map_of xs k of None \<Rightarrow> None | Some v \<Rightarrow> if P (k, v) then Some v else None)"
  using assms
proof (induction xs)
  case (Cons x xs)
  have "k \<notin> fst ` set xs \<Longrightarrow> map_of (filter P xs) k = None" by (auto simp: map_of_eq_None_iff)
  moreover have "k \<notin> fst ` set xs \<Longrightarrow> map_of xs k = None" by (auto simp: map_of_eq_None_iff)
  ultimately show ?case using Cons by (cases x) auto
qed simp

lemma map_of_filter_Nil:
  assumes "distinct (map fst xs)"
  shows "(case map_of (filter (\<lambda>(k, v). v \<noteq> []) xs) i of None \<Rightarrow> [] | Some v \<Rightarrow> v) = (case map_of xs i of None \<Rightarrow> [] | Some v \<Rightarrow> v)"
  by (simp add: map_of_filter [OF assms] split: option.splits)

lemma bundle_snap_same:
  assumes "Bundle cr e = Inr b" "distinct (map fst (dr_memberships (en_dir_spec e)))"
  shows "same_parents (snd (buildDirectory (bundle_dir (dr_trust_domain (en_dir_spec e)) b))) (snd (buildDirectory (en_dir_spec e)))"
proof -
  let ?ms = "dr_memberships (en_dir_spec e)"
  define g where "g = (\<lambda>m :: bundle_membership. \<lparr>mb_group = bm_group m, mb_expires_at = bm_expires_at m\<rparr>)"
  define f where "f = (\<lambda>m :: membership. \<lparr>bm_group = mb_group m, bm_expires_at = mb_expires_at m\<rparr>)"
  have gf: "g (f m) = m" for m :: membership by (simp add: f_def g_def)
  have mem: "dr_memberships (bundle_dir (dr_trust_domain (en_dir_spec e)) b) =
      map (\<lambda>(who, ms). (who, map g ms)) (filter (\<lambda>(who, ms). ms \<noteq> []) (map (\<lambda>(who, ms). (who, sort_key bm_group (map f ms))) ?ms))"
    by (simp add: bundle_dir_def Bundle_Inr(7) [OF assms(1)] f_def g_def)
  have "set (case map_of (map (\<lambda>(who, ms). (who, map g ms)) (filter (\<lambda>(who, ms). ms \<noteq> [])
        (map (\<lambda>(who, ms). (who, sort_key bm_group (map f ms))) ?ms))) i of None \<Rightarrow> [] | Some v \<Rightarrow> v) =
      set (case map_of ?ms i of None \<Rightarrow> [] | Some v \<Rightarrow> v)" for i
  proof -
    let ?ys = "map (\<lambda>(who, ms). (who, sort_key bm_group (map f ms))) ?ms"
    have d: "distinct (map fst ?ys)" using assms(2) by (simp add: comp_def case_prod_beta)
    have h: "set (case map_option (map g) x of None \<Rightarrow> [] | Some v \<Rightarrow> v) = g ` set (case x of None \<Rightarrow> [] | Some v \<Rightarrow> v)" for x
      by (cases x) auto
    have k: "g ` set (case map_option (\<lambda>ms. sort_key bm_group (map f ms)) x of None \<Rightarrow> [] | Some v \<Rightarrow> v) =
        set (case x of None \<Rightarrow> [] | Some v \<Rightarrow> v)" for x
      by (cases x) (auto simp: image_image gf)
    show ?thesis unfolding map_of_map o_apply h map_of_filter_Nil [OF d] unfolding map_of_map o_apply k ..
  qed
  then show ?thesis
    by (simp add: same_parents_def buildDirectory_def mem) (simp add: bundle_dir_def Bundle_Inr(5) [OF assms(1)])
qed

lemma loads_filter:
  assumes "loads cd srcs" "distinct (map fst srcs)"
  shows "loads cd (filter P srcs)"
proof -
  have names: "source_names (filter P srcs) \<subseteq> source_names srcs" by (auto simp: source_names_def)
  have "map_of (filter P srcs) n = map_of srcs n" if "n \<in> source_names (filter P srcs)" for n
    using that by (auto simp: map_of_filter [OF assms(2)] source_names_iff split: option.splits if_splits)
  then have "source_parses cd (filter P srcs) n = source_parses cd srcs n" "source_ids cd (filter P srcs) n = source_ids cd srcs n"
    if "n \<in> source_names (filter P srcs)" for n
    using that source_parses_cong source_ids_cong by metis+
  with assms(1) names show ?thesis unfolding loads_def disjoint_family_on_def by (metis subsetD)
qed

text \<open>
  C24. A local evaluator decides exactly as the control plane would: the bundle an engine
  exports loads into any other engine, which then answers every request, at every time,
  as the exporting engine does, under the revision of the bundle.
\<close>
theorem local_evaluator_decides_alike:
  assumes "engine_inv cd e" "distinct (map fst (dr_memberships (en_dir_spec e)))" "Bundle cr e = Inr b"
    "dr_trust_domain (en_dir_spec e) \<noteq> [] \<Longrightarrow> parse_td (dr_trust_domain (en_dir_spec e)) = Some (dr_trust_domain (en_dir_spec e))"
  shows "\<exists>e1. LoadBundle cr parse_td cd b e0 = Inr e1 \<and> en_revision e1 = bn_revision b
    \<and> (\<forall>sp ff now req. Evaluate cd sp ff now req e1 = Evaluate cd sp ff now req e)"
proof -
  let ?td = "dr_trust_domain (en_dir_spec e)"
  have inv: "loads cd (en_sources e)" "en_policies e = all_policies cd (en_sources e)" "distinct (map fst (en_sources e))"
    "if en_static_raw e = [] then en_static e = [] else cd_entities cd (en_static_raw e) = Inr (en_static e)"
    "(en_directory e, en_snap e) = buildDirectory (en_dir_spec e)" "en_entities e = merge_entities (en_static e) (en_directory e)"
    using assms(1) by (auto simp: engine_inv_def)
  note b = Bundle_Inr [OF assms(3)]
  have "parseSources cd (en_sources e) [] = Inr (en_policies e, [])" using inv(1-3) by (simp add: parseSources_policies)
  then have "parseSources cd (bn_policies b) (bn_entities b) = Inr (en_policies e, en_static e)"
    using inv(4) by (auto simp: b(2,3) parseSources_def split: sum.splits if_splits)
  moreover have "\<exists>filePS. parseSources cd (bundle_files b) [] = Inr (filePS, [])"
    using parseSources_policies [of "bundle_files b" cd] loads_filter [OF inv(1,3)] inv(3)
    by (simp add: bundle_files_def b(2) distinct_map_filter)
  moreover have "(if bd_trust_domain (bn_directory b) = [] then Some [] else parse_td (bd_trust_domain (bn_directory b))) = Some ?td"
    using assms(4) by (simp add: b(4))
  ultimately obtain e1 where load: "LoadBundle cr parse_td cd b e0 = Inr e1" "en_policies e1 = en_policies e" "en_revision e1 = bn_revision b"
    "en_entities e1 = merge_entities (en_static e) (fst (buildDirectory (bundle_dir ?td b)))" "en_snap e1 = snd (buildDirectory (bundle_dir ?td b))"
    by (auto simp: LoadBundle_def b(1) Let_def setDirectoryLocked_def case_prod_beta)
  have "map_of (fst (buildDirectory (bundle_dir ?td b))) = map_of (fst (buildDirectory (en_dir_spec e)))"
    by (rule directory_groups) (simp_all add: bundle_dir_def b(5,6))
  then have "map_of (en_entities e1) = map_of (en_entities e)"
    unfolding load(4) inv(6) using inv(5) by (metis directory_distinct fst_conv map_of_merge)
  then have "same_engine e1 e"
    using load(2,5) bundle_snap_same [OF assms(3,2)] inv(5) by (auto simp: same_engine_def dest: arg_cong [of _ _ snd])
  with load(1,3) same_engine_evaluates show ?thesis by blast
qed

section \<open>What a verified bundle proves\<close>

lemma signing_text_inject:
  "signing_text r t = signing_text r' t' \<Longrightarrow> CHR '':'' \<notin> set r \<Longrightarrow> CHR '':'' \<notin> set r' \<Longrightarrow> r = r' \<and> unix_nano t = unix_nano t'"
proof -
  assume "signing_text r t = signing_text r' t'" "CHR '':'' \<notin> set r" "CHR '':'' \<notin> set r'"
  then have "r @ CHR '':'' # itoa (unix_nano t) = r' @ CHR '':'' # itoa (unix_nano t')" by (simp add: signing_text_def)
  moreover have "takeWhile (\<lambda>c. c \<noteq> CHR '':'') (q @ CHR '':'' # x) = q" if "CHR '':'' \<notin> set q" for q x
    using that by (induction q) auto
  ultimately have "r = r'" using \<open>CHR '':'' \<notin> set r\<close> \<open>CHR '':'' \<notin> set r'\<close> by metis
  then show ?thesis using \<open>r @ _ = _\<close> by simp
qed

lemma colon_notin_hex: "CHR '':'' \<notin> set (hex_encode bs)"
proof -
  have "hex_digit n \<noteq> CHR '':''" if "n < 16" for n
    using hex_val_digit [OF that] by (auto simp: hex_val_def)
  moreover have "(of_char c :: nat) div 16 < 16" for c using of_char_256 [of c] by (simp add: div_less_iff_less_mult)
  ultimately show ?thesis by (auto simp: hex_encode_def hex_byte_def eq_commute [of "CHR '':''"])
qed

text \<open>
  What the control plane signs: at every answer it exports its engine and signs the export at
  the current time.  A call is the state of the engine and that time.
\<close>

definition digests_signed :: "crypto \<Rightarrow> ('p engine \<times> gotime) list \<Rightarrow> bytes set" where
  "digests_signed cr calls =
     {bundleSigningInput cr (bn_revision b0) t | e t b0. (e, t) \<in> set calls \<and> Bundle cr e = Inr b0}"

lemma CheckRevision_json:
  "CheckRevision cr b = None \<Longrightarrow> \<exists>raw. bundle_json b = Some raw \<and> bn_revision b = hex_encode (sha256 cr raw)"
  by (auto simp: CheckRevision_def bundleRevision_def split: option.splits sum.splits if_splits)

lemma Bundle_checks: "Bundle cr e = Inr b0 \<Longrightarrow> CheckRevision cr b0 = None"
  using Bundle_Inr(1) unfolding CheckRevision_def bundleRevision_def by blast

text \<open>
  C25. A bundle that verifies is one the control plane signed: for a bundle whose signature and
  revision verify there is a call in which the control plane exported a bundle with the same
  encoded content and signed it at the same nanosecond.  There are two ways out.  Two different
  texts at hand have the same SHA-256 digest, the signing texts or the contents of the bundle
  and of a signed one.  Or the signature is forged: it verifies for a digest that was never
  signed.
\<close>
theorem verified_bundle_was_signed:
  assumes "VerifyBundle cr ec pub b = None" "CheckRevision cr b = None"
  shows "(\<exists>(e, t) \<in> set calls. \<exists>b0. Bundle cr e = Inr b0 \<and> bundle_json b = bundle_json b0
            \<and> unix_nano (bn_issued_at b) = unix_nano t)
    \<or> (\<exists>(e, t) \<in> set calls. \<exists>b0 x y. Bundle cr e = Inr b0 \<and> x \<noteq> y \<and> sha256 cr x = sha256 cr y \<and>
         (x = signing_text (bn_revision b) (bn_issued_at b) \<and> y = signing_text (bn_revision b0) t
          \<or> bundle_json b = Some x \<and> bundle_json b0 = Some y))
    \<or> (\<exists>sig m. rawurl_decode (bn_signature b) = Some sig \<and> m = bundleSigningInput cr (bn_revision b) (bn_issued_at b)
         \<and> ec_verify ec pub m sig \<and> m \<notin> digests_signed cr calls)"
proof -
  let ?m = "bundleSigningInput cr (bn_revision b) (bn_issued_at b)"
  obtain sig where sig: "rawurl_decode (bn_signature b) = Some sig" "ec_verify ec pub ?m sig"
    using assms(1) by (auto simp: VerifyBundle_def split: if_splits option.splits)
  show ?thesis
  proof (cases "?m \<in> digests_signed cr calls")
    case True
    then obtain e t b0 where b0: "(e, t) \<in> set calls" "Bundle cr e = Inr b0" and m: "?m = bundleSigningInput cr (bn_revision b0) t"
      unfolding digests_signed_def by blast
    obtain x y where x: "bundle_json b = Some x" "bn_revision b = hex_encode (sha256 cr x)"
      and y: "bundle_json b0 = Some y" "bn_revision b0 = hex_encode (sha256 cr y)"
      using CheckRevision_json [OF assms(2)] CheckRevision_json [OF Bundle_checks [OF b0(2)]] by blast
    show ?thesis
    proof (cases "signing_text (bn_revision b) (bn_issued_at b) = signing_text (bn_revision b0) t")
      case True
      then have "bn_revision b = bn_revision b0" and n: "unix_nano (bn_issued_at b) = unix_nano t"
        using signing_text_inject x(2) y(2) colon_notin_hex by metis+
      then have "sha256 cr x = sha256 cr y" by (simp add: x(2) y(2))
      with n x(1) y(1) b0 show ?thesis by (cases "x = y") fastforce+
    next
      case False
      with m b0 show ?thesis by (fastforce simp: bundleSigningInput_def)
    qed
  next
    case False
    with sig show ?thesis by blast
  qed
qed

lemma rawurl_encode_Nil: "rawurl_encode bs = [] \<longleftrightarrow> bs = []"
  by (cases bs rule: rawurl_encode.cases) (simp_all add: Let_def)

text \<open>
  C26. A signed bundle verifies: what the control plane exports and signs at a time that is set
  passes the check of its signature under the public key of the pair and the check of its
  revision, and loads as the export does.  The key pair is one whose signatures are not empty
  and verify.
\<close>
theorem signed_bundle_verifies:
  assumes "Bundle cr e = Inr b0" "SignBundleAt cr ec rnd key t b0 = Inr b" "\<not> is_zero_time t"
    and "\<And>r m sig. ec_sign ec r key m = Some sig \<Longrightarrow> sig \<noteq> [] \<and> ec_verify ec pub m sig"
  shows "VerifyBundle cr ec pub b = None \<and> CheckRevision cr b = None
         \<and> LoadBundle cr parse_td cd b e1 = LoadBundle cr parse_td cd b0 e1"
proof -
  obtain sig where sig: "ec_sign ec rnd key (bundleSigningInput cr (bn_revision b0) t) = Some sig"
    and b: "b = b0\<lparr>bn_issued_at := t, bn_signature := rawurl_encode sig\<rparr>"
    using assms(2) by (auto simp: SignBundleAt_def split: if_splits option.splits)
  have json: "bundle_json b = bundle_json b0" "bn_revision b = bn_revision b0" by (simp_all add: b bundle_json_def)
  have parts: "bn_policies b = bn_policies b0" "bn_entities b = bn_entities b0" "bn_directory b = bn_directory b0"
    "bundle_files b = bundle_files b0" "bundle_stored b = bundle_stored b0" "bundle_dir td b = bundle_dir td b0" for td
    by (simp_all add: b bundle_files_def bundle_stored_def bundle_dir_def)
  have "rawurl_encode sig \<noteq> []" using assms(4) [OF sig] by (simp add: rawurl_encode_Nil)
  then have "VerifyBundle cr ec pub b = None"
    using assms(3) assms(4) [OF sig] by (simp add: VerifyBundle_def b rawurl_decode_encode)
  moreover have rev: "CheckRevision cr b = CheckRevision cr b0"
    unfolding CheckRevision_def bundleRevision_def json ..
  moreover have "LoadBundle cr parse_td cd b e1 = LoadBundle cr parse_td cd b0 e1"
    unfolding LoadBundle_def rev parts json(2) ..
  ultimately show ?thesis using Bundle_checks [OF assms(1)] by simp
qed

section \<open>An exported engine\<close>

lemma demo_engine_state:
  "en_static_raw demo_engine = []" "en_dir_spec demo_engine = zero_directory"
  by code_simp+

lemma demo_bundle: "\<exists>b. Bundle demo_crypto demo_engine = Inr b"
  by (simp add: Bundle_def Snapshot_engine_def bundleRevision_def bundle_json_def content_json_def directory_json_def memberships_json_def
      all_Some_def demo_engine_state zero_directory_def Let_def)

theorem local_evaluator_decides_alike_witness:
  "\<exists>b e1. Bundle demo_crypto demo_engine = Inr b \<and> LoadBundle demo_crypto Some demo_cedar b New_engine = Inr e1 \<and> en_revision e1 = bn_revision b
     \<and> Evaluate demo_cedar (\<lambda>_. None) demo_float 5 demo_request e1 = Evaluate demo_cedar (\<lambda>_. None) demo_float 5 demo_request demo_engine"
proof -
  obtain b where b: "Bundle demo_crypto demo_engine = Inr b" using demo_bundle by blast
  have "distinct (map fst (dr_memberships (en_dir_spec demo_engine)))" by (simp add: demo_engine_state zero_directory_def)
  from local_evaluator_decides_alike [OF demo_engine_inv this b, of Some New_engine] b show ?thesis by blast
qed

text \<open>A signature that is the digest after a tag, for one key pair.\<close>

definition demo_ecdsa :: "(unit, unit) ecdsa" where
  "demo_ecdsa = \<lparr>ec_p256 = (\<lambda>_. True), ec_sign = (\<lambda>_ _ m. Some (CHR ''s'' # m)), ec_verify = (\<lambda>_ m sig. sig = CHR ''s'' # m)\<rparr>"

lemma demo_ecdsa_pair: "ec_sign demo_ecdsa r () m = Some sig \<Longrightarrow> sig \<noteq> [] \<and> ec_verify demo_ecdsa () m sig"
  by (auto simp: demo_ecdsa_def)

lemma demo_signed_bundle:
  obtains b0 b where "Bundle demo_crypto demo_engine = Inr b0" "SignBundleAt demo_crypto demo_ecdsa 0 () 7 b0 = Inr b"
  using demo_bundle by (auto simp: SignBundleAt_def demo_ecdsa_def)

theorem signed_bundle_verifies_witness:
  "\<exists>b0 b. Bundle demo_crypto demo_engine = Inr b0 \<and> SignBundleAt demo_crypto demo_ecdsa 0 () 7 b0 = Inr b
     \<and> VerifyBundle demo_crypto demo_ecdsa () b = None \<and> CheckRevision demo_crypto b = None
     \<and> LoadBundle demo_crypto Some demo_cedar b New_engine = LoadBundle demo_crypto Some demo_cedar b0 New_engine"
proof -
  obtain b0 b where b: "Bundle demo_crypto demo_engine = Inr b0" "SignBundleAt demo_crypto demo_ecdsa 0 () 7 b0 = Inr b"
    by (rule demo_signed_bundle)
  have "\<not> is_zero_time 7" by (simp add: is_zero_time_def zero_time_def)
  have "VerifyBundle demo_crypto demo_ecdsa () b = None \<and> CheckRevision demo_crypto b = None
      \<and> LoadBundle demo_crypto Some demo_cedar b New_engine = LoadBundle demo_crypto Some demo_cedar b0 New_engine"
    by (rule signed_bundle_verifies [OF b \<open>\<not> is_zero_time 7\<close>]) (rule demo_ecdsa_pair)
  with b show ?thesis by blast
qed

theorem verified_bundle_was_signed_witness:
  "\<exists>b0 b. Bundle demo_crypto demo_engine = Inr b0 \<and> SignBundleAt demo_crypto demo_ecdsa 0 () 7 b0 = Inr b
     \<and> VerifyBundle demo_crypto demo_ecdsa () b = None \<and> CheckRevision demo_crypto b = None
     \<and> bundle_json b = bundle_json b0 \<and> unix_nano (bn_issued_at b) = unix_nano 7"
proof -
  obtain b0 b where b: "Bundle demo_crypto demo_engine = Inr b0" "SignBundleAt demo_crypto demo_ecdsa 0 () 7 b0 = Inr b"
    by (rule demo_signed_bundle)
  then have f: "b = b0\<lparr>bn_issued_at := 7, bn_signature := rawurl_encode (CHR ''s'' # bundleSigningInput demo_crypto (bn_revision b0) 7)\<rparr>"
    by (auto simp: SignBundleAt_def demo_ecdsa_def)
  have v: "VerifyBundle demo_crypto demo_ecdsa () b = None"
    by (simp add: VerifyBundle_def f rawurl_decode_encode rawurl_encode_Nil demo_ecdsa_def is_zero_time_def zero_time_def)
  have json: "bundle_json b = bundle_json b0" "bn_issued_at b = 7" "bn_revision b = bn_revision b0" by (simp_all add: f bundle_json_def)
  then have c: "CheckRevision demo_crypto b = None"
    using Bundle_checks [OF b(1)] unfolding CheckRevision_def bundleRevision_def json by simp
  have "bundleSigningInput demo_crypto (bn_revision b) (bn_issued_at b) \<in> digests_signed demo_crypto [(demo_engine, 7)]"
    using b(1) by (auto simp: digests_signed_def json)
  with verified_bundle_was_signed [OF v c, of "[(demo_engine, 7)]"] b v c json show ?thesis by auto
qed

end
