(* ===== verification/Spec2Isabelle.thy ===== *)
theory Spec2Isabelle
  imports AuditPump BundleSequence Leader PolicyBundle
begin

text \<open>
  Omega is a control plane for workload identity.  One server keeps domains and their
  administrators, groups, users and groups provisioned over SCIM, Cedar policies, the
  certificates of external CAs and a tamper-evident audit log in one SQL database (SQLite,
  or Postgres with several replicas and one leader).  It decides access requests with the
  policies of its files and of the database, and serves the trust bundle of its domain.
  It also forwards its log to a webhook or an OTLP collector and exports its policies, signed,
  to agents that decide locally.  This development models the storage package, the policy
  engine and its export, the forwarding of the log, the election of the leader and the
  numbering of the trust bundle, and proves what they promise.

  \<^bold>\<open>Conventions.\<close>  A Go string is a list of characters, one per byte.  An instant is the
  number of nanoseconds since the epoch; \<^verbatim>\<open>UnixNano\<close> and every integer that may overflow
  wrap at 64 bits (\<^verbatim>\<open>wrap64\<close>).  An error is a value of the type \<^verbatim>\<open>err\<close>, and a fallible
  function returns \<^verbatim>\<open>err + 'a\<close>.  What a run of a method meets in the world is the record
  \<^verbatim>\<open>io\<close>: the clock, which of its statements fail, whether its commit succeeds, fails, or
  succeeds and the answer is lost, and which sequence numbers the database skips.  A method
  of the store maps a store to a result and a store.  Code outside the repository is an
  argument: the digests and MACs are a record \<^verbatim>\<open>crypto\<close>, ECDSA a record \<^verbatim>\<open>ecdsa\<close>, the Cedar
  library a record \<^verbatim>\<open>cedar\<close>, whose authorizer is a function of policies, entities and
  request; the SPIFFE ID parser and the formatting of floats are functions.  What a theorem
  needs of them is a hypothesis.  No theorem assumes that a digest has no collisions or that
  a MAC or signature cannot be forged: the conclusion has a disjunct that names the two
  colliding inputs, or the forged value and the input nobody authenticated.

  \<^bold>\<open>Theories and the code they model\<close> (paths under \<^verbatim>\<open>src/internal/server\<close>).

  \<^item> Prelude and Tables: time, wrapping integers, decimal and hexadecimal text, and the SQL
    statements the store uses, on tables as lists of rows with primary keys.
  \<^item> Json and JsonParse: what \<^verbatim>\<open>encoding/json\<close> writes and reads for the payloads that are
    kept as text, with the theorem that they read back.  JsonText: the structs that are sent
    (times, raw values, omitted fields) and unpadded base64 with its round trip.
  \<^item> Store (\<^verbatim>\<open>storage/sqlite.go\<close>, the gate of \<^verbatim>\<open>storage/leader.go\<close>): the database as a
    record of tables, transactions as functions on it, and the methods that run them.  The
    locale \<^verbatim>\<open>db_write\<close> is the contract of a method that writes: only the leader
    writes, and an error leaves the database alone unless the answer to the commit was
    lost.  Every writing method of the store is an interpretation of it.
  \<^item> Keyring (\<^verbatim>\<open>storage/audit_keyring.go\<close>), AuditLog (\<^verbatim>\<open>storage/audit.go\<close>,
    \<^verbatim>\<open>storage/audit_forward.go\<close>): the key ring, appending with and without an idempotency
    key, listing, verification against an anchor.  HashChain is the theory of linked rows,
    a locale interpreted in AuditChain on the rows of the log; AuditChain shows what a
    verified log proves, AuditAppend what an append and a key ring reload keep.
  \<^item> Domains (\<^verbatim>\<open>storage/domains.go\<close>), GroupStore (\<^verbatim>\<open>storage/groups.go\<close>): the tree of
    domains, groups, and the compensating writes of the handlers.
  \<^item> ScimStore and ScimSync (\<^verbatim>\<open>storage/scim.go\<close>): a provisioning transaction as a list of
    calls, and the invariant that ties the managed groups to the provisioned members.
  \<^item> Policies (\<^verbatim>\<open>storage/policies.go\<close>): the stored policies and their audit digests.
  \<^item> UpstreamStore (\<^verbatim>\<open>storage/upstream_ca.go\<close>): external CAs under a MAC, and the stored
    sequence number of the bundle.  BundleSequence (\<^verbatim>\<open>identity/bundle_sequence.go\<close>) is its
    client: the locale \<^verbatim>\<open>sequence_store\<close> is the contract it relies on, interpreted on the
    operations of the store.
  \<^item> Leader (\<^verbatim>\<open>storage/leader.go\<close>): replicas that campaign for an advisory lock, tick by
    tick, against a lock server whose sessions may end at any moment.
  \<^item> Engine, EngineLoad, EngineEval (\<^verbatim>\<open>policy/engine.go\<close>, \<^verbatim>\<open>policy/directory.go\<close>): the
    policy engine, its loaders and their invariant, evaluation and search.
  \<^item> PolicyBundle (\<^verbatim>\<open>policy/bundle.go\<close>): the export of an engine, its revision, its signature
    and loading it elsewhere.
  \<^item> Reach: all writes of the store together, and the stores they reach.
  \<^item> Forwarders (\<^verbatim>\<open>audit/webhook.go\<close>, \<^verbatim>\<open>audit/otlp.go\<close>) and AuditPump (\<^verbatim>\<open>audit/pump.go\<close>): the
    two senders as interpretations of the locale \<^verbatim>\<open>forwarder\<close>, which says that a batch is
    answered without an error only after the receiver acknowledged exactly it, and the pump
    as whole ticks and as the single calls of replicas that interleave.

  \<^bold>\<open>What is shown.\<close>

  \<^item> The log: a log that verifies against an anchor extends the log the anchor was taken of;
    appends keep it verifiable; a resent event is recorded once; rows without a key cannot
    replace keyed ones.  Four theorems show limits of the scheme: a row numbered zero is
    never reported, such a row can stand for deleted rows against an anchor, bytes can move
    between adjacent fields, and a reload can replace the secret of a known key.
  \<^item> The store: in every reachable state the log verifies, the references between tables
    hold, a SCIM group has exactly its active members, and the stored policies are those the
    log records; failed writes and writes of followers change nothing.  Domains, groups and
    external CAs read back as written, the undo of a group write restores it, and a CA read
    from the table is one Omega stored or its MAC is forged.
  \<^item> Several replicas: two replicas that both answer to be the leader cannot both hold a live
    session; a lost leader is replaced once any replica has ticked twice, whatever the others
    do meanwhile; the bundle sequence never goes back, over restarts and changes of leader,
    stays within 63 bits for 2^31 calls, and gives other material a higher number as soon as
    the store can be read.
  \<^item> The engine: a policy that passes its check loads, stored policies never replace the
    policies of the files, a forbid policy that fails to evaluate denies the request, a
    workload is a member of exactly its deepest known domain and its groups in force, the
    search index gives the sorted entities of a type, numbers in a request are exact or
    refused.  A loaded export decides as the engine it was taken of; a signed export verifies,
    and what verifies was signed.
  \<^item> Forwarding: every row up to the watermark was in a request the receiver acknowledged, a
    tick takes nothing or the first batch of the backlog, and without failures the backlog is
    sent in order and once.

  \<^bold>\<open>Bounds.\<close>  Loops over rows and results are structural recursions, and an election runs for
  as many ticks as its trace has.  Only the JSON reader has fuel, twice the length of its
  input; \<^verbatim>\<open>parse_fuel_enough\<close> shows that more gives the same result.  The nesting limit of
  the Go library is not modelled; no payload the store reads back is nested.

  \<^bold>\<open>Not modelled.\<close>  Transactions that overlap: calls of the store run one after the other,
  for which the code relies on the write lock of SQLite, the mutex of the log and the row locks
  it takes on Postgres.  Two replicas that both take themselves for the
  leader on Postgres, which \<^verbatim>\<open>one_live_leader\<close> allows for as long as one of them has not seen
  that its session ended, can interleave the statements of two appends; the theorems on the
  log do not speak about that.  The tags of Cedar entities, which an entity file may set and the
  code hands on unread, and the copy of its own identifier in an entity.  The handlers of the HTTP API.  The text of SQL statements (their effect on rows is), the wire formats of
  the HTTP, gRPC and cloud provider interfaces, X.509, JWT and DPoP processing, which the code
  delegates to crypto and JOSE libraries, attestation of processes and pods, which reads the
  operating system and kubelet, the Kubernetes operator, metrics, tracing, the command line
  and the example programs.
\<close>

end
